(* ===== verification/Prelude.thy ===== *)
theory Prelude
  imports Main "HOL-Library.Word"
begin

unbundle bit_operations_syntax

text \<open>
  What the component theories share: the machine-integer types of the Rust sources and the
  standard library's checked and saturating arithmetic on them, little-endian byte strings,
  the result monad with which every fallible routine is written (both the pure form and the
  form that threads a state which survives an error), slices with their panic, and decimal
  rendering for messages.  Integers that the sources add or subtract without a check wrap, as
  they do in the release profile of \<^verbatim>\<open>Cargo.toml\<close>.
\<close>

named_theorems word_nat \<open>the natural-number reading of machine-integer operations\<close>
named_theorems res \<open>inversion of results and of result-returning binds\<close>

section \<open>Machine integers\<close>

type_synonym u8 = "8 word"
type_synonym u16 = "16 word"
type_synonym u32 = "32 word"
type_synonym u64 = "64 word"
type_synonym u128 = "128 word"
type_synonym i64 = "64 word"
type_synonym usize = "64 word"

definition max_w :: "'a::len word" where
  "max_w = - 1"

definition checked_add :: "'a::len word \<Rightarrow> 'a word \<Rightarrow> 'a word option" where
  "checked_add a b = (if unat a + unat b < 2 ^ LENGTH('a) then Some (a + b) else None)"

definition checked_mul :: "'a::len word \<Rightarrow> 'a word \<Rightarrow> 'a word option" where
  "checked_mul a b = (if unat a * unat b < 2 ^ LENGTH('a) then Some (a * b) else None)"

definition saturating_add :: "'a::len word \<Rightarrow> 'a word \<Rightarrow> 'a word" where
  "saturating_add a b = (case checked_add a b of Some c \<Rightarrow> c | None \<Rightarrow> max_w)"

definition saturating_mul :: "'a::len word \<Rightarrow> 'a word \<Rightarrow> 'a word" where
  "saturating_mul a b = (case checked_mul a b of Some c \<Rightarrow> c | None \<Rightarrow> max_w)"

definition saturating_sub :: "'a::len word \<Rightarrow> 'a word \<Rightarrow> 'a word" where
  "saturating_sub a b = (if b \<le> a then a - b else 0)"

lemma unat_max_w [word_nat]: "unat (max_w :: 'a::len word) = 2 ^ LENGTH('a) - 1"
  by (simp add: max_w_def unsigned_minus_1_eq_mask mask_eq_exp_minus_1)

lemma unat_lt: "unat (a :: 'a::len word) < 2 ^ LENGTH('a)"
  by (rule unsigned_less)

lemma unat_le_max_w: "unat (a :: 'a::len word) \<le> 2 ^ LENGTH('a) - 1"
  using unat_lt [of a] by linarith

lemma unat_add_fits [word_nat]:
  "unat a + unat b < 2 ^ LENGTH('a) \<Longrightarrow> unat (a + b :: 'a::len word) = unat a + unat b"
  by (rule unat_add_lem [THEN iffD1])

lemma unat_mul_fits [word_nat]:
  "unat a * unat b < 2 ^ LENGTH('a) \<Longrightarrow> unat (a * b :: 'a::len word) = unat a * unat b"
  by (rule unat_mult_lem [THEN iffD1])

lemma unat_sub_fits [word_nat]:
  "b \<le> a \<Longrightarrow> unat (a - b :: 'a::len word) = unat a - unat b"
  by (rule unat_sub)

lemma checked_add_Some [res]:
  "checked_add a b = Some (c :: 'a::len word) \<longleftrightarrow>
     unat a + unat b < 2 ^ LENGTH('a) \<and> c = a + b"
  by (auto simp: checked_add_def)

lemma checked_mul_Some [res]:
  "checked_mul a b = Some (c :: 'a::len word) \<longleftrightarrow>
     unat a * unat b < 2 ^ LENGTH('a) \<and> c = a * b"
  by (auto simp: checked_mul_def)

lemma checked_add_None [res]:
  "checked_add a (b :: 'a::len word) = None \<longleftrightarrow> 2 ^ LENGTH('a) \<le> unat a + unat b"
  by (auto simp: checked_add_def)

lemma checked_mul_None [res]:
  "checked_mul a (b :: 'a::len word) = None \<longleftrightarrow> 2 ^ LENGTH('a) \<le> unat a * unat b"
  by (auto simp: checked_mul_def)

lemma unat_saturating_add [word_nat]:
  "unat (saturating_add a b :: 'a::len word) = min (unat a + unat b) (2 ^ LENGTH('a) - 1)"
  using unat_le_max_w [of "a + b"]
  by (auto simp: saturating_add_def checked_add_def word_nat)

lemma unat_saturating_mul [word_nat]:
  "unat (saturating_mul a b :: 'a::len word) = min (unat a * unat b) (2 ^ LENGTH('a) - 1)"
  by (auto simp: saturating_mul_def checked_mul_def word_nat)

lemma unat_saturating_sub [word_nat]:
  "unat (saturating_sub a b :: 'a::len word) = unat a - unat b"
  by (auto simp: saturating_sub_def word_nat word_le_nat_alt)

lemma unat_of_nat_fits [word_nat]:
  "n < 2 ^ LENGTH('a) \<Longrightarrow> unat (of_nat n :: 'a::len word) = n"
  by (simp add: unat_of_nat take_bit_nat_eq_self)

lemma xor_cancel_left [simp]: "a XOR (a XOR b) = (b :: 'a::len word)"
  by (simp only: xor.assoc [symmetric] xor_self_eq xor.left_neutral)

lemma xor_left_inject: "a XOR b = a XOR c \<longleftrightarrow> b = (c :: 'a::len word)"
  by (metis xor_cancel_left)

lemma xor_right_inject: "b XOR a = c XOR a \<longleftrightarrow> b = (c :: 'a::len word)"
  by (metis xor_left_inject xor.commute)

subsection \<open>Signed arithmetic\<close>

text \<open>An \<open>i64\<close> is a 64-bit word read with \<open>sint\<close>; only its saturating operations differ
  from the unsigned ones.\<close>

definition i64_sat :: "int \<Rightarrow> i64" where
  "i64_sat z = (if z > 2 ^ 63 - 1 then of_int (2 ^ 63 - 1)
                else if z < - (2 ^ 63) then of_int (- (2 ^ 63)) else of_int z)"

definition i64_saturating_mul :: "i64 \<Rightarrow> i64 \<Rightarrow> i64" where
  "i64_saturating_mul a b = i64_sat (sint a * sint b)"

text \<open>Rust's division truncates towards zero.\<close>

definition i64_saturating_div :: "i64 \<Rightarrow> i64 \<Rightarrow> i64" where
  "i64_saturating_div a b = i64_sat (sgn (sint a) * sgn (sint b) * (\<bar>sint a\<bar> div \<bar>sint b\<bar>))"

section \<open>Bytes\<close>

primrec le_bytes :: "nat \<Rightarrow> 'a::len word \<Rightarrow> u8 list" where
  "le_bytes 0 v = []"
| "le_bytes (Suc n) v = ucast v # le_bytes n (drop_bit 8 v)"

fun from_le :: "u8 list \<Rightarrow> 'a::len word" where
  "from_le [] = 0"
| "from_le (b # bs) = ucast b OR push_bit 8 (from_le bs)"

definition be_bytes :: "nat \<Rightarrow> 'a::len word \<Rightarrow> u8 list" where
  "be_bytes n v = rev (le_bytes n v)"

definition from_be :: "u8 list \<Rightarrow> 'a::len word" where
  "from_be bs = from_le (rev bs)"

lemma length_le_bytes [simp]: "length (le_bytes n v) = n"
  by (induction n arbitrary: v) auto

lemma length_be_bytes [simp]: "length (be_bytes n v) = n"
  by (simp add: be_bytes_def)

lemma le_bytes_take_bit: "8 * n \<le> k \<Longrightarrow> le_bytes n (take_bit k v) = le_bytes n (v :: 'a::len word)"
proof (induction n arbitrary: v k)
  case (Suc n)
  have "ucast (take_bit k v) = (ucast v :: u8)"
    using Suc.prems by (auto simp: bit_eq_iff bit_simps)
  moreover have "drop_bit 8 (take_bit k v) = take_bit (k - 8) (drop_bit 8 v)"
    by (simp add: drop_bit_take_bit)
  moreover have "le_bytes n (take_bit (k - 8) (drop_bit 8 v)) = le_bytes n (drop_bit 8 v)"
    by (rule Suc.IH) (use Suc.prems in simp)
  ultimately show ?case by simp
qed simp

lemma from_le_le_bytes: "from_le (le_bytes n v) = take_bit (8 * n) (v :: 'a::len word)"
proof (induction n arbitrary: v)
  case (Suc n)
  show ?case
  proof (rule bit_word_eqI)
    fix k assume "k < LENGTH('a)"
    then show "bit (from_le (le_bytes (Suc n) v) :: 'a word) k = bit (take_bit (8 * Suc n) v) k"
      by (cases "k < 8") (auto simp: Suc.IH bit_simps)
  qed
qed simp

lemma funpow_8: "(f ^^ 8) x = f (f (f (f (f (f (f (f x)))))))"
  by (simp add: numeral_eq_Suc)

lemma from_le_u16 [simp]: "from_le (le_bytes 2 v) = (v :: u16)"
  by (simp add: from_le_le_bytes take_bit_word_eq_self)

lemma from_le_u32 [simp]: "from_le (le_bytes 4 v) = (v :: u32)"
  by (simp add: from_le_le_bytes take_bit_word_eq_self)

lemma from_le_u64 [simp]: "from_le (le_bytes 8 v) = (v :: u64)"
  by (simp add: from_le_le_bytes take_bit_word_eq_self)

lemma le_bytes_from_le: "length bs = n \<Longrightarrow> 8 * n \<le> LENGTH('a) \<Longrightarrow> le_bytes n (from_le bs :: 'a::len word) = bs"
proof (induction bs arbitrary: n)
  case (Cons b bs)
  then obtain m where n: "n = Suc m" "length bs = m" "8 * m \<le> LENGTH('a)" by (cases n) auto
  let ?w = "from_le bs :: 'a word"
  have "ucast (ucast b OR push_bit 8 ?w) = b"
    using Cons.prems n(1) by (auto simp: bit_eq_iff bit_simps)
  moreover have "drop_bit 8 (ucast b OR push_bit 8 ?w) = take_bit (LENGTH('a) - 8) ?w"
    by (auto simp: bit_eq_iff bit_simps dest: bit_imp_le_length)
  moreover have "le_bytes m (take_bit (LENGTH('a) - 8) ?w) = le_bytes m ?w"
    by (rule le_bytes_take_bit) (use Cons.prems n in auto)
  ultimately show ?case
    using Cons.IH [of m] n by simp
qed simp

lemma le_bytes_inject_u32: "le_bytes 4 (a :: u32) = le_bytes 4 b \<longleftrightarrow> a = b"
  by (metis from_le_u32)

lemma le_bytes_inject_u64: "le_bytes 8 (a :: u64) = le_bytes 8 b \<longleftrightarrow> a = b"
  by (metis from_le_u64)

text \<open>A Rust string is a byte sequence; a \<open>char\<close> of HOL is one byte of it.\<close>

definition as_bytes :: "string \<Rightarrow> u8 list" where
  "as_bytes s = map (\<lambda>c. of_nat (of_char c)) s"

definition string_of_bytes :: "u8 list \<Rightarrow> string" where
  "string_of_bytes bs = map (\<lambda>b. char_of (unat b)) bs"

lemma length_as_bytes [simp]: "length (as_bytes s) = length s"
  by (simp add: as_bytes_def)

lemma length_string_of_bytes [simp]: "length (string_of_bytes bs) = length bs"
  by (simp add: string_of_bytes_def)

lemma of_char_nat_lt: "(of_char c :: nat) < 256"
  using nat_of_char_less_256 by simp

lemma string_of_as_bytes [simp]: "string_of_bytes (as_bytes s) = s"
  by (induction s) (simp_all add: string_of_bytes_def as_bytes_def word_nat of_char_nat_lt)

lemma as_bytes_of_string [simp]: "as_bytes (string_of_bytes bs) = bs"
proof (induction bs)
  case (Cons b bs)
  have "unat b < 256"
    using unat_lt [of b] by simp
  with Cons show ?case
    by (simp add: string_of_bytes_def as_bytes_def of_char_of)
qed (simp add: string_of_bytes_def as_bytes_def)

lemma as_bytes_inject [simp]: "as_bytes s = as_bytes t \<longleftrightarrow> s = t"
  by (metis string_of_as_bytes)

section \<open>Results\<close>

fun and_then :: "'e + 'a \<Rightarrow> ('a \<Rightarrow> 'e + 'b) \<Rightarrow> 'e + 'b" where
  "and_then (Inl e) f = Inl e"
| "and_then (Inr x) f = f x"

lemma and_then_cong [fundef_cong]:
  "m = m' \<Longrightarrow> (\<And>x. m' = Inr x \<Longrightarrow> f x = g x) \<Longrightarrow> and_then m f = and_then m' g"
  by (cases m') auto

lemma and_then_Inr_iff [res]:
  "and_then m f = Inr y \<longleftrightarrow> (\<exists>x. m = Inr x \<and> f x = Inr y)"
  by (cases m) auto

lemma and_then_Inl_iff [res]:
  "and_then m f = Inl e \<longleftrightarrow> m = Inl e \<or> (\<exists>x. m = Inr x \<and> f x = Inl e)"
  by (cases m) auto

lemma and_then_assoc:
  "and_then (and_then m f) g = and_then m (\<lambda>x. and_then (f x) g)"
  by (cases m) auto

definition map_err :: "('e \<Rightarrow> 'f) \<Rightarrow> 'e + 'a \<Rightarrow> 'f + 'a" where
  "map_err h m = (case m of Inl e \<Rightarrow> Inl (h e) | Inr x \<Rightarrow> Inr x)"

lemma map_err_Inr_iff [res]: "map_err h m = Inr x \<longleftrightarrow> m = Inr x"
  by (cases m) (auto simp: map_err_def)

definition ok_or :: "'a option \<Rightarrow> 'e \<Rightarrow> 'e + 'a" where
  "ok_or m e = (case m of None \<Rightarrow> Inl e | Some x \<Rightarrow> Inr x)"

lemma ok_or_simps [simp]: "ok_or None e = Inl e" "ok_or (Some x) e = Inr x"
  by (simp_all add: ok_or_def)

lemma ok_or_Inr_iff [res]: "ok_or m e = Inr x \<longleftrightarrow> m = Some x"
  by (cases m) auto

lemma ok_or_Inl_iff [res]: "ok_or m e = Inl e' \<longleftrightarrow> m = None \<and> e' = e"
  by (cases m) auto

definition is_ok :: "'e + 'a \<Rightarrow> bool" where
  "is_ok m = (case m of Inl _ \<Rightarrow> False | Inr _ \<Rightarrow> True)"

lemma is_ok_iff [res]: "is_ok m \<longleftrightarrow> (\<exists>x. m = Inr x)"
  by (cases m) (auto simp: is_ok_def)

lemma is_ok_simps [simp]: "is_ok (Inr x)" "\<not> is_ok (Inl e)"
  by (simp_all add: is_ok_def)

text \<open>A loop whose body may return early with an error.\<close>

fun fold_r :: "('a \<Rightarrow> 's \<Rightarrow> 'e + 's) \<Rightarrow> 'a list \<Rightarrow> 's \<Rightarrow> 'e + 's" where
  "fold_r f [] s = Inr s"
| "fold_r f (x # xs) s = and_then (f x s) (fold_r f xs)"

lemma fold_r_append: "fold_r f (xs @ ys) s = and_then (fold_r f xs s) (fold_r f ys)"
  by (induction xs arbitrary: s) (auto simp: and_then_assoc intro: and_then_cong)

text \<open>Early return in code that also mutates: the state reached so far survives the error.\<close>

definition st_then ::
  "('s \<Rightarrow> ('e + 'a) \<times> 's) \<Rightarrow> ('a \<Rightarrow> 's \<Rightarrow> ('e + 'b) \<times> 's) \<Rightarrow> 's \<Rightarrow> ('e + 'b) \<times> 's" where
  "st_then m f s = (case m s of (Inl e, s') \<Rightarrow> (Inl e, s') | (Inr x, s') \<Rightarrow> f x s')"

lemma st_then_simps [simp]:
  "m s = (Inl e, s') \<Longrightarrow> st_then m f s = (Inl e, s')"
  "m s = (Inr x, s') \<Longrightarrow> st_then m f s = f x s'"
  by (simp_all add: st_then_def)

lemma st_then_Pair [simp]: "st_then (Pair (Inr x)) f s = f x s" "st_then (Pair (Inl e)) f s = (Inl e, s)"
  by (simp_all add: st_then_def)

lemma st_then_Inr_iff [res]:
  "st_then m f s = (Inr y, t) \<longleftrightarrow> (\<exists>x u. m s = (Inr x, u) \<and> f x u = (Inr y, t))"
  by (auto simp: st_then_def split: prod.splits sum.splits)

lemma st_then_Inl_iff [res]:
  "st_then m f s = (Inl e, t) \<longleftrightarrow>
     m s = (Inl e, t) \<or> (\<exists>x u. m s = (Inr x, u) \<and> f x u = (Inl e, t))"
  by (auto simp: st_then_def split: prod.splits sum.splits)

fun fold_st :: "('a \<Rightarrow> 's \<Rightarrow> ('e + unit) \<times> 's) \<Rightarrow> 'a list \<Rightarrow> 's \<Rightarrow> ('e + unit) \<times> 's" where
  "fold_st f [] s = (Inr (), s)"
| "fold_st f (x # xs) s = st_then (f x) (\<lambda>_. fold_st f xs) s"

text \<open>Rule for a property of the state that every step keeps, whether it errs or not.\<close>

lemma st_then_preserves:
  "P (snd (m s)) \<Longrightarrow> (\<And>x u. m s = (Inr x, u) \<Longrightarrow> P u \<Longrightarrow> P (snd (f x u))) \<Longrightarrow>
     P (snd (st_then m f s))"
  by (auto simp: st_then_def split: prod.splits sum.splits)

lemma fold_st_preserves:
  assumes "\<And>x s. x \<in> set xs \<Longrightarrow> P s \<Longrightarrow> P (snd (f x s))" and "P s"
  shows "P (snd (fold_st f xs s))"
  using assms
proof (induction xs arbitrary: s)
  case (Cons x xs)
  have "P (snd (st_then (f x) (\<lambda>_. fold_st f xs) s))"
    by (rule st_then_preserves) (use Cons in auto)
  then show ?case by simp
qed simp

section \<open>Lists\<close>

lemma take_drop_split: "n \<le> length xs \<Longrightarrow> xs = take n xs @ drop n xs"
  by simp

section \<open>Streaming digests\<close>

text \<open>
  The contract of an incremental checksum or hash: a state absorbs bytes piece by piece, and what
  it yields is the one-shot digest of everything absorbed.  \<open>absorbed\<close> is the simulation relation
  between a state and the bytes fed to it so far.
\<close>

locale streaming_digest =
  fixes init :: 's
    and feed :: "'s \<Rightarrow> 'a list \<Rightarrow> 's"
    and out :: "'s \<Rightarrow> 'd"
    and spec :: "'a list \<Rightarrow> 'd"
    and absorbed :: "'s \<Rightarrow> 'a list \<Rightarrow> bool"
  assumes absorbed_init: "absorbed init []"
    and absorbed_feed: "absorbed s m \<Longrightarrow> absorbed (feed s d) (m @ d)"
    and out_spec: "absorbed s m \<Longrightarrow> out s = spec m"
begin

lemma absorbed_foldl: "absorbed s m \<Longrightarrow> absorbed (foldl feed s ds) (m @ concat ds)"
proof (induction ds arbitrary: s m)
  case (Cons d ds)
  from absorbed_feed [OF Cons.prems] have "absorbed (foldl feed (feed s d) ds) ((m @ d) @ concat ds)"
    by (rule Cons.IH)
  then show ?case by simp
qed simp

lemma out_chunks: "out (foldl feed init ds) = spec (concat ds)"
  using out_spec [OF absorbed_foldl [OF absorbed_init]] by simp

lemma out_one_shot: "out (feed init m) = spec m"
  using out_chunks [of "[m]"] by simp

lemma out_split_independent: "concat ds = concat es \<Longrightarrow> out (foldl feed init ds) = out (foldl feed init es)"
  by (simp add: out_chunks)

end

section \<open>Decimal rendering\<close>

fun show_nat :: "nat \<Rightarrow> string" where
  "show_nat n = (if n < 10 then [char_of (48 + n)] else show_nat (n div 10) @ [char_of (48 + n mod 10)])"

declare show_nat.simps [simp del]

definition show_w :: "'a::len word \<Rightarrow> string" where
  "show_w v = show_nat (unat v)"

lemma show_nat_digits: "c \<in> set (show_nat n) \<Longrightarrow> \<exists>k < 10. c = char_of (48 + k :: nat)"
proof (induction n rule: show_nat.induct)
  case (1 n)
  show ?case
  proof (cases "n < 10")
    case True
    then have "show_nat n = [char_of (48 + n)]" by (subst show_nat.simps) simp
    with True 1(2) show ?thesis by auto
  next
    case False
    then have "show_nat n = show_nat (n div 10) @ [char_of (48 + n mod 10)]" by (subst show_nat.simps) simp
    with 1(2) have "c \<in> set (show_nat (n div 10)) \<or> c = char_of (48 + n mod 10)" by auto
    then show ?thesis
    proof
      assume "c = char_of (48 + n mod 10)"
      then show ?thesis by (intro exI [of _ "n mod 10"]) simp
    qed (rule 1(1) [OF False])
  qed
qed

end
