(* ===== verification/Errors.thy ===== *)
theory Errors
  imports Prelude
begin

text \<open>
  The typed errors of \<^verbatim>\<open>error.rs\<close>.  \<open>Panic\<close> is not a variant of the Rust enum: it stands for
  an unwinding panic (an index or a slice out of range, an \<open>unwrap\<close> of nothing), so that every
  definition of the development shows where the source can panic.
\<close>

datatype error =
    Io string
  | InvalidArgument string
  | Geometry string
  | Compatibility string
  | NotFound string
  | Exists string
  | AdmissionRejected string
  | Integrity string
  | Persistence string
  | Protocol string
  | Authority string
  | Residency string
  | Dedup string
  | BackendErr string
  | Reconstruct string
  | Concurrency string
  | Migration string
  | AccountingErr string
  | Internal string
  | Panic string

type_synonym 'a result = "error + 'a"

fun kind :: "error \<Rightarrow> string" where
  "kind (Io _) = ''io''"
| "kind (InvalidArgument _) = ''invalid-argument''"
| "kind (Geometry _) = ''geometry''"
| "kind (Compatibility _) = ''compatibility''"
| "kind (NotFound _) = ''not-found''"
| "kind (Exists _) = ''exists''"
| "kind (AdmissionRejected _) = ''admission-rejected''"
| "kind (Integrity _) = ''integrity''"
| "kind (Persistence _) = ''persistence''"
| "kind (Protocol _) = ''protocol''"
| "kind (Authority _) = ''authority''"
| "kind (Residency _) = ''residency''"
| "kind (Dedup _) = ''dedup''"
| "kind (BackendErr _) = ''backend''"
| "kind (Reconstruct _) = ''reconstruct''"
| "kind (Concurrency _) = ''concurrency''"
| "kind (Migration _) = ''migration''"
| "kind (AccountingErr _) = ''accounting''"
| "kind (Internal _) = ''internal''"
| "kind (Panic _) = ''panic''"

text \<open>The \<open>Display\<close> rendering: the message alone.\<close>

fun error_display :: "error \<Rightarrow> string" where
  "error_display (Io m) = m"
| "error_display (InvalidArgument m) = m"
| "error_display (Geometry m) = m"
| "error_display (Compatibility m) = m"
| "error_display (NotFound m) = m"
| "error_display (Exists m) = m"
| "error_display (AdmissionRejected m) = m"
| "error_display (Integrity m) = m"
| "error_display (Persistence m) = m"
| "error_display (Protocol m) = m"
| "error_display (Authority m) = m"
| "error_display (Residency m) = m"
| "error_display (Dedup m) = m"
| "error_display (BackendErr m) = m"
| "error_display (Reconstruct m) = m"
| "error_display (Concurrency m) = m"
| "error_display (Migration m) = m"
| "error_display (AccountingErr m) = m"
| "error_display (Internal m) = m"
| "error_display (Panic m) = m"

definition is_panic :: "'a result \<Rightarrow> bool" where
  "is_panic r = (case r of Inl (Panic _) \<Rightarrow> True | _ \<Rightarrow> False)"

lemma is_panic_simps [simp]:
  "\<not> is_panic (Inr x)" "is_panic (Inl e) \<longleftrightarrow> (\<exists>m. e = Panic m)"
  by (auto simp: is_panic_def split: error.splits)

text \<open>The machine-readable tag and the message together determine the error.\<close>

lemma kind_display_inject:
  "kind e = kind e' \<Longrightarrow> error_display e = error_display e' \<Longrightarrow> e = e'"
  by (cases e; cases e'; simp)

section \<open>Slices\<close>

text \<open>\<open>&xs[a..b]\<close>: a panic when the range is decreasing or runs past the end.\<close>

definition slice :: "'a list \<Rightarrow> nat \<Rightarrow> nat \<Rightarrow> 'a list result" where
  "slice xs a b = (if a \<le> b \<and> b \<le> length xs then Inr (take (b - a) (drop a xs))
                   else Inl (Panic ''slice index out of range''))"

text \<open>\<open>xs[a..b].copy_from_slice(ys)\<close>: also a panic when the lengths differ.\<close>

definition copy_from_slice :: "'a list \<Rightarrow> nat \<Rightarrow> nat \<Rightarrow> 'a list \<Rightarrow> 'a list result" where
  "copy_from_slice xs a b ys =
     (if a \<le> b \<and> b \<le> length xs \<and> length ys = b - a then Inr (take a xs @ ys @ drop b xs)
      else Inl (Panic ''source slice length does not match destination''))"

lemma slice_Inr_iff [res]:
  "slice xs a b = Inr ys \<longleftrightarrow> a \<le> b \<and> b \<le> length xs \<and> ys = take (b - a) (drop a xs)"
  by (auto simp: slice_def)

lemma slice_take: "slice (take m xs) a b = Inr ys \<Longrightarrow> slice xs a b = Inr ys"
  by (auto simp: slice_Inr_iff drop_take min_absorb1)

lemma copy_from_slice_Inr_iff [res]:
  "copy_from_slice xs a b ys = Inr zs \<longleftrightarrow>
     a \<le> b \<and> b \<le> length xs \<and> length ys = b - a \<and> zs = take a xs @ ys @ drop b xs"
  by (auto simp: copy_from_slice_def)

end
