(* ===== verification/Wire.thy ===== *)
theory Wire
  imports Errors
begin

text \<open>
  \<^verbatim>\<open>wire.rs\<close>: the binary codec.  A \<open>Writer\<close> only ever appends to its buffer, so a writer method is
  modelled by the bytes it appends and an encoder by their concatenation.  A \<open>Reader\<close> is its input
  and a position; a read is a function of the reader that errs or returns a value and the advanced
  reader.  \<open>usize\<close> has 64 bits, so the conversion of a length from \<open>u64\<close> never fails.
\<close>

section \<open>UTF-8 validation (\<open>std::str::from_utf8\<close>)\<close>

definition utf8_cont :: "u8 \<Rightarrow> bool" where
  "utf8_cont b \<longleftrightarrow> 0x80 \<le> b \<and> b \<le> 0xBF"

text \<open>The result is the position up to which the input is valid and the length of the bad
  sequence, which is missing when the input ends inside a sequence.\<close>

fun utf8_scan :: "nat \<Rightarrow> u8 list \<Rightarrow> (nat \<times> nat option) option" where
  "utf8_scan i [] = None"
| "utf8_scan i (b # bs) =
     (if b < 0x80 then utf8_scan (i + 1) bs
      else if 0xC2 \<le> b \<and> b \<le> 0xDF then
        (case bs of
           [] \<Rightarrow> Some (i, None)
         | c # cs \<Rightarrow> if utf8_cont c then utf8_scan (i + 2) cs else Some (i, Some 1))
      else if 0xE0 \<le> b \<and> b \<le> 0xEF then
        (case bs of
           [] \<Rightarrow> Some (i, None)
         | c # cs \<Rightarrow>
             if \<not> (if b = 0xE0 then 0xA0 \<le> c \<and> c \<le> 0xBF
                   else if b = 0xED then 0x80 \<le> c \<and> c \<le> 0x9F else utf8_cont c)
             then Some (i, Some 1)
             else (case cs of
                     [] \<Rightarrow> Some (i, None)
                   | d # ds \<Rightarrow> if utf8_cont d then utf8_scan (i + 3) ds else Some (i, Some 2)))
      else if 0xF0 \<le> b \<and> b \<le> 0xF4 then
        (case bs of
           [] \<Rightarrow> Some (i, None)
         | c # cs \<Rightarrow>
             if \<not> (if b = 0xF0 then 0x90 \<le> c \<and> c \<le> 0xBF
                   else if b = 0xF4 then 0x80 \<le> c \<and> c \<le> 0x8F else utf8_cont c)
             then Some (i, Some 1)
             else (case cs of
                     [] \<Rightarrow> Some (i, None)
                   | d # ds \<Rightarrow>
                       if \<not> utf8_cont d then Some (i, Some 2)
                       else (case ds of
                               [] \<Rightarrow> Some (i, None)
                             | e # es \<Rightarrow> if utf8_cont e then utf8_scan (i + 4) es else Some (i, Some 3))))
      else Some (i, Some 1))"

definition utf8_error_display :: "nat \<times> nat option \<Rightarrow> string" where
  "utf8_error_display e =
     (case e of
        (i, Some n) \<Rightarrow> ''invalid utf-8 sequence of '' @ show_nat n @ '' bytes from index '' @ show_nat i
      | (i, None) \<Rightarrow> ''incomplete utf-8 byte sequence from index '' @ show_nat i)"

definition from_utf8 :: "u8 list \<Rightarrow> (nat \<times> nat option) + string" where
  "from_utf8 bs = (case utf8_scan 0 bs of None \<Rightarrow> Inr (string_of_bytes bs) | Some e \<Rightarrow> Inl e)"

text \<open>What every Rust string satisfies.\<close>

definition rust_str :: "string \<Rightarrow> bool" where
  "rust_str s \<longleftrightarrow> utf8_scan 0 (as_bytes s) = None \<and> length s < 2 ^ 64"

section \<open>Writer\<close>

definition w_u8 :: "u8 \<Rightarrow> u8 list" where "w_u8 v = [v]"
definition w_u16 :: "u16 \<Rightarrow> u8 list" where "w_u16 v = le_bytes 2 v"
definition w_u32 :: "u32 \<Rightarrow> u8 list" where "w_u32 v = le_bytes 4 v"
definition w_u64 :: "u64 \<Rightarrow> u8 list" where "w_u64 v = le_bytes 8 v"
definition w_i64 :: "i64 \<Rightarrow> u8 list" where "w_i64 v = le_bytes 8 v"
definition w_bool :: "bool \<Rightarrow> u8 list" where "w_bool v = [if v then 1 else 0]"

definition w_bytes :: "u8 list \<Rightarrow> u8 list" where
  "w_bytes v = w_u64 (of_nat (length v)) @ v"

definition w_str :: "string \<Rightarrow> u8 list" where
  "w_str v = w_bytes (as_bytes v)"

definition w_tag :: "u8 \<Rightarrow> u8 list" where "w_tag v = [v]"

section \<open>Reader\<close>

record reader =
  rd_data :: "u8 list"
  rd_pos :: nat

type_synonym 'a parser = "reader \<Rightarrow> ('a \<times> reader) result"

definition rd_new :: "u8 list \<Rightarrow> reader" where
  "rd_new data = \<lparr>rd_data = data, rd_pos = 0\<rparr>"

definition rd_remaining :: "reader \<Rightarrow> nat" where
  "rd_remaining r = length (rd_data r) - rd_pos r"

definition rd_eof :: "reader \<Rightarrow> bool" where
  "rd_eof r \<longleftrightarrow> rd_pos r = length (rd_data r)"

definition p_ret :: "'a \<Rightarrow> 'a parser" where
  "p_ret x r = Inr (x, r)"

definition p_fail :: "error \<Rightarrow> 'a parser" where
  "p_fail e r = Inl e"

definition p_lift :: "'a result \<Rightarrow> 'a parser" where
  "p_lift m r = and_then m (\<lambda>x. Inr (x, r))"

definition p_then :: "'a parser \<Rightarrow> ('a \<Rightarrow> 'b parser) \<Rightarrow> 'b parser" where
  "p_then p f r = and_then (p r) (\<lambda>(x, r'). f x r')"

text \<open>A loop that pushes \<open>n\<close> parsed values.\<close>

primrec p_many :: "nat \<Rightarrow> 'a parser \<Rightarrow> 'a list parser" where
  "p_many 0 p = p_ret []"
| "p_many (Suc n) p = p_then p (\<lambda>x. p_then (p_many n p) (\<lambda>xs. p_ret (x # xs)))"

definition rd_take :: "nat \<Rightarrow> u8 list parser" where
  "rd_take n r =
     (if n > rd_remaining r
      then Inl (Protocol (''truncated frame: need '' @ show_nat n @ '' bytes, have '' @ show_nat (rd_remaining r)))
      else and_then (slice (rd_data r) (rd_pos r) (rd_pos r + n)) (\<lambda>out. Inr (out, r\<lparr>rd_pos := rd_pos r + n\<rparr>)))"

definition r_u8 :: "u8 parser" where
  "r_u8 = p_then (rd_take 1) (\<lambda>b. p_ret (hd b))"

definition r_u16 :: "u16 parser" where
  "r_u16 = p_then (rd_take 2) (\<lambda>b. p_ret (from_le b))"

definition r_u32 :: "u32 parser" where
  "r_u32 = p_then (rd_take 4) (\<lambda>b. p_ret (from_le b))"

definition r_u64 :: "u64 parser" where
  "r_u64 = p_then (rd_take 8) (\<lambda>b. p_ret (from_le b))"

definition r_i64 :: "i64 parser" where
  "r_i64 = r_u64"

definition r_bool :: "bool parser" where
  "r_bool = p_then r_u8 (\<lambda>v.
     if v = 0 then p_ret False else if v = 1 then p_ret True
     else p_fail (Protocol (''invalid bool byte '' @ show_w v)))"

definition r_bytes :: "u8 list parser" where
  "r_bytes = p_then r_u64 (\<lambda>len. rd_take (unat len))"

definition r_str :: "string parser" where
  "r_str = p_then r_bytes (\<lambda>b.
     p_lift (map_err (\<lambda>e. Protocol (''invalid UTF-8 in frame: '' @ utf8_error_display e)) (from_utf8 b)))"

definition r_tag :: "u8 parser" where
  "r_tag = r_u8"

section \<open>Readers at a position\<close>

text \<open>The reader that has consumed \<open>pre\<close> and has \<open>rest\<close> in front of it.  Every reader the code
  builds has this form.\<close>

definition Rd :: "u8 list \<Rightarrow> u8 list \<Rightarrow> reader" where
  "Rd pre rest = \<lparr>rd_data = pre @ rest, rd_pos = length pre\<rparr>"

named_theorems reads \<open>what the readers return on the bytes the writers produce\<close>
named_theorems read_inv \<open>what a successful read says about the input\<close>

lemma rd_new_Rd: "rd_new data = Rd [] data"
  by (simp add: rd_new_def Rd_def)

lemma rd_eof_Rd [simp]: "rd_eof (Rd pre rest) \<longleftrightarrow> rest = []"
  by (simp add: rd_eof_def Rd_def)

lemma rd_remaining_Rd [simp]: "rd_remaining (Rd pre rest) = length rest"
  by (simp add: rd_remaining_def Rd_def)

lemma Rd_inject [simp]: "length p = length q \<Longrightarrow> Rd p r = Rd q s \<longleftrightarrow> p = q \<and> r = s"
  by (auto simp: Rd_def)

lemma p_ret_simp [simp]: "p_ret x r = Inr (x, r)"
  by (simp add: p_ret_def)

lemma p_fail_simp [simp]: "p_fail e r = Inl e"
  by (simp add: p_fail_def)

lemma p_lift_simps [simp]: "p_lift (Inr x) r = Inr (x, r)" "p_lift (Inl e) r = Inl e"
  by (simp_all add: p_lift_def)

lemma p_lift_Inr_iff [res]: "p_lift m r = Inr (x, r') \<longleftrightarrow> m = Inr x \<and> r' = r"
  by (cases m) auto

lemma p_then_simps [simp]:
  "p r = Inr (x, r') \<Longrightarrow> p_then p f r = f x r'"
  "p r = Inl e \<Longrightarrow> p_then p f r = Inl e"
  by (simp_all add: p_then_def)

lemma p_then_Inr_iff [res]:
  "p_then p f r = Inr y \<longleftrightarrow> (\<exists>x r'. p r = Inr (x, r') \<and> f x r' = Inr y)"
  by (auto simp: p_then_def and_then_Inr_iff split: prod.splits)

lemma p_then_Inl_iff [res]:
  "p_then p f r = Inl e \<longleftrightarrow> p r = Inl e \<or> (\<exists>x r'. p r = Inr (x, r') \<and> f x r' = Inl e)"
  by (auto simp: p_then_def and_then_Inl_iff split: prod.splits)

lemma rd_take_Rd: "rd_take n (Rd pre (bs @ rest)) = Inr (bs, Rd (pre @ bs) rest)" if "length bs = n"
  using that by (simp add: rd_take_def Rd_def rd_remaining_def slice_def)

lemma rd_take_inv [read_inv]:
  "rd_take n (Rd pre rest) = Inr (bs, r) \<Longrightarrow>
     length bs = n \<and> rest = bs @ drop n rest \<and> r = Rd (pre @ bs) (drop n rest)"
  by (auto simp: rd_take_def Rd_def rd_remaining_def slice_def split: if_splits)

lemma rd_take_no_panic: "\<not> is_panic (rd_take n (Rd pre rest))"
  by (auto simp: rd_take_def Rd_def rd_remaining_def slice_def)

section \<open>Codecs\<close>

text \<open>
  The contract between a writer method and the matching reader method.  \<open>dec_enc\<close> is the round
  trip, in the presence of any bytes before and after; \<open>dec_sound\<close> says that the encoding is
  canonical: whatever is read is exactly what the writer would have produced.
\<close>

locale codec =
  fixes enc :: "'a \<Rightarrow> u8 list"
    and dec :: "'a parser"
    and ok :: "'a \<Rightarrow> bool"
  assumes dec_enc: "ok v \<Longrightarrow> dec (Rd pre (enc v @ rest)) = Inr (v, Rd (pre @ enc v) rest)"
    and dec_sound: "dec (Rd pre bs) = Inr (v, r) \<Longrightarrow>
          ok v \<and> (\<exists>rest. bs = enc v @ rest \<and> r = Rd (pre @ enc v) rest)"
begin

text \<open>No encoding is a proper prefix of another: concatenated fields can be told apart.\<close>

lemma prefix_inject:
  assumes "ok a" "ok b" "enc a @ xs = enc b @ ys"
  shows "a = b \<and> xs = ys"
proof -
  have "Inr (a, Rd (enc a) xs) = (Inr (b, Rd (enc b) ys) :: ('a \<times> reader) result)"
    using dec_enc [OF assms(1), of "[]" xs] dec_enc [OF assms(2), of "[]" ys] assms(3) by simp
  then have "a = b" by simp
  with assms(3) show ?thesis by simp
qed

lemma enc_inject: "ok a \<Longrightarrow> ok b \<Longrightarrow> enc a = enc b \<longleftrightarrow> a = b"
  using prefix_inject [of a b "[]" "[]"] by auto

lemma dec_enc_last: "ok v \<Longrightarrow> dec (Rd pre (enc v)) = Inr (v, Rd (pre @ enc v) [])"
  using dec_enc [of v pre "[]"] by simp

lemma prefix_iff: "ok a \<Longrightarrow> ok b \<Longrightarrow> enc a @ xs = enc b @ ys \<longleftrightarrow> a = b \<and> xs = ys"
  using prefix_inject by blast

text \<open>A read followed by more parsing, as an equation about the bytes.\<close>

lemma then_iff:
  "p_then dec f (Rd pre bs) = Inr y \<longleftrightarrow>
     (\<exists>v rest. ok v \<and> bs = enc v @ rest \<and> f v (Rd (pre @ enc v) rest) = Inr y)"
  by (auto simp: p_then_Inr_iff dec_enc dest!: dec_sound)

lemma then_enc: "ok v \<Longrightarrow> p_then dec f (Rd pre (enc v @ rest)) = f v (Rd (pre @ enc v) rest)"
  by (simp add: dec_enc)

lemma then_enc_last: "ok v \<Longrightarrow> p_then dec f (Rd pre (enc v)) = f v (Rd (pre @ enc v) [])"
  using then_enc [of v f pre "[]"] by simp

lemma many_enc:
  "\<forall>v \<in> set vs. ok v \<Longrightarrow>
     p_many (length vs) dec (Rd pre (concat (map enc vs) @ rest)) = Inr (vs, Rd (pre @ concat (map enc vs)) rest)"
  by (induction vs arbitrary: pre) (simp_all add: dec_enc)

lemma many_sound:
  "p_many n dec (Rd pre bs) = Inr (vs, r) \<Longrightarrow>
     length vs = n \<and> (\<forall>v \<in> set vs. ok v) \<and>
     (\<exists>rest. bs = concat (map enc vs) @ rest \<and> r = Rd (pre @ concat (map enc vs)) rest)"
proof (induction n arbitrary: pre bs vs r)
  case (Suc n)
  then obtain x us r1 where x: "dec (Rd pre bs) = Inr (x, r1)" and us: "p_many n dec r1 = Inr (us, r)"
    and vs: "vs = x # us"
    by (auto simp: res)
  from dec_sound [OF x] obtain b1 where b1: "ok x" "bs = enc x @ b1" "r1 = Rd (pre @ enc x) b1" by blast
  from Suc.IH [OF us [unfolded b1(3)]] b1 vs show ?case by auto
qed auto

lemma many_then_iff:
  "p_then (p_many n dec) f (Rd pre bs) = Inr y \<longleftrightarrow>
     (\<exists>vs rest. length vs = n \<and> (\<forall>v \<in> set vs. ok v) \<and> bs = concat (map enc vs) @ rest \<and>
        f vs (Rd (pre @ concat (map enc vs)) rest) = Inr y)"
  by (auto simp: p_then_Inr_iff many_enc dest!: many_sound)

end

lemma codec_u8: "codec w_u8 r_u8 (\<lambda>_. True)"
proof
  show "r_u8 (Rd pre (w_u8 v @ rest)) = Inr (v, Rd (pre @ w_u8 v) rest)" for v pre rest
    using rd_take_Rd [of "[v]" 1] by (simp add: r_u8_def w_u8_def)
  fix pre bs v r assume "r_u8 (Rd pre bs) = Inr (v, r)"
  then obtain b where "length b = 1" "v = hd b" "bs = b @ drop 1 bs" "r = Rd (pre @ b) (drop 1 bs)"
    by (auto simp: r_u8_def res dest!: read_inv)
  then show "True \<and> (\<exists>rest. bs = w_u8 v @ rest \<and> r = Rd (pre @ w_u8 v) rest)"
    by (cases b) (auto simp: w_u8_def)
qed

lemma codec_le:
  assumes "\<And>v. from_le (le_bytes n v) = (v :: 'a::len word)" "8 * n \<le> LENGTH('a)"
  shows "codec (le_bytes n) (p_then (rd_take n) (\<lambda>b. p_ret (from_le b :: 'a word))) (\<lambda>_. True)"
proof
  show "p_then (rd_take n) (\<lambda>b. p_ret (from_le b)) (Rd pre (le_bytes n v @ rest)) =
      Inr (v, Rd (pre @ le_bytes n v) rest)" for v :: "'a word" and pre rest
    using rd_take_Rd [of "le_bytes n v" n] by (simp add: assms)
  fix pre bs r and v :: "'a word"
  assume "p_then (rd_take n) (\<lambda>b. p_ret (from_le b)) (Rd pre bs) = Inr (v, r)"
  then obtain b where "length b = n" "v = from_le b" "bs = b @ drop n bs" "r = Rd (pre @ b) (drop n bs)"
    by (auto simp: res dest!: read_inv)
  then show "True \<and> (\<exists>rest. bs = le_bytes n v @ rest \<and> r = Rd (pre @ le_bytes n v) rest)"
    by (auto simp: le_bytes_from_le assms(2))
qed

interpretation u8: codec w_u8 r_u8 "\<lambda>_. True"
  by (rule codec_u8)

interpretation u16: codec w_u16 r_u16 "\<lambda>_. True"
  using codec_le [of 2, where 'a = 16] by (simp add: w_u16_def [abs_def] r_u16_def)

interpretation u32: codec w_u32 r_u32 "\<lambda>_. True"
  using codec_le [of 4, where 'a = 32] by (simp add: w_u32_def [abs_def] r_u32_def)

interpretation u64: codec w_u64 r_u64 "\<lambda>_. True"
  using codec_le [of 8, where 'a = 64] by (simp add: w_u64_def [abs_def] r_u64_def)

lemma codec_bool: "codec w_bool r_bool (\<lambda>_. True)"
proof
  show "r_bool (Rd pre (w_bool v @ rest)) = Inr (v, Rd (pre @ w_bool v) rest)" for v pre rest
    using u8.dec_enc [where v = "if v then 1 else 0" and pre = pre and rest = rest] by (simp add: r_bool_def w_bool_def w_u8_def)
  fix pre bs v r assume "r_bool (Rd pre bs) = Inr (v, r)"
  then obtain b where "r_u8 (Rd pre bs) = Inr (b, r)" "b = (if v then 1 else 0)"
    by (auto simp: r_bool_def res split: if_splits)
  then show "True \<and> (\<exists>rest. bs = w_bool v @ rest \<and> r = Rd (pre @ w_bool v) rest)"
    using u8.dec_sound by (fastforce simp: w_bool_def w_u8_def)
qed

interpretation bool: codec w_bool r_bool "\<lambda>_. True"
  by (rule codec_bool)

text \<open>A blob is canonical up to the size a 64-bit length can count.\<close>

definition fits :: "'a list \<Rightarrow> bool" where
  "fits xs \<longleftrightarrow> length xs < 2 ^ 64"

lemma unat_len [simp]: "fits xs \<Longrightarrow> unat (of_nat (length xs) :: u64) = length xs"
  by (simp add: fits_def word_nat)

lemma codec_bytes: "codec w_bytes r_bytes fits"
proof
  show "r_bytes (Rd pre (w_bytes v @ rest)) = Inr (v, Rd (pre @ w_bytes v) rest)" if "fits v" for v pre rest
    using that by (simp add: r_bytes_def w_bytes_def u64.dec_enc rd_take_Rd)
  fix pre bs v r assume "r_bytes (Rd pre bs) = Inr (v, r)"
  then obtain n r1 where n: "r_u64 (Rd pre bs) = Inr (n, r1)" and v: "rd_take (unat n) r1 = Inr (v, r)"
    by (auto simp: r_bytes_def res)
  from u64.dec_sound [OF n] obtain b1 where b1: "bs = w_u64 n @ b1" "r1 = Rd (pre @ w_u64 n) b1" by blast
  from rd_take_inv [OF v [unfolded b1(2)]]
  have v': "length v = unat n" "b1 = v @ drop (unat n) b1" "r = Rd ((pre @ w_u64 n) @ v) (drop (unat n) b1)" by auto
  have "fits v" using v'(1) unat_lt [of n] by (simp add: fits_def)
  moreover have "n = of_nat (length v)" using v'(1) by simp
  ultimately show "fits v \<and> (\<exists>rest. bs = w_bytes v @ rest \<and> r = Rd (pre @ w_bytes v) rest)"
    using b1(1) v' by (metis append_assoc w_bytes_def)
qed

interpretation bytes: codec w_bytes r_bytes fits
  by (rule codec_bytes)

lemma codec_str: "codec w_str r_str rust_str"
proof
  show "r_str (Rd pre (w_str v @ rest)) = Inr (v, Rd (pre @ w_str v) rest)" if "rust_str v" for v pre rest
    using that
    by (simp add: r_str_def w_str_def bytes.dec_enc fits_def rust_str_def from_utf8_def map_err_def)
  fix pre bs v r assume "r_str (Rd pre bs) = Inr (v, r)"
  then obtain b where b: "r_bytes (Rd pre bs) = Inr (b, r)" and u: "from_utf8 b = Inr v"
    by (auto simp: r_str_def res)
  from u have "v = string_of_bytes b" "utf8_scan 0 b = None"
    by (auto simp: from_utf8_def split: option.splits)
  with bytes.dec_sound [OF b] show "rust_str v \<and> (\<exists>rest. bs = w_str v @ rest \<and> r = Rd (pre @ w_str v) rest)"
    by (auto simp: rust_str_def w_str_def fits_def)
qed

interpretation str: codec w_str r_str rust_str
  by (rule codec_str)

lemmas [reads] =
  u8.then_enc u16.then_enc u32.then_enc u64.then_enc bool.then_enc bytes.then_enc str.then_enc
  u8.then_enc_last u16.then_enc_last u32.then_enc_last u64.then_enc_last bool.then_enc_last bytes.then_enc_last str.then_enc_last
  u8.dec_enc u16.dec_enc u32.dec_enc u64.dec_enc bool.dec_enc bytes.dec_enc str.dec_enc
  u8.dec_enc_last u16.dec_enc_last u32.dec_enc_last u64.dec_enc_last bool.dec_enc_last bytes.dec_enc_last str.dec_enc_last

text \<open>A list field: its length, then its elements.\<close>

definition w_list :: "('a \<Rightarrow> u8 list) \<Rightarrow> 'a list \<Rightarrow> u8 list" where
  "w_list enc vs = w_u64 (of_nat (length vs)) @ concat (map enc vs)"

definition r_list :: "'a parser \<Rightarrow> 'a list parser" where
  "r_list dec = p_then r_u64 (\<lambda>n. p_many (unat n) dec)"

lemma codec_list:
  assumes "codec enc dec ok"
  shows "codec (w_list enc) (r_list dec) (\<lambda>vs. fits vs \<and> (\<forall>v \<in> set vs. ok v))"
proof
  fix pre vs rest assume "fits vs \<and> (\<forall>v \<in> set vs. ok v)"
  then show "r_list dec (Rd pre (w_list enc vs @ rest)) = Inr (vs, Rd (pre @ w_list enc vs) rest)"
    by (simp add: r_list_def w_list_def u64.dec_enc codec.many_enc [OF assms])
next
  fix pre bs vs r assume "r_list dec (Rd pre bs) = Inr (vs, r)"
  then obtain n b1 where n: "bs = w_u64 n @ b1" "p_many (unat n) dec (Rd (pre @ w_u64 n) b1) = Inr (vs, r)"
    by (auto simp: r_list_def u64.then_iff)
  from codec.many_sound [OF assms n(2)] have m: "length vs = unat n" "\<forall>v \<in> set vs. ok v"
    "\<exists>rest. b1 = concat (map enc vs) @ rest \<and> r = Rd ((pre @ w_u64 n) @ concat (map enc vs)) rest" by auto
  have "fits vs" "n = of_nat (length vs)"
    using m(1) unat_lt [of n] by (simp_all add: fits_def)
  with m n(1) show "(fits vs \<and> (\<forall>v \<in> set vs. ok v)) \<and>
      (\<exists>rest. bs = w_list enc vs @ rest \<and> r = Rd (pre @ w_list enc vs) rest)"
    by (auto simp: w_list_def)
qed

interpretation u64s: codec "w_list w_u64" "r_list r_u64" "\<lambda>vs. fits vs \<and> (\<forall>v \<in> set vs. True)"
  by (rule codec_list [OF u64.codec_axioms])

text \<open>A one-byte tag converted on reading.\<close>

lemma codec_tag:
  assumes "\<And>c t. from_code c = Inr t \<longleftrightarrow> c = code t"
  shows "codec (\<lambda>t. w_u8 (code t)) (p_then r_u8 (\<lambda>c. p_lift (from_code c))) (\<lambda>_. True)"
proof
  show "p_then r_u8 (\<lambda>c. p_lift (from_code c)) (Rd pre (w_u8 (code t) @ rest)) =
      Inr (t, Rd (pre @ w_u8 (code t)) rest)" for t pre rest
    using assms [of "code t" t] by (simp add: u8.dec_enc)
  show "True \<and> (\<exists>rest. bs = w_u8 (code t) @ rest \<and> r = Rd (pre @ w_u8 (code t)) rest)"
    if "p_then r_u8 (\<lambda>c. p_lift (from_code c)) (Rd pre bs) = Inr (t, r)" for pre bs t r
    using that by (auto simp: u8.then_iff p_lift_Inr_iff assms)
qed

text \<open>\<open>parses\<close> turns a run of a decoder into equations on its input, \<open>prefixes\<close> splits an equation
  between two encodings field by field.\<close>

named_theorems parses \<open>runs of readers as equations on the input\<close>
named_theorems prefixes \<open>equations between encodings, field by field\<close>

lemmas [parses] =
  u8.then_iff u16.then_iff u32.then_iff u64.then_iff bool.then_iff bytes.then_iff str.then_iff
  u64.many_then_iff

lemmas [prefixes] =
  u8.prefix_iff u16.prefix_iff u32.prefix_iff u64.prefix_iff bool.prefix_iff bytes.prefix_iff
  str.prefix_iff u64s.prefix_iff

section \<open>ASCII strings\<close>

lemma utf8_scan_ascii: "\<forall>b \<in> set bs. b < 0x80 \<Longrightarrow> utf8_scan i bs = None"
  by (induction bs arbitrary: i) auto

definition ascii :: "string \<Rightarrow> bool" where
  "ascii s \<longleftrightarrow> list_all (\<lambda>c. (of_char c :: nat) < 128) s"

lemma rust_str_ascii: "ascii s \<Longrightarrow> length s < 2 ^ 64 \<Longrightarrow> rust_str s"
proof -
  assume a: "ascii s" and l: "length s < 2 ^ 64"
  have "\<forall>b \<in> set (as_bytes s). b < 0x80"
    using a by (auto simp: ascii_def as_bytes_def list_all_iff word_less_nat_alt word_nat)
  with l show ?thesis by (simp add: rust_str_def utf8_scan_ascii)
qed

end
