(* ===== verification/Dtype.thy ===== *)
theory Dtype
  imports Errors
begin

text \<open>\<^verbatim>\<open>dtype.rs\<close>: element types and the small enumerations of the compatibility key, each with its
  one-byte wire tag.\<close>

datatype dtype = F64 | F32 | F16 | BF16 | F8 | I64 | I32 | I16 | I8 | U64 | U32 | U16 | U8 | Bool

fun dtype_code :: "dtype \<Rightarrow> u8" where
  "dtype_code F64 = 1"
| "dtype_code F32 = 2"
| "dtype_code F16 = 3"
| "dtype_code BF16 = 4"
| "dtype_code F8 = 5"
| "dtype_code I64 = 6"
| "dtype_code I32 = 7"
| "dtype_code I16 = 8"
| "dtype_code I8 = 9"
| "dtype_code U64 = 10"
| "dtype_code U32 = 11"
| "dtype_code U16 = 12"
| "dtype_code U8 = 13"
| "dtype_code Bool = 14"

definition dtype_from_code :: "u8 \<Rightarrow> dtype result" where
  "dtype_from_code c =
     (if c = 1 then Inr F64
      else if c = 2 then Inr F32
      else if c = 3 then Inr F16
      else if c = 4 then Inr BF16
      else if c = 5 then Inr F8
      else if c = 6 then Inr I64
      else if c = 7 then Inr I32
      else if c = 8 then Inr I16
      else if c = 9 then Inr I8
      else if c = 10 then Inr U64
      else if c = 11 then Inr U32
      else if c = 12 then Inr U16
      else if c = 13 then Inr U8
      else if c = 14 then Inr Bool
      else Inl (InvalidArgument (''unknown dtype code '' @ show_w c)))"

fun byte_size :: "dtype \<Rightarrow> u64" where
  "byte_size F64 = 8" | "byte_size I64 = 8" | "byte_size U64 = 8"
| "byte_size F32 = 4" | "byte_size I32 = 4" | "byte_size U32 = 4"
| "byte_size F16 = 2" | "byte_size BF16 = 2" | "byte_size I16 = 2" | "byte_size U16 = 2"
| "byte_size F8 = 1" | "byte_size I8 = 1" | "byte_size U8 = 1" | "byte_size Bool = 1"

definition is_float :: "dtype \<Rightarrow> bool" where
  "is_float d = (case d of F64 \<Rightarrow> True | F32 \<Rightarrow> True | F16 \<Rightarrow> True | BF16 \<Rightarrow> True | F8 \<Rightarrow> True | _ \<Rightarrow> False)"

fun dtype_name :: "dtype \<Rightarrow> string" where
  "dtype_name F64 = ''f64''"
| "dtype_name F32 = ''f32''"
| "dtype_name F16 = ''f16''"
| "dtype_name BF16 = ''bf16''"
| "dtype_name F8 = ''f8''"
| "dtype_name I64 = ''i64''"
| "dtype_name I32 = ''i32''"
| "dtype_name I16 = ''i16''"
| "dtype_name I8 = ''i8''"
| "dtype_name U64 = ''u64''"
| "dtype_name U32 = ''u32''"
| "dtype_name U16 = ''u16''"
| "dtype_name U8 = ''u8''"
| "dtype_name Bool = ''bool''"

datatype endianness = Little | Big

fun endianness_code :: "endianness \<Rightarrow> u8" where
  "endianness_code Little = 0"
| "endianness_code Big = 1"

definition endianness_from_code :: "u8 \<Rightarrow> endianness result" where
  "endianness_from_code c =
     (if c = 0 then Inr Little else if c = 1 then Inr Big
      else Inl (InvalidArgument (''unknown endianness '' @ show_w c)))"

datatype mutability = Immutable | Mutable

fun mutability_code :: "mutability \<Rightarrow> u8" where
  "mutability_code Immutable = 0"
| "mutability_code Mutable = 1"

definition mutability_from_code :: "u8 \<Rightarrow> mutability result" where
  "mutability_from_code c =
     (if c = 0 then Inr Immutable else if c = 1 then Inr Mutable
      else Inl (InvalidArgument (''unknown mutability '' @ show_w c)))"

datatype quant_kind = QNone | Int4 | Int8 | Nf4

fun quant_code :: "quant_kind \<Rightarrow> u8" where
  "quant_code QNone = 0"
| "quant_code Int4 = 1"
| "quant_code Int8 = 2"
| "quant_code Nf4 = 3"

definition quant_from_code :: "u8 \<Rightarrow> quant_kind result" where
  "quant_from_code c =
     (if c = 0 then Inr QNone else if c = 1 then Inr Int4 else if c = 2 then Inr Int8
      else if c = 3 then Inr Nf4
      else Inl (InvalidArgument (''unknown quant kind '' @ show_w c)))"

section \<open>Tags\<close>

text \<open>The contract of a one-byte tag: parsing is exactly the inverse of rendering.\<close>

locale tag_code =
  fixes code :: "'t \<Rightarrow> u8"
    and from_code :: "u8 \<Rightarrow> 't result"
  assumes from_code_iff: "from_code c = Inr t \<longleftrightarrow> c = code t"
begin

lemma from_code_code [simp]: "from_code (code t) = Inr t"
  by (simp add: from_code_iff)

lemma code_inject: "code s = code t \<longleftrightarrow> s = t"
  by (metis from_code_code sum.inject(2))

lemma from_code_err: "c \<notin> range code \<Longrightarrow> \<exists>e. from_code c = Inl e"
  by (metis from_code_iff rangeI sum.exhaust)

end

interpretation dtype: tag_code dtype_code dtype_from_code
proof
  show "dtype_from_code c = Inr t \<longleftrightarrow> c = dtype_code t" for c t
    by (cases t) (auto simp: dtype_from_code_def)
qed

interpretation endianness: tag_code endianness_code endianness_from_code
proof
  show "endianness_from_code c = Inr t \<longleftrightarrow> c = endianness_code t" for c t
    by (cases t) (auto simp: endianness_from_code_def)
qed

interpretation mutability: tag_code mutability_code mutability_from_code
proof
  show "mutability_from_code c = Inr t \<longleftrightarrow> c = mutability_code t" for c t
    by (cases t) (auto simp: mutability_from_code_def)
qed

interpretation quant: tag_code quant_code quant_from_code
proof
  show "quant_from_code c = Inr t \<longleftrightarrow> c = quant_code t" for c t
    by (cases t) (auto simp: quant_from_code_def)
qed

lemma byte_size_range: "byte_size d = 1 \<or> byte_size d = 2 \<or> byte_size d = 4 \<or> byte_size d = 8"
  by (cases d) auto

lemma unat_byte_size_pos: "0 < unat (byte_size d) \<and> unat (byte_size d) \<le> 8"
  using byte_size_range [of d] by auto

end
