(* ===== verification/Geometry.thy ===== *)
theory Geometry
  imports Errors
begin

text \<open>
  \<^verbatim>\<open>geometry.rs\<close>: shapes and layouts.  Every product is checked, so the theorems say that a
  computed count or stride is the mathematical one, never its residue modulo two to the 64.
\<close>

definition MAX_RANK :: nat where "MAX_RANK = 32"
definition MAX_DIM :: u64 where "MAX_DIM = 0xFFFFFFFF"

datatype shape = Shape (dims: "u64 list")

definition Shape_new :: "u64 list \<Rightarrow> shape result" where
  "Shape_new ds =
     (if length ds > MAX_RANK
      then Inl (Geometry (''rank '' @ show_nat (length ds) @ '' exceeds maximum '' @ show_nat MAX_RANK))
      else if list_ex (\<lambda>d. d > MAX_DIM) ds
      then Inl (Geometry (''dimension exceeds maximum '' @ show_w MAX_DIM))
      else Inr (Shape ds))"

definition rank :: "shape \<Rightarrow> nat" where
  "rank s = length (dims s)"

definition numel :: "shape \<Rightarrow> u64 result" where
  "numel s = fold_r (\<lambda>d n. ok_or (checked_mul n d) (Geometry ''shape element count overflow'')) (dims s) 1"

definition shape_byte_len :: "shape \<Rightarrow> u64 \<Rightarrow> u64 result" where
  "shape_byte_len s elem =
     (if elem = 0 \<or> elem > max_w div 8 then Inl (Geometry ''invalid element size'')
      else and_then (numel s) (\<lambda>n. ok_or (checked_mul n elem) (Geometry ''tensor byte length overflow'')))"

definition is_scalar :: "shape \<Rightarrow> bool" where
  "is_scalar s \<longleftrightarrow> dims s = []"

datatype layout = RowMajor | ColMajor | Strided "u64 list"

fun layout_code :: "layout \<Rightarrow> u8" where
  "layout_code RowMajor = 0"
| "layout_code ColMajor = 1"
| "layout_code (Strided _) = 2"

definition max_off_step :: "u64 \<times> u64 \<Rightarrow> u64 \<Rightarrow> u64 result" where
  "max_off_step ds max_off =
     (case ds of (d, s) \<Rightarrow>
        let span = (if d = 0 then 0 else d - 1) in
        and_then (ok_or (checked_mul span s) (Geometry ''stride product overflow'')) (\<lambda>p.
          ok_or (checked_add max_off p) (Geometry ''stride offset overflow'')))"

fun layout_validate :: "layout \<Rightarrow> shape \<Rightarrow> unit result" where
  "layout_validate RowMajor shape = Inr ()"
| "layout_validate ColMajor shape = Inr ()"
| "layout_validate (Strided strides) shape =
     (if length strides \<noteq> rank shape
      then Inl (Geometry (''strides length '' @ show_nat (length strides) @ '' does not match rank '' @ show_nat (rank shape)))
      else if list_ex (\<lambda>s. s = 0) strides then Inl (Geometry ''zero stride is not cacheable'')
      else and_then (fold_r max_off_step (zip (dims shape) strides) 0) (\<lambda>_. Inr ()))"

text \<open>The stride loops: the accumulator is the stride of the dimension being visited.\<close>

fun strides_from :: "string \<Rightarrow> u64 \<Rightarrow> u64 list \<Rightarrow> u64 list result" where
  "strides_from msg acc [] = Inr []"
| "strides_from msg acc (d # ds) =
     and_then (ok_or (checked_mul acc d) (Geometry msg)) (\<lambda>acc'.
       and_then (strides_from msg acc' ds) (\<lambda>ss. Inr (acc # ss)))"

definition row_major_strides :: "shape \<Rightarrow> u64 list result" where
  "row_major_strides shape =
     and_then (strides_from ''row-major stride overflow'' 1 (rev (dims shape))) (\<lambda>ss. Inr (rev ss))"

definition col_major_strides :: "shape \<Rightarrow> u64 list result" where
  "col_major_strides shape = strides_from ''column-major stride overflow'' 1 (dims shape)"

fun contiguous_strides :: "layout \<Rightarrow> shape \<Rightarrow> u64 list result" where
  "contiguous_strides RowMajor shape = row_major_strides shape"
| "contiguous_strides ColMajor shape = col_major_strides shape"
| "contiguous_strides (Strided s) shape = and_then (layout_validate (Strided s) shape) (\<lambda>_. Inr s)"

definition storage_span :: "shape \<Rightarrow> u64 \<Rightarrow> u64 result" where
  "storage_span shape elem = shape_byte_len shape elem"

text \<open>What \<open>Shape::new\<close> guarantees, and so what every shape of the program satisfies.\<close>

definition wf_shape :: "shape \<Rightarrow> bool" where
  "wf_shape s \<longleftrightarrow> length (dims s) \<le> MAX_RANK \<and> list_all (\<lambda>d. d \<le> MAX_DIM) (dims s)"

section \<open>Shapes\<close>

lemma Shape_new_Inr_iff [res]: "Shape_new ds = Inr s \<longleftrightarrow> s = Shape ds \<and> wf_shape s"
  by (auto simp: Shape_new_def wf_shape_def list_ex_iff list_all_iff not_less not_le)

lemma Shape_new_wf [simp]: "wf_shape s \<Longrightarrow> Shape_new (dims s) = Inr s"
  by (simp add: Shape_new_Inr_iff)

abbreviation nat_prod :: "u64 list \<Rightarrow> nat" where
  "nat_prod ds \<equiv> prod_list (map unat ds)"

lemma all_le_Suc: "(\<forall>k \<le> Suc n. P k) \<longleftrightarrow> P 0 \<and> (\<forall>k \<le> n. P (Suc k))"
  by (metis Suc_le_mono le0 not0_implies_Suc)

text \<open>The early exit of the product loop: it fails as soon as a prefix product does not fit.\<close>

lemma fold_mul_Inr_iff:
  "fold_r (\<lambda>d n. ok_or (checked_mul n d) e) ds n = Inr m \<longleftrightarrow>
     (\<forall>k \<le> length ds. unat n * nat_prod (take k ds) < 2 ^ 64) \<and> unat m = unat n * nat_prod ds"
proof (induction ds arbitrary: n)
  case Nil
  then show ?case
    using unat_lt [of n] by (auto simp: word_unat_eq_iff)
next
  case (Cons d ds)
  show ?case
  proof (cases "unat n * unat d < 2 ^ 64")
    case True
    then have "unat (n * d) = unat n * unat d" by (simp add: word_nat)
    with True Cons.IH [of "n * d"] show ?thesis
      using unat_lt [of n] by (simp add: checked_mul_def all_le_Suc mult.assoc)
  next
    case False
    then have "\<not> (\<forall>k \<le> length (d # ds). unat n * nat_prod (take k (d # ds)) < 2 ^ 64)"
      by (auto intro!: exI [of _ 1])
    with False show ?thesis by (simp add: checked_mul_def)
  qed
qed

definition numel_fits :: "shape \<Rightarrow> bool" where
  "numel_fits s \<longleftrightarrow> (\<forall>k \<le> rank s. nat_prod (take k (dims s)) < 2 ^ 64)"

lemma numel_Inr_iff [res]: "numel s = Inr n \<longleftrightarrow> numel_fits s \<and> unat n = nat_prod (dims s)"
  by (simp add: numel_def fold_mul_Inr_iff numel_fits_def rank_def)

lemma numel_err: "\<not> numel_fits s \<Longrightarrow> numel s = Inl (Geometry ''shape element count overflow'')"
proof -
  assume "\<not> numel_fits s"
  then obtain e where "numel s = Inl e"
    by (cases "numel s") (auto simp: res)
  moreover have "fold_r (\<lambda>d n. ok_or (checked_mul n d) e) ds (n :: u64) = Inl e' \<Longrightarrow> e' = e" for e e' :: error and ds n
    by (induction ds arbitrary: n) (auto simp: res)
  ultimately show ?thesis by (auto simp: numel_def)
qed

lemma shape_byte_len_Inr_iff [res]:
  "shape_byte_len s elem = Inr b \<longleftrightarrow>
     elem \<noteq> 0 \<and> elem \<le> max_w div 8 \<and> numel_fits s \<and> unat b = nat_prod (dims s) * unat elem"
proof -
  have "ok_or (checked_mul n elem) e = Inr b \<longleftrightarrow> unat b = unat n * unat elem" for n :: u64 and e :: error
    using unat_lt [of b] by (auto simp: res word_nat word_unat_eq_iff)
  note mul = this
  show ?thesis
  proof (cases "numel s")
    case (Inl e)
    then have "\<not> numel_fits s"
      using unat_of_nat_fits [where 'a = 64, of "nat_prod (dims s)"] numel_Inr_iff [of s "of_nat (nat_prod (dims s))"]
      by (auto simp: numel_fits_def rank_def)
    with Inl show ?thesis by (simp add: shape_byte_len_def)
  next
    case (Inr n)
    then have "numel_fits s" "unat n = nat_prod (dims s)" by (simp_all add: numel_Inr_iff)
    with Inr show ?thesis by (auto simp: shape_byte_len_def mul not_less)
  qed
qed

section \<open>Strides\<close>

lemma strides_from_Inr:
  "strides_from msg acc ds = Inr ss \<Longrightarrow>
     length ss = length ds \<and> (\<forall>i < length ds. unat (ss ! i) = unat acc * nat_prod (take i ds)) \<and>
     (\<forall>k \<le> length ds. unat acc * nat_prod (take k ds) < 2 ^ 64)"
proof (induction ds arbitrary: acc ss)
  case Nil
  then show ?case using unat_lt [of acc] by simp
next
  case (Cons d ds)
  then obtain ss' where fit: "unat acc * unat d < 2 ^ 64" and ss: "ss = acc # ss'"
    and rec: "strides_from msg (acc * d) ds = Inr ss'"
    by (auto simp: res)
  have "unat (acc * d) = unat acc * unat d" using fit by (simp add: word_nat)
  with Cons.IH [OF rec] ss show ?case
    using unat_lt [of acc] by (auto simp: all_le_Suc mult.assoc nth_Cons' less_Suc_eq_0_disj)
qed

lemma strides_from_fits:
  "(\<forall>k \<le> length ds. unat acc * nat_prod (take k ds) < 2 ^ 64) \<Longrightarrow> \<exists>ss. strides_from msg acc ds = Inr ss"
proof (induction ds arbitrary: acc)
  case (Cons d ds)
  then have fit: "unat acc * unat d < 2 ^ 64" by (auto dest: spec [of _ 1])
  then have "unat (acc * d) = unat acc * unat d" by (simp add: word_nat)
  with Cons.prems have "\<exists>ss. strides_from msg (acc * d) ds = Inr ss"
    by (intro Cons.IH) (simp add: all_le_Suc mult.assoc)
  with fit show ?case by (auto simp: checked_mul_def)
qed simp

lemma row_major_strides_nth:
  assumes "row_major_strides s = Inr ss" "i < rank s"
  shows "length ss = rank s \<and> unat (ss ! i) = nat_prod (drop (Suc i) (dims s))"
proof -
  from assms(1) obtain rs where rs: "strides_from ''row-major stride overflow'' 1 (rev (dims s)) = Inr rs" "ss = rev rs"
    by (auto simp: row_major_strides_def res)
  note * = strides_from_Inr [OF rs(1)]
  have l: "length rs = rank s" using * by (simp add: rank_def)
  have "unat (rs ! (rank s - Suc i)) = nat_prod (take (rank s - Suc i) (rev (dims s)))"
    using * assms(2) by (simp add: rank_def)
  also have "\<dots> = nat_prod (rev (drop (Suc i) (dims s)))"
    by (simp add: take_rev rank_def)
       (metis Suc_leI assms(2) diff_diff_cancel rank_def)
  also have "\<dots> = nat_prod (drop (Suc i) (dims s))"
    by (simp add: rev_map [symmetric] prod_list.rev)
  finally show ?thesis using l rs(2) assms(2) by (simp add: rev_nth)
qed

lemma col_major_strides_nth:
  assumes "col_major_strides s = Inr ss" "i < rank s"
  shows "length ss = rank s \<and> unat (ss ! i) = nat_prod (take i (dims s))"
  using strides_from_Inr [OF assms(1) [unfolded col_major_strides_def]] assms(2) by (simp add: rank_def)

section \<open>Explicit strides\<close>

text \<open>The largest element offset a strided layout reaches.\<close>

definition max_offset :: "u64 list \<Rightarrow> u64 list \<Rightarrow> nat" where
  "max_offset ds ss = (\<Sum>(d, s) \<leftarrow> zip ds ss. (unat d - 1) * unat s)"

lemma mul_add_Inr_iff:
  "and_then (ok_or (checked_mul p q) e) (\<lambda>m. ok_or (checked_add (a :: u64) m) e') = Inr b \<longleftrightarrow>
     unat b = unat a + unat p * unat q" for e e' :: error
proof
  assume "and_then (ok_or (checked_mul p q) e) (\<lambda>m. ok_or (checked_add a m) e') = Inr b"
  then show "unat b = unat a + unat p * unat q"
    by (auto simp: res word_nat)
next
  assume b: "unat b = unat a + unat p * unat q"
  then have fit: "unat a + unat p * unat q < 2 ^ 64"
    using unat_lt [of b] by simp
  then have "unat p * unat q < 2 ^ 64" by linarith
  moreover from this have "unat (p * q) = unat p * unat q" by (simp add: word_nat)
  ultimately show "and_then (ok_or (checked_mul p q) e) (\<lambda>m. ok_or (checked_add a m) e') = Inr b"
    using fit b by (simp add: checked_mul_def checked_add_def word_unat_eq_iff [of _ b] word_nat)
qed

lemma max_off_step_Inr_iff:
  "max_off_step (d, s) a = Inr b \<longleftrightarrow> unat b = unat a + (unat d - 1) * unat s"
proof -
  have "unat (if d = 0 then 0 else d - 1) = unat d - 1"
    by (simp add: unat_minus_one)
  then show ?thesis
    by (simp only: max_off_step_def prod.case Let_def mul_add_Inr_iff)
qed

lemma fold_max_off_Inr_iff:
  "fold_r max_off_step zs a = Inr b \<longleftrightarrow> unat b = unat a + (\<Sum>(d, s) \<leftarrow> zs. (unat d - 1) * unat s)"
proof (induction zs arbitrary: a)
  case (Cons z zs)
  obtain d s where z: "z = (d, s)" by fastforce
  let ?m = "unat a + (unat d - 1) * unat s"
  have "fold_r max_off_step (z # zs) a = Inr b \<longleftrightarrow> (\<exists>c. unat c = ?m \<and> fold_r max_off_step zs c = Inr b)"
    by (simp add: z and_then_Inr_iff max_off_step_Inr_iff)
  also have "\<dots> \<longleftrightarrow> (\<exists>c :: u64. unat c = ?m) \<and> unat b = ?m + (\<Sum>(d, s) \<leftarrow> zs. (unat d - 1) * unat s)"
    using Cons.IH by auto
  also have "\<dots> \<longleftrightarrow> unat b = ?m + (\<Sum>(d, s) \<leftarrow> zs. (unat d - 1) * unat s)"
  proof -
    have "\<exists>c :: u64. unat c = ?m" if "unat b = ?m + (\<Sum>(d, s) \<leftarrow> zs. (unat d - 1) * unat s)"
      using that unat_lt [of b] by (intro exI [of _ "of_nat ?m"] unat_of_nat_fits) simp
    then show ?thesis by blast
  qed
  finally show ?case by (simp add: z add.assoc)
qed (auto simp: word_unat_eq_iff)

lemma layout_validate_strided_iff:
  "layout_validate (Strided ss) s = Inr () \<longleftrightarrow>
     length ss = rank s \<and> 0 \<notin> set ss \<and> max_offset (dims s) ss < 2 ^ 64"
proof -
  have "(\<exists>b. fold_r max_off_step (zip (dims s) ss) 0 = Inr b) \<longleftrightarrow> (\<exists>b :: u64. unat b = max_offset (dims s) ss)"
    by (simp add: fold_max_off_Inr_iff max_offset_def)
  also have "\<dots> \<longleftrightarrow> max_offset (dims s) ss < 2 ^ 64"
    using unat_lt [where 'a = 64] unat_of_nat_fits [where 'a = 64, of "max_offset (dims s) ss"] by auto metis
  finally show ?thesis
    by (auto simp: and_then_Inr_iff list_ex_iff)
qed

end
