(* ===== verification/Sha256.thy ===== *)
theory Sha256
  imports Errors
begin

text \<open>
  \<^verbatim>\<open>hash.rs\<close>: hexadecimal, and SHA-256 with its streaming hasher.  The hasher keeps a fixed
  64-byte buffer of which only a prefix is live; the reference definition pads the whole message
  and compresses it block by block.
\<close>

section \<open>Digests and hexadecimal\<close>

datatype digest = Digest (digest_bytes: "u8 list")

definition HASH_LEN :: nat where "HASH_LEN = 32"
definition BLOCK_LEN :: nat where "BLOCK_LEN = 64"

definition HEX :: string where
  "HEX = ''0123456789abcdef''"

primrec hex :: "u8 list \<Rightarrow> string" where
  "hex [] = []"
| "hex (b # bs) = HEX ! unat (drop_bit 4 b) # HEX ! unat (b AND 0x0f) # hex bs"

definition to_hex :: "digest \<Rightarrow> string" where
  "to_hex d = hex (digest_bytes d)"

text \<open>\<open>c as char\<close> in a message: a byte from 128 on is a two-byte UTF-8 character.\<close>

definition char_utf8 :: "u8 \<Rightarrow> string" where
  "char_utf8 c = string_of_bytes (if c < 0x80 then [c] else [0xC0 OR drop_bit 6 c, 0x80 OR (c AND 0x3F)])"

definition hex_val :: "u8 \<Rightarrow> u8 result" where
  "hex_val c =
     (if 48 \<le> c \<and> c \<le> 57 then Inr (c - 48)
      else if 97 \<le> c \<and> c \<le> 102 then Inr (c - 97 + 10)
      else if 65 \<le> c \<and> c \<le> 70 then Inr (c - 65 + 10)
      else Inl (InvalidArgument (''invalid hex digit '' @ char_utf8 c)))"

fun parse_hex_pairs :: "u8 list \<Rightarrow> u8 list result" where
  "parse_hex_pairs (x # y # cs) =
     and_then (hex_val x) (\<lambda>hi. and_then (hex_val y) (\<lambda>lo.
       and_then (parse_hex_pairs cs) (\<lambda>out. Inr ((push_bit 4 hi OR lo) # out))))"
| "parse_hex_pairs _ = Inr []"

definition parse_hex :: "string \<Rightarrow> u8 list result" where
  "parse_hex s =
     (let bytes = as_bytes s in
      if length bytes mod 2 \<noteq> 0 then Inl (InvalidArgument ''hex string has odd length'')
      else parse_hex_pairs bytes)"

section \<open>The compression function\<close>

definition K :: "u32 list" where
  "K = concat [
    [0x428a2f98, 0x71374491, 0xb5c0fbcf, 0xe9b5dba5, 0x3956c25b, 0x59f111f1, 0x923f82a4, 0xab1c5ed5],
    [0xd807aa98, 0x12835b01, 0x243185be, 0x550c7dc3, 0x72be5d74, 0x80deb1fe, 0x9bdc06a7, 0xc19bf174],
    [0xe49b69c1, 0xefbe4786, 0x0fc19dc6, 0x240ca1cc, 0x2de92c6f, 0x4a7484aa, 0x5cb0a9dc, 0x76f988da],
    [0x983e5152, 0xa831c66d, 0xb00327c8, 0xbf597fc7, 0xc6e00bf3, 0xd5a79147, 0x06ca6351, 0x14292967],
    [0x27b70a85, 0x2e1b2138, 0x4d2c6dfc, 0x53380d13, 0x650a7354, 0x766a0abb, 0x81c2c92e, 0x92722c85],
    [0xa2bfe8a1, 0xa81a664b, 0xc24b8b70, 0xc76c51a3, 0xd192e819, 0xd6990624, 0xf40e3585, 0x106aa070],
    [0x19a4c116, 0x1e376c08, 0x2748774c, 0x34b0bcb5, 0x391c0cb3, 0x4ed8aa4a, 0x5b9cca4f, 0x682e6ff3],
    [0x748f82ee, 0x78a5636f, 0x84c87814, 0x8cc70208, 0x90befffa, 0xa4506ceb, 0xbef9a3f7, 0xc67178f2]]"

text \<open>The message schedule: sixteen big-endian words of the block, then forty-eight derived ones.\<close>

definition sched_init :: "u8 list \<Rightarrow> u32 list" where
  "sched_init block = map (\<lambda>i. from_be [block ! (i * 4), block ! (i * 4 + 1), block ! (i * 4 + 2), block ! (i * 4 + 3)]) [0..<16]"

definition sched_step :: "u32 list \<Rightarrow> nat \<Rightarrow> u32 list" where
  "sched_step w i =
     (let s0 = word_rotr 7 (w ! (i - 15)) XOR word_rotr 18 (w ! (i - 15)) XOR drop_bit 3 (w ! (i - 15));
          s1 = word_rotr 17 (w ! (i - 2)) XOR word_rotr 19 (w ! (i - 2)) XOR drop_bit 10 (w ! (i - 2))
      in w @ [w ! (i - 16) + s0 + w ! (i - 7) + s1])"

definition schedule :: "u8 list \<Rightarrow> u32 list" where
  "schedule block = foldl sched_step (sched_init block) [16..<64]"

datatype regs = Regs u32 u32 u32 u32 u32 u32 u32 u32

fun round_step :: "u32 list \<Rightarrow> regs \<Rightarrow> nat \<Rightarrow> regs" where
  "round_step w (Regs a b c d e f g h) i =
     (let s1 = word_rotr 6 e XOR word_rotr 11 e XOR word_rotr 25 e;
          ch = (e AND f) XOR (NOT e AND g);
          temp1 = h + s1 + ch + K ! i + w ! i;
          s0 = word_rotr 2 a XOR word_rotr 13 a XOR word_rotr 22 a;
          maj = (a AND b) XOR (a AND c) XOR (b AND c);
          temp2 = s0 + maj
      in Regs (temp1 + temp2) a b c (d + temp1) e f g)"

fun regs_add :: "regs \<Rightarrow> regs \<Rightarrow> regs" where
  "regs_add (Regs a b c d e f g h) (Regs a' b' c' d' e' f' g' h') =
     Regs (a + a') (b + b') (c + c') (d + d') (e + e') (f + f') (g + g') (h + h')"

definition compress :: "regs \<Rightarrow> u8 list \<Rightarrow> regs" where
  "compress st block = regs_add st (foldl (round_step (schedule block)) st [0..<64])"

section \<open>The streaming hasher\<close>

record sha256 =
  sha_state :: regs
  sha_buffer :: "u8 list"
  sha_buffer_len :: nat
  sha_total_len :: u64

definition sha_new :: sha256 where
  "sha_new = \<lparr>sha_state = Regs 0x6a09e667 0xbb67ae85 0x3c6ef372 0xa54ff53a 0x510e527f 0x9b05688c 0x1f83d9ab 0x5be0cd19,
              sha_buffer = replicate 64 0, sha_buffer_len = 0, sha_total_len = 0\<rparr>"

text \<open>Overwrite a prefix of the buffer from a position on.\<close>

definition overwrite :: "'a list \<Rightarrow> nat \<Rightarrow> 'a list \<Rightarrow> 'a list" where
  "overwrite xs i ys = take i xs @ ys @ drop (i + length ys) xs"

text \<open>The \<open>while data.len() >= 64\<close> loop of \<open>update\<close>: whole blocks, then what is left.\<close>

function sha_blocks :: "regs \<Rightarrow> u8 list \<Rightarrow> regs \<times> u8 list" where
  "sha_blocks st data = (if 64 \<le> length data then sha_blocks (compress st (take 64 data)) (drop 64 data)
                         else (st, data))"
  by pat_completeness auto
termination
  by (relation "measure (\<lambda>(st, data). length data)") auto

declare sha_blocks.simps [simp del]

definition sha_update :: "sha256 \<Rightarrow> u8 list \<Rightarrow> sha256" where
  "sha_update h data0 =
     (let h = h\<lparr>sha_total_len := sha_total_len h + of_nat (length data0)\<rparr>;
          (h, data) =
            (if sha_buffer_len h > 0 then
               let need = 64 - sha_buffer_len h;
                   tk = min need (length data0);
                   h = h\<lparr>sha_buffer := overwrite (sha_buffer h) (sha_buffer_len h) (take tk data0),
                         sha_buffer_len := sha_buffer_len h + tk\<rparr>;
                   data = drop tk data0
               in if sha_buffer_len h = 64
                  then (h\<lparr>sha_state := compress (sha_state h) (sha_buffer h), sha_buffer_len := 0\<rparr>, data)
                  else (h, data)
             else (h, data0));
          (st, rest) = sha_blocks (sha_state h) data;
          h = h\<lparr>sha_state := st\<rparr>
      in if rest \<noteq> [] then h\<lparr>sha_buffer := overwrite (sha_buffer h) 0 rest, sha_buffer_len := length rest\<rparr>
         else h)"

fun regs_bytes :: "regs \<Rightarrow> u8 list" where
  "regs_bytes (Regs a b c d e f g h) =
     be_bytes 4 a @ be_bytes 4 b @ be_bytes 4 c @ be_bytes 4 d @
     be_bytes 4 e @ be_bytes 4 f @ be_bytes 4 g @ be_bytes 4 h"

definition sha_finalize :: "sha256 \<Rightarrow> digest" where
  "sha_finalize h =
     (let bit_len = sha_total_len h * 8;
          data_len = sha_buffer_len h;
          block = (overwrite (replicate 64 0) 0 (take data_len (sha_buffer h)))[data_len := 0x80];
          st = (if data_len + 1 > 56 then
                  compress (compress (sha_state h) block)
                    (overwrite (replicate 64 0) 56 (be_bytes 8 bit_len))
                else compress (sha_state h) (overwrite block 56 (be_bytes 8 bit_len)))
      in Digest (regs_bytes st))"

definition hash :: "u8 list \<Rightarrow> digest" where
  "hash data = sha_finalize (sha_update sha_new data)"

section \<open>Hexadecimal round trip\<close>

lemma HEX_val: "\<forall>k \<in> set [0..<16]. hex_val (of_nat (of_char (HEX ! k))) = Inr (of_nat k)"
  by code_simp

lemma hex_val_HEX: "unat n < 16 \<Longrightarrow> hex_val (of_nat (of_char (HEX ! unat n))) = Inr n"
  using HEX_val [THEN bspec, of "unat n"] by simp

lemma nibbles_small: "unat (drop_bit 4 (b :: u8)) < 16" "unat (b AND 0x0f) < 16"
proof -
  have "unat b < 256"
    using unat_lt [of b] by simp
  then show "unat (drop_bit 4 b) < 16"
    by (simp only: unat_drop_bit_eq) (simp add: drop_bit_eq_div)
  have "b AND 0x0f = take_bit 4 b"
    by (simp add: take_bit_eq_mask mask_eq_exp_minus_1)
  then show "unat (b AND 0x0f) < 16"
    by (simp only: unsigned_take_bit_eq) (simp add: take_bit_eq_mod)
qed

lemma nibbles_join: "push_bit 4 (drop_bit 4 b) OR (b AND 0x0f) = (b :: u8)"
proof -
  have "b AND 0x0f = take_bit 4 b"
    by (simp add: take_bit_eq_mask mask_eq_exp_minus_1)
  then show ?thesis
    by (auto simp: bit_eq_iff bit_simps)
qed

lemma length_hex [simp]: "length (hex bs) = 2 * length bs"
  by (induction bs) auto

lemma parse_hex_pairs_hex: "parse_hex_pairs (as_bytes (hex bs)) = Inr bs"
  by (induction bs) (simp_all add: as_bytes_def hex_val_HEX nibbles_small nibbles_join)

lemma parse_hex_hex [simp]: "parse_hex (hex bs) = Inr bs"
  by (simp add: parse_hex_def parse_hex_pairs_hex)

lemma hex_inject [simp]: "hex bs = hex cs \<longleftrightarrow> bs = cs"
  by (metis parse_hex_hex sum.inject(2))

lemma to_hex_inject [simp]: "to_hex d = to_hex e \<longleftrightarrow> d = e"
  by (cases d; cases e) (simp add: to_hex_def)

section \<open>The hasher computes the padded-message digest\<close>

text \<open>The reference: pad to a multiple of the block length, compress every block.\<close>

definition sha_pad :: "u8 list \<Rightarrow> u8 list" where
  "sha_pad m = m @ [0x80] @ replicate ((119 - length m mod 64) mod 64) 0
                 @ be_bytes 8 (of_nat (length m) * 8 :: u64)"

definition sha256_ref :: "u8 list \<Rightarrow> digest" where
  "sha256_ref m = Digest (regs_bytes (fst (sha_blocks (sha_state sha_new) (sha_pad m))))"

definition sha_absorbed :: "sha256 \<Rightarrow> u8 list \<Rightarrow> bool" where
  "sha_absorbed h m \<longleftrightarrow>
     sha_blocks (sha_state sha_new) m = (sha_state h, take (sha_buffer_len h) (sha_buffer h)) \<and>
     length (sha_buffer h) = 64 \<and> sha_buffer_len h < 64 \<and> sha_total_len h = of_nat (length m)"

lemma sha_blocks_short: "length d < 64 \<Longrightarrow> sha_blocks st d = (st, d)"
  by (subst sha_blocks.simps) simp

lemma sha_blocks_block: "length b = 64 \<Longrightarrow> sha_blocks st (b @ d) = sha_blocks (compress st b) d"
  by (subst sha_blocks.simps) simp

lemma sha_blocks_append:
  "sha_blocks st (a @ b) = (case sha_blocks st a of (st', r) \<Rightarrow> sha_blocks st' (r @ b))"
proof (induction st a rule: sha_blocks.induct)
  case (1 st a)
  show ?case
  proof (cases "64 \<le> length a")
    case True
    have "sha_blocks st (a @ b) = sha_blocks (compress st (take 64 a)) (drop 64 a @ b)"
      using True by (subst sha_blocks.simps) simp
    with True "1.IH" show ?thesis
      by (simp add: sha_blocks.simps [of st a])
  qed (simp add: sha_blocks_short)
qed

lemma sha_blocks_rest: "sha_blocks st d = (st', r) \<Longrightarrow> length r = length d mod 64"
proof (induction st d rule: sha_blocks.induct)
  case (1 st d)
  then show ?case
    by (cases "64 \<le> length d") (auto simp: sha_blocks.simps [of st d] le_mod_geq)
qed

lemma sha_blocks_rest_less: "sha_blocks st d = (st', r) \<Longrightarrow> length r < 64"
  using sha_blocks_rest by fastforce

lemma length_overwrite [simp]: "i + length ys \<le> length xs \<Longrightarrow> length (overwrite xs i ys) = length xs"
  by (simp add: overwrite_def)

lemma take_overwrite_0: "length ys \<le> length xs \<Longrightarrow> take (length ys) (overwrite xs 0 ys) = ys"
  by (simp add: overwrite_def)

lemma take_overwrite_end:
  "i + length ys \<le> length xs \<Longrightarrow> take (i + length ys) (overwrite xs i ys) = take i xs @ ys"
  by (simp add: overwrite_def)

text \<open>The three ways \<open>update\<close> can go: nothing buffered, the buffer not filled, the buffer filled.\<close>

definition sha_store_rest :: "sha256 \<Rightarrow> regs \<times> u8 list \<Rightarrow> sha256" where
  "sha_store_rest h sr =
     (let h = h\<lparr>sha_state := fst sr\<rparr>
      in if snd sr \<noteq> [] then h\<lparr>sha_buffer := overwrite (sha_buffer h) 0 (snd sr), sha_buffer_len := length (snd sr)\<rparr>
         else h)"

lemma sha_update_empty:
  "sha_buffer_len h = 0 \<Longrightarrow>
   sha_update h d = sha_store_rest (h\<lparr>sha_total_len := sha_total_len h + of_nat (length d)\<rparr>)
                      (sha_blocks (sha_state h) d)"
  by (simp add: sha_update_def sha_store_rest_def Let_def split: prod.splits)

lemma sha_update_partial:
  "0 < sha_buffer_len h \<Longrightarrow> sha_buffer_len h + length d < 64 \<Longrightarrow>
   sha_update h d = h\<lparr>sha_total_len := sha_total_len h + of_nat (length d),
                      sha_buffer := overwrite (sha_buffer h) (sha_buffer_len h) d,
                      sha_buffer_len := sha_buffer_len h + length d\<rparr>"
  by (simp add: sha_update_def Let_def sha_blocks_short)

lemma sha_update_full:
  assumes "0 < sha_buffer_len h" "sha_buffer_len h < 64" "64 \<le> sha_buffer_len h + length d"
    "k = 64 - sha_buffer_len h" "b = overwrite (sha_buffer h) (sha_buffer_len h) (take k d)"
  shows "sha_update h d =
    sha_store_rest (h\<lparr>sha_total_len := sha_total_len h + of_nat (length d), sha_buffer := b,
                       sha_state := compress (sha_state h) b, sha_buffer_len := 0\<rparr>)
      (sha_blocks (compress (sha_state h) b) (drop k d))"
proof -
  from assms have "min k (length d) = k" by simp
  with assms show ?thesis
    by (simp add: sha_update_def sha_store_rest_def Let_def split: prod.splits)
qed

lemma sha_store_rest_abs:
  assumes "sha_buffer_len h = 0" "length (sha_buffer h) = 64" "length r < 64"
  shows "sha_state (sha_store_rest h (st, r)) = st"
    "take (sha_buffer_len (sha_store_rest h (st, r))) (sha_buffer (sha_store_rest h (st, r))) = r"
    "length (sha_buffer (sha_store_rest h (st, r))) = 64"
    "sha_buffer_len (sha_store_rest h (st, r)) < 64"
    "sha_total_len (sha_store_rest h (st, r)) = sha_total_len h"
  using assms by (simp_all add: sha_store_rest_def Let_def take_overwrite_0)

lemma sha_absorbed_new: "sha_absorbed sha_new []"
  by (simp add: sha_absorbed_def sha_new_def sha_blocks_short)

lemma sha_absorbed_update:
  assumes "sha_absorbed h m"
  shows "sha_absorbed (sha_update h d) (m @ d)"
proof -
  define n where "n = sha_buffer_len h"
  define live where "live = take n (sha_buffer h)"
  from assms have len: "length (sha_buffer h) = 64" and n: "n < 64" and ll: "length live = n"
    and tot: "sha_total_len h = of_nat (length m)"
    and m: "sha_blocks (sha_state sha_new) m = (sha_state h, live)"
    by (simp_all add: sha_absorbed_def n_def live_def)
  from m have blocks: "sha_blocks (sha_state sha_new) (m @ d) = sha_blocks (sha_state h) (live @ d)"
    by (subst sha_blocks_append) simp
  obtain st r where rest: "sha_blocks (sha_state h) (live @ d) = (st, r)" by fastforce
  note r64 = sha_blocks_rest_less [OF rest]
  consider "n = 0" | "0 < n" "n + length d < 64" | "0 < n" "64 \<le> n + length d" by linarith
  then show ?thesis
  proof cases
    case 1
    then have "sha_blocks (sha_state h) d = (st, r)" using rest ll by simp
    with 1 len tot r64 rest blocks show ?thesis
      by (simp add: sha_update_empty n_def [symmetric] sha_absorbed_def sha_store_rest_abs)
  next
    case 2
    then have "r = live @ d" "st = sha_state h"
      using rest ll by (simp_all add: sha_blocks_short)
    with 2 len tot rest blocks show ?thesis
      by (simp add: sha_update_partial n_def [symmetric] sha_absorbed_def take_overwrite_end live_def)
  next
    case 3
    define k where "k = 64 - n"
    define b where "b = overwrite (sha_buffer h) n (take k d)"
    have k: "k \<le> length d" "n + k = 64" using 3 n by (simp_all add: k_def)
    have b: "b = live @ take k d" "length b = 64"
      using len k by (simp_all add: b_def live_def overwrite_def min_def)
    have "sha_blocks (sha_state h) (b @ drop k d) = (st, r)"
      using rest b by simp
    then have "sha_blocks (compress (sha_state h) b) (drop k d) = (st, r)"
      using b(2) by (simp add: sha_blocks_block)
    with sha_update_full [of h d k b] 3 n b(2) k_def b_def tot r64 rest blocks show ?thesis
      by (simp add: n_def [symmetric] sha_absorbed_def sha_store_rest_abs)
  qed
qed

text \<open>Padding: the last live block alone when the length fits behind it, one more block otherwise.\<close>

lemma sha_pad_block:
  assumes "length live < 64"
  shows "(overwrite (replicate 64 0) 0 live)[length live := 0x80] = live @ [0x80] @ replicate (63 - length live) (0 :: u8)"
proof -
  have "overwrite (replicate 64 0) 0 live = live @ 0 # replicate (63 - length live) (0 :: u8)"
    using assms by (simp add: overwrite_def Suc_diff_Suc flip: replicate_Suc)
  then show ?thesis by simp
qed

lemma sha_finalize_absorbed:
  assumes "sha_absorbed h m"
  shows "sha_finalize h = sha256_ref m"
proof -
  define n where "n = sha_buffer_len h"
  define live where "live = take n (sha_buffer h)"
  define bits where "bits = (of_nat (length m) * 8 :: u64)"
  from assms have n: "n < 64" and ll: "length live = n"
    and tot: "sha_total_len h * 8 = bits"
    and m: "sha_blocks (sha_state sha_new) m = (sha_state h, live)"
    by (simp_all add: sha_absorbed_def n_def live_def bits_def)
  have nm: "n = length m mod 64"
    using sha_blocks_rest [OF m] ll by simp
  define tail where "tail = [0x80] @ replicate ((119 - n) mod 64) 0 @ be_bytes 8 bits"
  have ref: "sha_blocks (sha_state sha_new) (sha_pad m) = sha_blocks (sha_state h) (live @ tail)"
    unfolding sha_pad_def tail_def nm bits_def by (subst sha_blocks_append) (simp add: m)
  define block where "block = live @ [0x80] @ replicate (63 - n) (0 :: u8)"
  have block: "(overwrite (replicate 64 0) 0 live)[n := 0x80] = block"
    using sha_pad_block [of live] n ll by (simp add: block_def)
  show ?thesis
  proof (cases "n + 1 > 56")
    case True
    have "(119 - n) mod 64 = 63 - n + 56"
      using True n by simp
    then have "live @ tail = block @ (replicate 56 0 @ be_bytes 8 bits)"
      by (simp only: tail_def block_def replicate_add append_assoc)
    moreover have "length block = 64" using n ll by (simp add: block_def)
    ultimately have "sha_blocks (sha_state h) (live @ tail) =
        (compress (compress (sha_state h) block) (replicate 56 0 @ be_bytes 8 bits), [])"
      using sha_blocks_block [of "replicate 56 0 @ be_bytes 8 bits" _ "[]"]
      by (simp add: sha_blocks_block sha_blocks_short)
    moreover have "overwrite (replicate 64 0) 56 (be_bytes 8 bits) = replicate 56 0 @ be_bytes 8 bits"
      by (simp add: overwrite_def)
    ultimately show ?thesis using True block ref tot
      by (simp add: sha_finalize_def sha256_ref_def n_def [symmetric] live_def [symmetric] Let_def)
  next
    case False
    then have z: "(119 - n) mod 64 = 55 - n" and le: "n \<le> 55"
      using n by (simp_all add: le_mod_geq)
    have "56 - n = Suc (55 - n)" using le by simp
    then have sp: "overwrite block 56 (be_bytes 8 bits) = live @ tail"
      using ll z le by (simp add: overwrite_def block_def tail_def min_def)
    have "sha_blocks (sha_state h) (live @ tail) = (compress (sha_state h) (live @ tail), [])"
      using ll z le sha_blocks_block [of "live @ tail" _ "[]"]
      by (simp add: tail_def sha_blocks_short)
    with False block ref tot sp show ?thesis
      by (simp add: sha_finalize_def sha256_ref_def n_def [symmetric] live_def [symmetric] Let_def)
  qed
qed

interpretation sha: streaming_digest sha_new sha_update sha_finalize sha256_ref sha_absorbed
  by unfold_locales (rule sha_absorbed_new, erule sha_absorbed_update, erule sha_finalize_absorbed)

lemma hash_ref: "hash m = sha256_ref m"
  by (simp add: hash_def sha.out_one_shot)

lemma length_digest_hash [simp]: "length (digest_bytes (hash m)) = 32"
proof -
  have "length (regs_bytes r) = 32" for r
    by (cases r) simp
  then show ?thesis by (simp add: hash_ref sha256_ref_def)
qed

lemma length_to_hex_hash [simp]: "length (to_hex (hash m)) = 64"
  by (simp add: to_hex_def)

end
