(* ===== verification/Compat.thy ===== *)
theory Compat
  imports Wire Dtype Geometry Sha256
begin

text \<open>
  \<^verbatim>\<open>compat.rs\<close>: the compatibility key, its canonical encoding and its identity.  The lemmas
  show that the encoding is unambiguous (distinct keys have distinct encodings, so equal identities
  of distinct keys exhibit a SHA-256 collision), that decoding inverts it, and that whatever decodes
  is the canonical encoding of a well-formed key.
\<close>

definition CANON_VERSION :: u8 where "CANON_VERSION = 1"

record compat_key =
  ck_model :: "string option"
  ck_model_revision :: "string option"
  ck_runtime_version :: "string option"
  ck_operation :: "string option"
  ck_dtype :: dtype
  ck_shape :: shape
  ck_layout :: layout
  ck_endianness :: endianness
  ck_device :: "string option"
  ck_precision :: "string option"
  ck_quant :: quant_kind
  ck_mutability :: mutability

definition compat_default :: compat_key where
  "compat_default = \<lparr>ck_model = None, ck_model_revision = None, ck_runtime_version = None,
     ck_operation = None, ck_dtype = F32, ck_shape = Shape [], ck_layout = RowMajor,
     ck_endianness = Little, ck_device = None, ck_precision = None, ck_quant = QNone,
     ck_mutability = Immutable\<rparr>"

section \<open>Encoding\<close>

fun write_opt_str :: "string option \<Rightarrow> u8 list" where
  "write_opt_str (Some s) = w_bool True @ w_str s"
| "write_opt_str None = w_bool False"

definition read_opt_str :: "string option parser" where
  "read_opt_str = p_then r_bool (\<lambda>present.
     if present then p_then r_str (\<lambda>s. p_ret (Some s)) else p_ret None)"

definition enc_shape :: "shape \<Rightarrow> u8 list" where
  "enc_shape s = w_u64 (of_nat (rank s)) @ concat (map w_u64 (dims s))"

fun enc_layout :: "layout \<Rightarrow> u8 list" where
  "enc_layout (Strided strides) = w_u8 (layout_code (Strided strides)) @ w_list w_u64 strides"
| "enc_layout l = w_u8 (layout_code l)"

definition compat_encode :: "compat_key \<Rightarrow> u8 list" where
  "compat_encode k =
     w_u8 CANON_VERSION @ write_opt_str (ck_model k) @ write_opt_str (ck_model_revision k) @
     write_opt_str (ck_runtime_version k) @ write_opt_str (ck_operation k) @
     w_u8 (dtype_code (ck_dtype k)) @ enc_shape (ck_shape k) @ enc_layout (ck_layout k) @
     w_u8 (endianness_code (ck_endianness k)) @ write_opt_str (ck_device k) @
     write_opt_str (ck_precision k) @ w_u8 (quant_code (ck_quant k)) @
     w_u8 (mutability_code (ck_mutability k))"

section \<open>Decoding\<close>

definition dec_shape :: "shape parser" where
  "dec_shape = p_then r_u64 (\<lambda>rank.
     if rank > of_nat MAX_RANK then p_fail (Protocol (''compat rank '' @ show_w rank @ '' exceeds max''))
     else p_then (p_many (unat rank) r_u64) (\<lambda>ds.
       if list_ex (\<lambda>d. d > MAX_DIM) ds then p_fail (Protocol ''compat dimension exceeds max'')
       else p_lift (Shape_new ds)))"

definition dec_layout :: "layout parser" where
  "dec_layout = p_then r_u8 (\<lambda>code.
     if code = 0 then p_ret RowMajor
     else if code = 1 then p_ret ColMajor
     else if code = 2 then
       p_then r_u64 (\<lambda>n.
         if n > of_nat MAX_RANK then p_fail (Protocol ''compat strides exceed max'')
         else p_then (p_many (unat n) r_u64) (\<lambda>strides. p_ret (Strided strides)))
     else p_fail (Protocol (''unknown layout tag '' @ show_w code)))"

abbreviation dec_dtype :: "dtype parser" where
  "dec_dtype \<equiv> p_then r_u8 (\<lambda>c. p_lift (dtype_from_code c))"

abbreviation dec_endianness :: "endianness parser" where
  "dec_endianness \<equiv> p_then r_u8 (\<lambda>c. p_lift (endianness_from_code c))"

abbreviation dec_quant :: "quant_kind parser" where
  "dec_quant \<equiv> p_then r_u8 (\<lambda>c. p_lift (quant_from_code c))"

abbreviation dec_mutability :: "mutability parser" where
  "dec_mutability \<equiv> p_then r_u8 (\<lambda>c. p_lift (mutability_from_code c))"

definition dec_compat :: "compat_key parser" where
  "dec_compat =
     p_then r_u8 (\<lambda>version.
     if version \<noteq> CANON_VERSION
     then p_fail (Protocol (''unsupported compat encoding version '' @ show_w version))
     else
     p_then read_opt_str (\<lambda>model.
     p_then read_opt_str (\<lambda>model_revision.
     p_then read_opt_str (\<lambda>runtime_version.
     p_then read_opt_str (\<lambda>operation.
     p_then dec_dtype (\<lambda>dtype.
     p_then dec_shape (\<lambda>shape.
     p_then dec_layout (\<lambda>layout.
     p_then (p_lift (layout_validate layout shape)) (\<lambda>_.
     p_then dec_endianness (\<lambda>endianness.
     p_then read_opt_str (\<lambda>device.
     p_then read_opt_str (\<lambda>precision.
     p_then dec_quant (\<lambda>quant.
     p_then dec_mutability (\<lambda>mutability.
     p_ret \<lparr>ck_model = model, ck_model_revision = model_revision, ck_runtime_version = runtime_version,
       ck_operation = operation, ck_dtype = dtype, ck_shape = shape, ck_layout = layout,
       ck_endianness = endianness, ck_device = device, ck_precision = precision, ck_quant = quant,
       ck_mutability = mutability\<rparr>))))))))))))))"

definition compat_decode :: "u8 list \<Rightarrow> compat_key result" where
  "compat_decode data = and_then (dec_compat (rd_new data)) (\<lambda>(k, r).
     if \<not> rd_eof r then Inl (Protocol ''trailing bytes in compat encoding'') else Inr k)"

section \<open>Identity\<close>

definition compat_id :: "compat_key \<Rightarrow> digest" where
  "compat_id k = hash (compat_encode k)"

definition same_compat :: "compat_key \<Rightarrow> compat_key \<Rightarrow> bool" where
  "same_compat a b \<longleftrightarrow> compat_id a = compat_id b"

fun show_u64s :: "u64 list \<Rightarrow> string" where
  "show_u64s [] = []"
| "show_u64s [d] = show_w d"
| "show_u64s (d # ds) = show_w d @ '', '' @ show_u64s ds"

fun debug_layout :: "layout \<Rightarrow> string" where
  "debug_layout RowMajor = ''RowMajor''"
| "debug_layout ColMajor = ''ColMajor''"
| "debug_layout (Strided ss) = ''Strided(['' @ show_u64s ss @ ''])''"

fun debug_quant :: "quant_kind \<Rightarrow> string" where
  "debug_quant QNone = ''None''"
| "debug_quant Int4 = ''Int4''"
| "debug_quant Int8 = ''Int8''"
| "debug_quant Nf4 = ''Nf4''"

fun debug_mutability :: "mutability \<Rightarrow> string" where
  "debug_mutability Immutable = ''Immutable''"
| "debug_mutability Mutable = ''Mutable''"

definition opt_part :: "string \<Rightarrow> string option \<Rightarrow> string list" where
  "opt_part name v = (case v of Some s \<Rightarrow> [name @ s] | None \<Rightarrow> [])"

fun join :: "string \<Rightarrow> string list \<Rightarrow> string" where
  "join sep [] = []"
| "join sep [x] = x"
| "join sep (x # xs) = x @ sep @ join sep xs"

definition describe :: "compat_key \<Rightarrow> string" where
  "describe k = join '' ''
     ([''dtype='' @ dtype_name (ck_dtype k), ''shape=['' @ show_u64s (dims (ck_shape k)) @ '']'',
       ''layout='' @ debug_layout (ck_layout k)] @
      opt_part ''model='' (ck_model k) @ opt_part ''rev='' (ck_model_revision k) @
      opt_part ''runtime='' (ck_runtime_version k) @ opt_part ''op='' (ck_operation k) @
      opt_part ''device='' (ck_device k) @ opt_part ''precision='' (ck_precision k) @
      (if ck_quant k \<noteq> QNone then [''quant='' @ debug_quant (ck_quant k)] else []) @
      [''mut='' @ debug_mutability (ck_mutability k)])"

section \<open>Well-formedness\<close>

text \<open>\<open>rust_key\<close> holds of every value of the Rust type: strings are UTF-8, a shape comes from
  \<open>Shape::new\<close>, and no vector is longer than memory.\<close>

fun opt_str_ok :: "string option \<Rightarrow> bool" where
  "opt_str_ok None \<longleftrightarrow> True"
| "opt_str_ok (Some s) \<longleftrightarrow> rust_str s"

fun rust_layout :: "layout \<Rightarrow> bool" where
  "rust_layout (Strided ss) \<longleftrightarrow> fits ss"
| "rust_layout _ \<longleftrightarrow> True"

definition rust_key :: "compat_key \<Rightarrow> bool" where
  "rust_key k \<longleftrightarrow>
     opt_str_ok (ck_model k) \<and> opt_str_ok (ck_model_revision k) \<and> opt_str_ok (ck_runtime_version k) \<and>
     opt_str_ok (ck_operation k) \<and> wf_shape (ck_shape k) \<and> rust_layout (ck_layout k) \<and>
     opt_str_ok (ck_device k) \<and> opt_str_ok (ck_precision k)"

definition valid_key :: "compat_key \<Rightarrow> bool" where
  "valid_key k \<longleftrightarrow> rust_key k \<and> layout_validate (ck_layout k) (ck_shape k) = Inr ()"

section \<open>Field codecs\<close>

interpretation opt_str: codec write_opt_str read_opt_str opt_str_ok
proof
  show "read_opt_str (Rd pre (write_opt_str v @ rest)) = Inr (v, Rd (pre @ write_opt_str v) rest)"
    if "opt_str_ok v" for v pre rest
    using that by (cases v) (simp_all add: read_opt_str_def reads)
  show "opt_str_ok v \<and> (\<exists>rest. bs = write_opt_str v @ rest \<and> r = Rd (pre @ write_opt_str v) rest)"
    if "read_opt_str (Rd pre bs) = Inr (v, r)" for pre bs v r
    using that by (auto simp: read_opt_str_def parses split: if_splits)
qed

interpretation dtype_tag: codec "\<lambda>t. w_u8 (dtype_code t)" dec_dtype "\<lambda>_. True"
  by (rule codec_tag [OF dtype.from_code_iff])

interpretation endianness_tag: codec "\<lambda>t. w_u8 (endianness_code t)" dec_endianness "\<lambda>_. True"
  by (rule codec_tag [OF endianness.from_code_iff])

interpretation quant_tag: codec "\<lambda>t. w_u8 (quant_code t)" dec_quant "\<lambda>_. True"
  by (rule codec_tag [OF quant.from_code_iff])

interpretation mutability_tag: codec "\<lambda>t. w_u8 (mutability_code t)" dec_mutability "\<lambda>_. True"
  by (rule codec_tag [OF mutability.from_code_iff])

lemma of_nat_MAX_RANK_less: "n > (of_nat MAX_RANK :: u64) \<longleftrightarrow> unat n > MAX_RANK"
  by (simp add: MAX_RANK_def word_less_nat_alt)

lemma short_fits: "length xs \<le> MAX_RANK \<Longrightarrow> fits xs"
  by (simp add: fits_def MAX_RANK_def)

lemma unat_len_short: "length xs \<le> MAX_RANK \<Longrightarrow> unat (of_nat (length xs) :: u64) = length xs"
  by (rule unat_len) (rule short_fits)

lemma no_long_dim: "wf_shape s \<Longrightarrow> \<not> list_ex (\<lambda>d. d > MAX_DIM) (dims s)"
  by (auto simp: wf_shape_def list_ex_iff list_all_iff)

interpretation shape: codec enc_shape dec_shape wf_shape
proof
  fix s pre rest assume s: "wf_shape s"
  then have "length (dims s) \<le> MAX_RANK" by (simp add: wf_shape_def)
  with s u64.many_enc [of "dims s"] show "dec_shape (Rd pre (enc_shape s @ rest)) = Inr (s, Rd (pre @ enc_shape s) rest)"
    by (simp add: dec_shape_def enc_shape_def reads rank_def of_nat_MAX_RANK_less unat_len_short no_long_dim not_less)
next
  fix pre bs s r assume "dec_shape (Rd pre bs) = Inr (s, r)"
  then obtain n rest where "length (dims s) = unat n" "wf_shape s" "bs = w_u64 n @ concat (map w_u64 (dims s)) @ rest"
    "r = Rd (pre @ w_u64 n @ concat (map w_u64 (dims s))) rest"
    by (auto simp: dec_shape_def parses p_lift_Inr_iff Shape_new_Inr_iff split: if_splits)
  moreover from this(1) have "n = of_nat (length (dims s))" by simp
  ultimately show "wf_shape s \<and> (\<exists>rest. bs = enc_shape s @ rest \<and> r = Rd (pre @ enc_shape s) rest)"
    by (auto simp: enc_shape_def rank_def)
qed

fun short_layout :: "layout \<Rightarrow> bool" where
  "short_layout (Strided ss) \<longleftrightarrow> length ss \<le> MAX_RANK"
| "short_layout _ \<longleftrightarrow> True"

interpretation layout: codec enc_layout dec_layout short_layout
proof
  show "dec_layout (Rd pre (enc_layout l @ rest)) = Inr (l, Rd (pre @ enc_layout l) rest)"
    if "short_layout l" for l pre rest
  proof (cases l)
    case (Strided ss)
    with that u64.many_enc [of ss] show ?thesis
      by (simp add: dec_layout_def reads w_list_def of_nat_MAX_RANK_less unat_len_short)
  qed (simp_all add: dec_layout_def reads)
next
  fix pre bs l r assume *: "dec_layout (Rd pre bs) = Inr (l, r)"
  show "short_layout l \<and> (\<exists>rest. bs = enc_layout l @ rest \<and> r = Rd (pre @ enc_layout l) rest)"
  proof (cases l)
    case (Strided ss)
    from * [unfolded Strided] have "length ss \<le> MAX_RANK \<and> (\<exists>rest.
        bs = w_u8 2 @ w_u64 (of_nat (length ss)) @ concat (map w_u64 ss) @ rest \<and>
        r = Rd (pre @ w_u8 2 @ w_u64 (of_nat (length ss)) @ concat (map w_u64 ss)) rest)"
      by (auto simp: dec_layout_def parses of_nat_MAX_RANK_less split: if_splits)
    then show ?thesis by (simp add: Strided w_list_def)
  qed (use * in \<open>auto simp: dec_layout_def parses split: if_splits\<close>)
qed

lemmas [reads] =
  opt_str.then_enc dtype_tag.then_enc endianness_tag.then_enc quant_tag.then_enc mutability_tag.then_enc shape.then_enc layout.then_enc
  opt_str.then_enc_last dtype_tag.then_enc_last endianness_tag.then_enc_last quant_tag.then_enc_last mutability_tag.then_enc_last shape.then_enc_last layout.then_enc_last

lemmas [parses] = opt_str.then_iff dtype_tag.then_iff endianness_tag.then_iff quant_tag.then_iff
  mutability_tag.then_iff shape.then_iff layout.then_iff

section \<open>The key\<close>

lemma valid_layout_short: "layout_validate l s = Inr () \<Longrightarrow> wf_shape s \<Longrightarrow> short_layout l \<and> rust_layout l"
proof (cases l)
  case (Strided ss)
  assume "layout_validate l s = Inr ()" "wf_shape s"
  with Strided show ?thesis
    unfolding Strided layout_validate_strided_iff by (simp add: wf_shape_def rank_def short_fits)
qed simp_all

interpretation key: codec compat_encode dec_compat valid_key
proof
  show "dec_compat (Rd pre (compat_encode k @ rest)) = Inr (k, Rd (pre @ compat_encode k) rest)"
    if "valid_key k" for k pre rest
    using that valid_layout_short [of "ck_layout k" "ck_shape k"]
    by (simp add: dec_compat_def compat_encode_def valid_key_def rust_key_def reads)
  show "valid_key k \<and> (\<exists>rest. bs = compat_encode k @ rest \<and> r = Rd (pre @ compat_encode k) rest)"
    if "dec_compat (Rd pre bs) = Inr (k, r)" for pre bs k r
    using that
    by (auto simp: dec_compat_def parses compat_encode_def valid_key_def rust_key_def p_then_Inr_iff
        [where p = "p_lift m" for m] p_lift_Inr_iff valid_layout_short split: if_splits)
qed

lemma decode_encode: "valid_key k \<Longrightarrow> compat_decode (compat_encode k) = Inr k"
  by (simp add: compat_decode_def rd_new_Rd key.dec_enc_last)

lemma decode_sound: "compat_decode bs = Inr k \<Longrightarrow> valid_key k \<and> bs = compat_encode k"
  by (auto simp: compat_decode_def rd_new_Rd res dest!: key.dec_sound split: prod.splits if_splits)

text \<open>The encoding separates all keys, also those whose layout would not validate.\<close>

lemma enc_layout_prefix:
  "rust_layout a \<Longrightarrow> rust_layout b \<Longrightarrow> enc_layout a @ xs = enc_layout b @ ys \<longleftrightarrow> a = b \<and> xs = ys"
  by (cases a; cases b) (auto simp: prefixes)

lemmas key_prefixes = opt_str.prefix_iff dtype_tag.prefix_iff endianness_tag.prefix_iff
  quant_tag.prefix_iff shape.prefix_iff enc_layout_prefix mutability_tag.enc_inject
  dtype.code_inject endianness.code_inject quant.code_inject mutability.code_inject

lemma compat_encode_inject:
  "rust_key a \<Longrightarrow> rust_key b \<Longrightarrow> compat_encode a = compat_encode b \<longleftrightarrow> a = b"
  by (auto simp: compat_encode_def rust_key_def key_prefixes prefixes)

end
