(* ===== verification/Crc32c.thy ===== *)
theory Crc32c
  imports Prelude
begin

text \<open>
  \<^verbatim>\<open>crc.rs\<close>: the table-driven CRC-32C.  The reference is the bit-serial shift register.  The table
  step is the eight-bit register step because the register is linear over exclusive or, and the
  register step is a bijection, so a checksum never misses a change of a single byte.
\<close>

section \<open>Definitions\<close>

definition POLY :: u32 where
  "POLY = 0x82F63B78"

definition crc_bit :: "u32 \<Rightarrow> u32" where
  "crc_bit crc = (if crc AND 1 \<noteq> 0 then drop_bit 1 crc XOR POLY else drop_bit 1 crc)"

definition crc_table_entry :: "nat \<Rightarrow> u32" where
  "crc_table_entry i = (crc_bit ^^ 8) (of_nat i)"

definition build_table :: "u32 list" where
  "build_table = map crc_table_entry [0..<256]"

definition crc_byte :: "u32 \<Rightarrow> u8 \<Rightarrow> u32" where
  "crc_byte crc b = (build_table ! unat ((crc XOR ucast b) AND 0x00FF)) XOR drop_bit 8 crc"

definition crc32c_continue :: "u32 \<Rightarrow> u8 list \<Rightarrow> u32" where
  "crc32c_continue prior data = foldl crc_byte (prior XOR 0xFFFFFFFF) data XOR 0xFFFFFFFF"

definition crc32c :: "u8 list \<Rightarrow> u32" where
  "crc32c data = crc32c_continue 0 data"

text \<open>The reference: exclusive-or the byte into the register and shift eight times.\<close>

definition crc_byte_ref :: "u32 \<Rightarrow> u8 \<Rightarrow> u32" where
  "crc_byte_ref crc b = (crc_bit ^^ 8) (crc XOR ucast b)"

definition crc32c_ref :: "u8 list \<Rightarrow> u32" where
  "crc32c_ref data = foldl crc_byte_ref 0xFFFFFFFF data XOR 0xFFFFFFFF"

section \<open>The register step is linear and injective\<close>

lemma and_1_iff: "x AND 1 \<noteq> 0 \<longleftrightarrow> bit (x :: u32) 0"
  by (simp add: and_one_eq bit_0 odd_iff_mod_2_eq_one)

lemma crc_bit_alt: "crc_bit x = drop_bit 1 x XOR (if bit x 0 then POLY else 0)"
  by (simp add: crc_bit_def and_1_iff)

lemma crc_bit_xor: "crc_bit (x XOR y) = crc_bit x XOR crc_bit y"
  by (auto simp: crc_bit_alt bit_eq_iff bit_simps)

lemma crc_bit_pow_xor: "(crc_bit ^^ n) (x XOR y) = (crc_bit ^^ n) x XOR (crc_bit ^^ n) y"
  by (induction n) (simp_all add: crc_bit_xor)

lemma POLY_top: "bit POLY 31"
  by (simp add: POLY_def)

lemma crc_bit_zero: "crc_bit x = 0 \<Longrightarrow> x = 0"
proof -
  assume z: "crc_bit x = 0"
  have "\<not> bit (drop_bit 1 x) 31"
    by (auto simp: bit_drop_bit_eq dest: bit_imp_le_length)
  with z have b0: "\<not> bit x 0"
    using POLY_top by (auto simp: crc_bit_alt bit_eq_iff [of "_ XOR _" 0] bit_xor_iff split: if_splits)
  with z have d: "drop_bit 1 x = 0"
    by (simp add: crc_bit_alt)
  show "x = 0"
  proof (rule bit_word_eqI)
    fix n assume "n < LENGTH(32)"
    from d have "\<not> bit (drop_bit 1 x) (n - 1)" by simp
    with b0 show "bit x n = bit 0 n"
      by (cases n) (simp_all add: bit_drop_bit_eq)
  qed
qed

lemma crc_bit_inj: "crc_bit x = crc_bit y \<longleftrightarrow> x = y"
proof
  assume "crc_bit x = crc_bit y"
  then have "crc_bit (x XOR y) = 0" by (simp add: crc_bit_xor)
  then have "x XOR y = 0" by (rule crc_bit_zero)
  then show "x = y" by (auto simp: bit_eq_iff bit_simps)
qed simp

lemma crc_bit_pow_inj: "(crc_bit ^^ n) x = (crc_bit ^^ n) y \<longleftrightarrow> x = y"
  by (induction n) (simp_all add: crc_bit_inj)

section \<open>The table step is the register step\<close>

lemma crc_bit_pow_shift:
  "(\<And>i. i < n \<Longrightarrow> \<not> bit x i) \<Longrightarrow> (crc_bit ^^ n) x = drop_bit n x"
proof (induction n arbitrary: x)
  case (Suc n)
  have "crc_bit x = drop_bit 1 x"
    using Suc.prems [of 0] by (simp add: crc_bit_alt)
  moreover have "(crc_bit ^^ n) (drop_bit 1 x) = drop_bit n (drop_bit 1 x)"
    by (rule Suc.IH) (use Suc.prems in \<open>auto simp: bit_drop_bit_eq\<close>)
  ultimately show ?case
    by (simp add: funpow_Suc_right del: funpow.simps)
qed simp

lemma crc_byte_is_ref: "crc_byte crc b = crc_byte_ref crc b"
proof -
  let ?x = "crc XOR ucast b"
  let ?lo = "take_bit 8 ?x" and ?hi = "?x AND NOT (mask 8)"
  have lo: "?x AND 0x00FF = ?lo"
    by (simp add: take_bit_eq_mask mask_eq_exp_minus_1)
  have small: "unat ?lo < 256"
    by (simp only: unsigned_take_bit_eq) (simp add: take_bit_eq_mod)
  have split: "?x = ?lo XOR ?hi"
    by (auto simp: bit_eq_iff bit_simps)
  have "(crc_bit ^^ 8) ?hi = drop_bit 8 ?hi"
    by (rule crc_bit_pow_shift) (simp add: bit_simps)
  also have "\<dots> = drop_bit 8 crc"
    by (auto simp: bit_eq_iff bit_simps dest: bit_imp_le_length)
  finally have hi: "(crc_bit ^^ 8) ?hi = drop_bit 8 crc" .
  have "crc_byte crc b = crc_table_entry (unat ?lo) XOR drop_bit 8 crc"
    using small by (simp add: crc_byte_def build_table_def lo)
  also have "\<dots> = (crc_bit ^^ 8) ?lo XOR (crc_bit ^^ 8) ?hi"
    by (simp only: crc_table_entry_def hi of_nat_unat ucast_id)
  also have "\<dots> = crc_byte_ref crc b"
    by (simp only: crc_byte_ref_def crc_bit_pow_xor [symmetric] split [symmetric])
  finally show ?thesis .
qed

lemma crc_byte_eq_ref: "crc_byte = crc_byte_ref"
  by (intro ext) (rule crc_byte_is_ref)

lemma crc32c_eq_ref: "crc32c data = crc32c_ref data"
  by (simp add: crc32c_def crc32c_continue_def crc32c_ref_def crc_byte_eq_ref)

section \<open>Streaming\<close>

lemma crc32c_continue_append:
  "crc32c_continue (crc32c_continue c a) b = crc32c_continue c (a @ b)"
  by (simp add: crc32c_continue_def xor.assoc)

interpretation crc: streaming_digest "0 :: u32" crc32c_continue "\<lambda>c. c" crc32c_ref "\<lambda>c m. c = crc32c m"
  by unfold_locales
    (simp_all add: crc32c_eq_ref [symmetric] crc32c_def crc32c_continue_append, simp add: crc32c_continue_def)

section \<open>A changed byte changes the checksum\<close>

lemma foldl_crc_byte_inj: "foldl crc_byte c m = foldl crc_byte c' m \<longleftrightarrow> c = c'"
proof (induction m arbitrary: c c')
  case (Cons b m)
  then show ?case
    by (simp add: crc_byte_eq_ref crc_byte_ref_def [abs_def] crc_bit_pow_inj xor_right_inject)
qed simp

lemma crc_byte_inj_byte: "crc_byte c b = crc_byte c b' \<longleftrightarrow> b = b'"
proof
  assume "crc_byte c b = crc_byte c b'"
  then have "c XOR ucast b = c XOR (ucast b' :: u32)"
    by (simp add: crc_byte_eq_ref crc_byte_ref_def crc_bit_pow_inj)
  then have "(ucast b :: u32) = ucast b'"
    by (simp add: xor_left_inject)
  then show "b = b'"
    by (auto simp: bit_eq_iff bit_simps)
qed simp

lemma crc32c_single_byte:
  "crc32c (pre @ b # post) = crc32c (pre @ b' # post) \<longleftrightarrow> b = b'"
proof
  assume "crc32c (pre @ b # post) = crc32c (pre @ b' # post)"
  then have "foldl crc_byte (0 XOR 0xFFFFFFFF) (pre @ b # post) = foldl crc_byte (0 XOR 0xFFFFFFFF) (pre @ b' # post)"
    unfolding crc32c_def crc32c_continue_def by (simp only: xor_right_inject)
  then show "b = b'"
    by (simp add: foldl_crc_byte_inj crc_byte_inj_byte)
qed simp

end
