(* ===== verification/Protocol.thy ===== *)
theory Protocol
  imports Compat Crc32c
begin

text \<open>
  \<^verbatim>\<open>protocol.rs\<close>: messages, frames and the framed reader.  A socket is the list of what its
  \<open>read\<close> calls will deliver: chunks of any size, interruptions and errors, and end of file once the
  list is used up.  The frame theorems hold for every such list with the same bytes.
\<close>

definition MAGIC :: u32 where "MAGIC = 0x54434246"
definition VERSION :: u8 where "VERSION = 1"
definition MAX_FRAME :: u32 where "MAX_FRAME = 64 * 1024 * 1024"
definition HEADER_LEN :: nat where "HEADER_LEN = 16"

datatype msg_type =
    TRegister | THello | TLookup | TLookupResult | TCreate | TCreateAck | TLeaseRenew | TLeaseGrant
  | TFetch | TFetchReply | TStore | TStoreAck | TMigrate | TMigrateAck | THeartbeat | TError

fun msg_tag :: "msg_type \<Rightarrow> u8" where
  "msg_tag TRegister = 1"
| "msg_tag THello = 2"
| "msg_tag TLookup = 3"
| "msg_tag TLookupResult = 4"
| "msg_tag TCreate = 5"
| "msg_tag TCreateAck = 6"
| "msg_tag TLeaseRenew = 7"
| "msg_tag TLeaseGrant = 8"
| "msg_tag TFetch = 9"
| "msg_tag TFetchReply = 10"
| "msg_tag TStore = 11"
| "msg_tag TStoreAck = 12"
| "msg_tag TMigrate = 13"
| "msg_tag TMigrateAck = 14"
| "msg_tag THeartbeat = 15"
| "msg_tag TError = 16"

definition msg_from_tag :: "u8 \<Rightarrow> msg_type result" where
  "msg_from_tag t =
     (if t = 1 then Inr TRegister
      else if t = 2 then Inr THello
      else if t = 3 then Inr TLookup
      else if t = 4 then Inr TLookupResult
      else if t = 5 then Inr TCreate
      else if t = 6 then Inr TCreateAck
      else if t = 7 then Inr TLeaseRenew
      else if t = 8 then Inr TLeaseGrant
      else if t = 9 then Inr TFetch
      else if t = 10 then Inr TFetchReply
      else if t = 11 then Inr TStore
      else if t = 12 then Inr TStoreAck
      else if t = 13 then Inr TMigrate
      else if t = 14 then Inr TMigrateAck
      else if t = 15 then Inr THeartbeat
      else if t = 16 then Inr TError
      else Inl (Protocol (''unknown message type '' @ show_w t)))"

datatype message =
    Register string string
  | Hello u64 string string string u64
  | Lookup string string u64 "u8 list"
  | LookupResult bool "string option" "string option" u64
  | Create string string u64 u64 "u8 list" string
  | CreateAck string u64 u64 string
  | LeaseRenew string u64
  | LeaseGrant string u64 u64 u64
  | Fetch string "u8 list"
  | FetchReply string "u8 list" u32
  | Store string string u64 "u8 list" u32 "u8 list" string
  | StoreAck string
  | Migrate string string string u64
  | MigrateAck string string u64
  | Heartbeat string u64
  | ErrorMsg string string

fun msg_type_of :: "message \<Rightarrow> msg_type" where
  "msg_type_of (Register _ _) = TRegister"
| "msg_type_of (Hello _ _ _ _ _) = THello"
| "msg_type_of (Lookup _ _ _ _) = TLookup"
| "msg_type_of (LookupResult _ _ _ _) = TLookupResult"
| "msg_type_of (Create _ _ _ _ _ _) = TCreate"
| "msg_type_of (CreateAck _ _ _ _) = TCreateAck"
| "msg_type_of (LeaseRenew _ _) = TLeaseRenew"
| "msg_type_of (LeaseGrant _ _ _ _) = TLeaseGrant"
| "msg_type_of (Fetch _ _) = TFetch"
| "msg_type_of (FetchReply _ _ _) = TFetchReply"
| "msg_type_of (Store _ _ _ _ _ _ _) = TStore"
| "msg_type_of (StoreAck _) = TStoreAck"
| "msg_type_of (Migrate _ _ _ _) = TMigrate"
| "msg_type_of (MigrateAck _ _ _) = TMigrateAck"
| "msg_type_of (Heartbeat _ _) = THeartbeat"
| "msg_type_of (ErrorMsg _ _) = TError"

section \<open>Message bodies\<close>

text \<open>The two optional fields of a lookup result have the form of \<open>write_opt_str\<close>.\<close>

fun msg_encode :: "message \<Rightarrow> u8 list" where
  "msg_encode (Register node_id addr) =
     w_str node_id @ w_str addr"
| "msg_encode (Hello epoch boot_id node_id addr lease_ns) =
     w_u64 epoch @ w_str boot_id @ w_str node_id @ w_str addr @ w_u64 lease_ns"
| "msg_encode (Lookup namespace key generation cpt) =
     w_str namespace @ w_str key @ w_u64 generation @ w_bytes cpt"
| "msg_encode (LookupResult found owner owner_addr generation) =
     w_bool found @ w_u64 generation @ write_opt_str owner @ write_opt_str owner_addr"
| "msg_encode (Create namespace key generation byte_len cpt node_id) =
     w_str namespace @ w_str key @ w_u64 generation @ w_u64 byte_len @ w_bytes cpt @ w_str node_id"
| "msg_encode (CreateAck object_id epoch fence owner) =
     w_str object_id @ w_u64 epoch @ w_u64 fence @ w_str owner"
| "msg_encode (LeaseRenew object_id fence) =
     w_str object_id @ w_u64 fence"
| "msg_encode (LeaseGrant object_id epoch fence expires_ns) =
     w_str object_id @ w_u64 epoch @ w_u64 fence @ w_u64 expires_ns"
| "msg_encode (Fetch object_id cpt) =
     w_str object_id @ w_bytes cpt"
| "msg_encode (FetchReply object_id data crc) =
     w_str object_id @ w_bytes data @ w_u32 crc"
| "msg_encode (Store namespace key generation data crc cpt source) =
     w_str namespace @ w_str key @ w_u64 generation @ w_bytes data @ w_u32 crc @ w_bytes cpt @ w_str source"
| "msg_encode (StoreAck object_id) =
     w_str object_id"
| "msg_encode (Migrate object_id new_owner new_owner_addr fence) =
     w_str object_id @ w_str new_owner @ w_str new_owner_addr @ w_u64 fence"
| "msg_encode (MigrateAck object_id new_owner fence) =
     w_str object_id @ w_str new_owner @ w_u64 fence"
| "msg_encode (Heartbeat node_id epoch) =
     w_str node_id @ w_u64 epoch"
| "msg_encode (ErrorMsg code message) =
     w_str code @ w_str message"

fun dec_body :: "msg_type \<Rightarrow> message parser" where
  "dec_body TRegister =
     p_then r_str (\<lambda>node_id. p_then r_str (\<lambda>addr. p_ret (Register node_id addr)))"
| "dec_body THello =
     p_then r_u64 (\<lambda>epoch. p_then r_str (\<lambda>boot_id. p_then r_str (\<lambda>node_id. p_then r_str (\<lambda>addr. p_then r_u64 (\<lambda>lease_ns. p_ret (Hello epoch boot_id node_id addr lease_ns))))))"
| "dec_body TLookup =
     p_then r_str (\<lambda>namespace. p_then r_str (\<lambda>key. p_then r_u64 (\<lambda>generation. p_then r_bytes (\<lambda>cpt. p_ret (Lookup namespace key generation cpt)))))"
| "dec_body TLookupResult =
     p_then r_bool (\<lambda>found. p_then r_u64 (\<lambda>generation. p_then read_opt_str (\<lambda>owner.
     p_then read_opt_str (\<lambda>owner_addr. p_ret (LookupResult found owner owner_addr generation)))))"
| "dec_body TCreate =
     p_then r_str (\<lambda>namespace. p_then r_str (\<lambda>key. p_then r_u64 (\<lambda>generation. p_then r_u64 (\<lambda>byte_len. p_then r_bytes (\<lambda>cpt. p_then r_str (\<lambda>node_id. p_ret (Create namespace key generation byte_len cpt node_id)))))))"
| "dec_body TCreateAck =
     p_then r_str (\<lambda>object_id. p_then r_u64 (\<lambda>epoch. p_then r_u64 (\<lambda>fence. p_then r_str (\<lambda>owner. p_ret (CreateAck object_id epoch fence owner)))))"
| "dec_body TLeaseRenew =
     p_then r_str (\<lambda>object_id. p_then r_u64 (\<lambda>fence. p_ret (LeaseRenew object_id fence)))"
| "dec_body TLeaseGrant =
     p_then r_str (\<lambda>object_id. p_then r_u64 (\<lambda>epoch. p_then r_u64 (\<lambda>fence. p_then r_u64 (\<lambda>expires_ns. p_ret (LeaseGrant object_id epoch fence expires_ns)))))"
| "dec_body TFetch =
     p_then r_str (\<lambda>object_id. p_then r_bytes (\<lambda>cpt. p_ret (Fetch object_id cpt)))"
| "dec_body TFetchReply =
     p_then r_str (\<lambda>object_id. p_then r_bytes (\<lambda>data. p_then r_u32 (\<lambda>crc. p_ret (FetchReply object_id data crc))))"
| "dec_body TStore =
     p_then r_str (\<lambda>namespace. p_then r_str (\<lambda>key. p_then r_u64 (\<lambda>generation. p_then r_bytes (\<lambda>data. p_then r_u32 (\<lambda>crc. p_then r_bytes (\<lambda>cpt. p_then r_str (\<lambda>source. p_ret (Store namespace key generation data crc cpt source))))))))"
| "dec_body TStoreAck =
     p_then r_str (\<lambda>object_id. p_ret (StoreAck object_id))"
| "dec_body TMigrate =
     p_then r_str (\<lambda>object_id. p_then r_str (\<lambda>new_owner. p_then r_str (\<lambda>new_owner_addr. p_then r_u64 (\<lambda>fence. p_ret (Migrate object_id new_owner new_owner_addr fence)))))"
| "dec_body TMigrateAck =
     p_then r_str (\<lambda>object_id. p_then r_str (\<lambda>new_owner. p_then r_u64 (\<lambda>fence. p_ret (MigrateAck object_id new_owner fence))))"
| "dec_body THeartbeat =
     p_then r_str (\<lambda>node_id. p_then r_u64 (\<lambda>epoch. p_ret (Heartbeat node_id epoch)))"
| "dec_body TError =
     p_then r_str (\<lambda>code. p_then r_str (\<lambda>message. p_ret (ErrorMsg code message)))"

definition msg_decode :: "msg_type \<Rightarrow> u8 list \<Rightarrow> message result" where
  "msg_decode t payload = and_then (dec_body t (rd_new payload)) (\<lambda>(m, r).
     if \<not> rd_eof r then Inl (Protocol ''trailing bytes in message'') else Inr m)"

text \<open>Strings of a message are UTF-8 and its vectors fit in memory.\<close>

fun msg_ok :: "message \<Rightarrow> bool" where
  "msg_ok (Register node_id addr) \<longleftrightarrow> rust_str node_id \<and> rust_str addr"
| "msg_ok (Hello _ boot_id node_id addr _) \<longleftrightarrow> rust_str boot_id \<and> rust_str node_id \<and> rust_str addr"
| "msg_ok (Lookup namespace key _ cpt) \<longleftrightarrow> rust_str namespace \<and> rust_str key \<and> fits cpt"
| "msg_ok (LookupResult _ owner owner_addr _) \<longleftrightarrow> opt_str_ok owner \<and> opt_str_ok owner_addr"
| "msg_ok (Create namespace key _ _ cpt node_id) \<longleftrightarrow> rust_str namespace \<and> rust_str key \<and> fits cpt \<and> rust_str node_id"
| "msg_ok (CreateAck object_id _ _ owner) \<longleftrightarrow> rust_str object_id \<and> rust_str owner"
| "msg_ok (LeaseRenew object_id _) \<longleftrightarrow> rust_str object_id"
| "msg_ok (LeaseGrant object_id _ _ _) \<longleftrightarrow> rust_str object_id"
| "msg_ok (Fetch object_id cpt) \<longleftrightarrow> rust_str object_id \<and> fits cpt"
| "msg_ok (FetchReply object_id data _) \<longleftrightarrow> rust_str object_id \<and> fits data"
| "msg_ok (Store namespace key _ data _ cpt source) \<longleftrightarrow> rust_str namespace \<and> rust_str key \<and> fits data \<and> fits cpt \<and> rust_str source"
| "msg_ok (StoreAck object_id) \<longleftrightarrow> rust_str object_id"
| "msg_ok (Migrate object_id new_owner new_owner_addr _) \<longleftrightarrow> rust_str object_id \<and> rust_str new_owner \<and> rust_str new_owner_addr"
| "msg_ok (MigrateAck object_id new_owner _) \<longleftrightarrow> rust_str object_id \<and> rust_str new_owner"
| "msg_ok (Heartbeat node_id _) \<longleftrightarrow> rust_str node_id"
| "msg_ok (ErrorMsg code message) \<longleftrightarrow> rust_str code \<and> rust_str message"

interpretation msg_type: tag_code msg_tag msg_from_tag
proof
  show "msg_from_tag c = Inr t \<longleftrightarrow> c = msg_tag t" for c t
    by (cases t) (auto simp: msg_from_tag_def)
qed

interpretation msg: codec msg_encode "dec_body t" "\<lambda>m. msg_ok m \<and> msg_type_of m = t" for t
proof
  show "dec_body t (Rd pre (msg_encode m @ rest)) = Inr (m, Rd (pre @ msg_encode m) rest)"
    if "msg_ok m \<and> msg_type_of m = t" for m pre rest
    using that by (cases m) (auto simp: reads)
  show "(msg_ok m \<and> msg_type_of m = t) \<and> (\<exists>rest. bs = msg_encode m @ rest \<and> r = Rd (pre @ msg_encode m) rest)"
    if "dec_body t (Rd pre bs) = Inr (m, r)" for pre bs m r
    using that by (cases t) (auto simp: parses)
qed

lemma msg_decode_encode: "msg_ok m \<Longrightarrow> msg_decode (msg_type_of m) (msg_encode m) = Inr m"
  by (simp add: msg_decode_def rd_new_Rd msg.dec_enc_last)

lemma msg_decode_sound: "msg_decode t bs = Inr m \<Longrightarrow> msg_ok m \<and> msg_type_of m = t \<and> bs = msg_encode m"
  by (auto simp: msg_decode_def rd_new_Rd and_then_Inr_iff dest!: msg.dec_sound split: prod.splits if_splits)

section \<open>Frames\<close>

text \<open>The length field is the low 32 bits of the payload length: the writer checks no bound.\<close>

definition frame_prefix :: "u8 \<Rightarrow> u8 list \<Rightarrow> u8 list" where
  "frame_prefix tag payload = le_bytes 4 MAGIC @ [VERSION, tag] @ le_bytes 4 (of_nat (length payload) :: u32)"

definition encode_frame :: "u8 \<Rightarrow> u8 list \<Rightarrow> u8 list" where
  "encode_frame tag payload =
     (let prefix = frame_prefix tag payload;
          crc = crc32c (prefix @ payload)
      in prefix @ le_bytes 4 crc @ [0, 0] @ payload)"

definition msg_encode_frame :: "message \<Rightarrow> u8 list" where
  "msg_encode_frame m = encode_frame (msg_tag (msg_type_of m)) (msg_encode m)"

subsection \<open>Sockets\<close>

datatype io_event = Chunk "u8 list" | Interrupted | IoError string

type_synonym stream = "io_event list"

datatype read_outcome = ReadOk "u8 list" | ReadInterrupted | ReadErr string

text \<open>One \<open>read\<close> into a buffer of \<open>k\<close> bytes; \<open>ReadOk []\<close> is the \<open>Ok(0)\<close> of end of file.\<close>

fun stream_read :: "nat \<Rightarrow> stream \<Rightarrow> read_outcome \<times> stream" where
  "stream_read k [] = (ReadOk [], [])"
| "stream_read k (Chunk bs # es) = (ReadOk (take k bs), if length bs \<le> k then es else Chunk (drop k bs) # es)"
| "stream_read k (Interrupted # es) = (ReadInterrupted, es)"
| "stream_read k (IoError m # es) = (ReadErr m, es)"

lemma stream_read_length: "length (snd (stream_read k es)) \<le> length es"
  by (cases "(k, es)" rule: stream_read.cases) auto

lemma stream_read_Interrupted: "stream_read k es = (ReadInterrupted, es') \<Longrightarrow> length es' < length es"
  by (cases "(k, es)" rule: stream_read.cases) auto

text \<open>The two read loops differ in what they make of an early end of file.\<close>

function read_exact_or_eof :: "nat \<Rightarrow> stream \<Rightarrow> u8 list result \<times> stream" where
  "read_exact_or_eof k es =
     (if k = 0 then (Inr [], es)
      else
        (case stream_read k es of
           (ReadOk bs, es') \<Rightarrow>
             if bs = [] then (Inr [], es')
             else
               (case read_exact_or_eof (k - length bs) es' of
                  (Inr rest, es'') \<Rightarrow> (Inr (bs @ rest), es'')
                | (Inl e, es'') \<Rightarrow> (Inl e, es''))
         | (ReadInterrupted, es') \<Rightarrow> read_exact_or_eof k es'
         | (ReadErr m, es') \<Rightarrow> (Inl (Io m), es')))"
  by pat_completeness auto

lemma read_progress:
  "k \<noteq> 0 \<Longrightarrow> stream_read k es = (ReadOk bs, es') \<Longrightarrow> bs \<noteq> [] \<Longrightarrow> k - length bs + length es' < k + length es"
proof -
  assume *: "k \<noteq> 0" "stream_read k es = (ReadOk bs, es')" "bs \<noteq> []"
  then have "length es' \<le> length es" using stream_read_length [of k es] by simp
  moreover have "k - length bs < k" using * by simp
  ultimately show ?thesis by linarith
qed

termination read_exact_or_eof
  by (relation "measure (\<lambda>(k, es). k + length es)")
     (auto intro: read_progress dest: stream_read_Interrupted sym)

declare read_exact_or_eof.simps [simp del]

function read_exact :: "nat \<Rightarrow> stream \<Rightarrow> u8 list result \<times> stream" where
  "read_exact k es =
     (if k = 0 then (Inr [], es)
      else
        (case stream_read k es of
           (ReadOk bs, es') \<Rightarrow>
             if bs = [] then (Inl (Protocol ''connection closed mid-frame''), es')
             else
               (case read_exact (k - length bs) es' of
                  (Inr rest, es'') \<Rightarrow> (Inr (bs @ rest), es'')
                | (Inl e, es'') \<Rightarrow> (Inl e, es''))
         | (ReadInterrupted, es') \<Rightarrow> read_exact k es'
         | (ReadErr m, es') \<Rightarrow> (Inl (Io m), es')))"
  by pat_completeness auto

termination read_exact
  by (relation "measure (\<lambda>(k, es). k + length es)")
     (auto intro: read_progress dest: stream_read_Interrupted sym)

declare read_exact.simps [simp del]

definition read_frame :: "stream \<Rightarrow> (msg_type \<times> u8 list) option result \<times> stream" where
  "read_frame =
     st_then (read_exact_or_eof HEADER_LEN) (\<lambda>head.
     if head = [] then Pair (Inr None)
     else if length head < HEADER_LEN then Pair (Inl (Protocol ''truncated frame header''))
     else if from_le (take 4 head) \<noteq> MAGIC then Pair (Inl (Protocol ''bad frame magic''))
     else if head ! 4 \<noteq> VERSION then Pair (Inl (Protocol (''bad frame version '' @ show_w (head ! 4))))
     else
       st_then (Pair (msg_from_tag (head ! 5))) (\<lambda>msg_type.
       let len = from_le (take 4 (drop 6 head)) :: u32 in
       if len > MAX_FRAME
       then Pair (Inl (Protocol (''frame length '' @ show_w len @ '' exceeds max '' @ show_w MAX_FRAME)))
       else
         st_then (read_exact (unat len)) (\<lambda>payload.
         if crc32c (take 10 head @ payload) \<noteq> from_le (take 4 (drop 10 head))
         then Pair (Inl (Protocol ''frame CRC mismatch''))
         else Pair (Inr (Some (msg_type, payload))))))"

text \<open>Writing: the bytes reach the peer's stream, or an I/O error cuts them short.\<close>

definition write_frame :: "(nat \<times> string) option \<Rightarrow> message \<Rightarrow> u8 list \<Rightarrow> unit result \<times> u8 list" where
  "write_frame fault msg out =
     (let frame = msg_encode_frame msg in
      case fault of
        None \<Rightarrow> (Inr (), out @ frame)
      | Some (n, m) \<Rightarrow> (Inl (Io m), out @ take n frame))"

section \<open>Reading what was written\<close>

text \<open>A stream without errors and its bytes.\<close>

definition event_ok :: "io_event \<Rightarrow> bool" where
  "event_ok e = (case e of Chunk bs \<Rightarrow> bs \<noteq> [] | Interrupted \<Rightarrow> True | IoError _ \<Rightarrow> False)"

abbreviation clean :: "stream \<Rightarrow> bool" where
  "clean es \<equiv> list_all event_ok es"

definition event_bytes :: "io_event \<Rightarrow> u8 list" where
  "event_bytes e = (case e of Chunk bs \<Rightarrow> bs | _ \<Rightarrow> [])"

abbreviation stream_bytes :: "stream \<Rightarrow> u8 list" where
  "stream_bytes es \<equiv> concat (map event_bytes es)"

lemma stream_read_clean:
  assumes "clean es" "0 < k" "stream_read k es = (out, es')"
  shows "clean es' \<and> (out = ReadInterrupted \<and> stream_bytes es' = stream_bytes es \<and> length es' < length es \<or>
    (\<exists>bs. out = ReadOk bs \<and> length bs \<le> k \<and> stream_bytes es = bs @ stream_bytes es' \<and> (bs = [] \<longrightarrow> es = [])))"
  using assms
  by (cases "(k, es)" rule: stream_read.cases) (auto simp: event_ok_def event_bytes_def split: if_splits)

lemma read_exact_or_eof_clean:
  assumes "clean es"
  shows "\<exists>es'. read_exact_or_eof k es = (Inr (take k (stream_bytes es)), es') \<and> clean es' \<and>
    stream_bytes es' = drop k (stream_bytes es)"
  using assms
proof (induction k es rule: read_exact_or_eof.induct)
  case (1 k es)
  show ?case
  proof (cases "k = 0")
    case True
    then show ?thesis using 1(3) by (simp add: read_exact_or_eof.simps)
  next
    case False
    obtain out es1 where r: "stream_read k es = (out, es1)" by fastforce
    from stream_read_clean [OF 1(3) _ r] False have c: "clean es1"
      and o: "out = ReadInterrupted \<and> stream_bytes es1 = stream_bytes es \<and> length es1 < length es \<or>
        (\<exists>bs. out = ReadOk bs \<and> length bs \<le> k \<and> stream_bytes es = bs @ stream_bytes es1 \<and> (bs = [] \<longrightarrow> es = []))"
      by auto
    from o show ?thesis
    proof (elim disjE exE conjE)
      assume "out = ReadInterrupted" "stream_bytes es1 = stream_bytes es"
      with 1(2) [OF False r [symmetric]] c r False show ?thesis
        by (simp add: read_exact_or_eof.simps [of k es])
    next
      fix bs assume b: "out = ReadOk bs" "length bs \<le> k" "stream_bytes es = bs @ stream_bytes es1" "bs = [] \<longrightarrow> es = []"
      show ?thesis
      proof (cases "bs = []")
        case True
        with b(4) have "es = []" by simp
        then show ?thesis using False by (simp add: read_exact_or_eof.simps [of k "[]"])
      next
        case nb: False
        from 1(1) [OF False r [symmetric] b(1) nb c] obtain es' where
          "read_exact_or_eof (k - length bs) es1 = (Inr (take (k - length bs) (stream_bytes es1)), es')" "clean es'"
          "stream_bytes es' = drop (k - length bs) (stream_bytes es1)" by blast
        with nb b r False show ?thesis by (simp add: read_exact_or_eof.simps [of k es])
      qed
    qed
  qed
qed

text \<open>\<open>read_exact\<close> is the other loop with a short result turned into an error.\<close>

lemma stream_read_le: "stream_read k es = (ReadOk bs, es') \<Longrightarrow> length bs \<le> k"
  by (cases "(k, es)" rule: stream_read.cases) (auto split: if_splits)

lemma read_exact_eq:
  "read_exact k es =
     (case read_exact_or_eof k es of
        (Inl e, es') \<Rightarrow> (Inl e, es')
      | (Inr bs, es') \<Rightarrow> (if length bs < k then Inl (Protocol ''connection closed mid-frame'') else Inr bs, es'))"
proof (induction k es rule: read_exact.induct)
  case (1 k es)
  show ?case
  proof (cases "k = 0")
    case False
    obtain out es1 where r: "stream_read k es = (out, es1)" by fastforce
    show ?thesis
    proof (cases out)
      case (ReadOk bs)
      then have le: "length bs \<le> k" using r stream_read_le by blast
      show ?thesis
      proof (cases "bs = []")
        case nb: False
        from 1(1) [OF False r [symmetric] ReadOk nb] nb ReadOk r False le show ?thesis
          by (auto simp: read_exact_or_eof.simps [of k es] read_exact.simps [of k es]
              split: prod.splits sum.splits)
      qed (use ReadOk r False in \<open>simp add: read_exact_or_eof.simps [of k es] read_exact.simps [of k es]\<close>)
    next
      case ReadInterrupted
      with 1(2) [OF False r [symmetric]] r False show ?thesis
        by (simp add: read_exact_or_eof.simps [of k es] read_exact.simps [of k es])
    qed (use r False in \<open>simp add: read_exact_or_eof.simps [of k es] read_exact.simps [of k es]\<close>)
  qed (simp add: read_exact_or_eof.simps [of 0 es] read_exact.simps [of 0 es])
qed

subsection \<open>Frames round trip\<close>

lemma length_frame_prefix [simp]: "length (frame_prefix tag payload) = 10"
  by (simp add: frame_prefix_def)

lemma frame_prefix_fields:
  "take 4 (frame_prefix tag payload @ xs) = le_bytes 4 MAGIC"
  "(frame_prefix tag payload @ xs) ! 4 = VERSION" "(frame_prefix tag payload @ xs) ! 5 = tag"
  "take 4 (drop 6 (frame_prefix tag payload @ xs)) = le_bytes 4 (of_nat (length payload) :: u32)"
  "take 4 (frame_prefix tag payload) = le_bytes 4 MAGIC"
  "drop 6 (frame_prefix tag payload) = le_bytes 4 (of_nat (length payload) :: u32)"
  by (simp_all add: frame_prefix_def nth_append)

text \<open>The header of a frame, the bytes before its payload.\<close>

definition frame_header :: "u8 \<Rightarrow> u8 list \<Rightarrow> u8 list" where
  "frame_header tag payload =
     frame_prefix tag payload @ le_bytes 4 (crc32c (frame_prefix tag payload @ payload)) @ [0, 0]"

lemma encode_frame_header: "encode_frame tag payload = frame_header tag payload @ payload"
  by (simp add: encode_frame_def frame_header_def Let_def)

lemma length_frame_header [simp]: "length (frame_header tag payload) = 16"
  by (simp add: frame_header_def)

lemma frame_header_nonempty: "frame_header tag payload \<noteq> []"
  using length_frame_header [of tag payload] by (metis list.size(3) zero_neq_numeral)

text \<open>What the reader does after a header with good magic, version, type and length: only the
  payload and its checksum remain.\<close>

lemma read_frame_body:
  assumes "clean es" "stream_bytes es = frame_header (msg_tag t) payload @ body @ rest"
    "length payload \<le> unat MAX_FRAME" "length body = length payload"
  shows "\<exists>es'. read_frame es =
      (if crc32c (frame_prefix (msg_tag t) payload @ body) = crc32c (frame_prefix (msg_tag t) payload @ payload)
       then Inr (Some (t, body)) else Inl (Protocol ''frame CRC mismatch''), es') \<and>
    clean es' \<and> stream_bytes es' = rest"
proof -
  let ?h = "frame_header (msg_tag t) payload" and ?p = "frame_prefix (msg_tag t) payload"
  have len: "unat (of_nat (length payload) :: u32) = length payload"
    using assms(3) by (intro unat_of_nat_fits) (simp add: MAX_FRAME_def)
  obtain es1 where h: "read_exact_or_eof 16 es = (Inr ?h, es1)" "clean es1" "stream_bytes es1 = body @ rest"
    using read_exact_or_eof_clean [OF assms(1), of 16] assms(2) by auto
  obtain es2 where b: "read_exact_or_eof (length payload) es1 = (Inr body, es2)" "clean es2" "stream_bytes es2 = rest"
    using read_exact_or_eof_clean [OF h(2), of "length payload"] h(3) assms(4) by auto
  have "read_exact (length payload) es1 = (Inr body, es2)"
    using b(1) assms(4) by (simp add: read_exact_eq)
  moreover have "from_le (take 4 ?h) = MAGIC" "?h ! 4 = VERSION" "?h ! 5 = msg_tag t" "?h \<noteq> []"
    "from_le (take 4 (drop 6 ?h)) = (of_nat (length payload) :: u32)" "take 10 ?h = ?p"
    "from_le (take 4 (drop 10 ?h)) = crc32c (?p @ payload)"
    by (simp_all add: frame_header_def frame_prefix_fields)
  moreover have "\<not> (of_nat (length payload) :: u32) > MAX_FRAME"
    using assms(3) len by (simp add: word_less_nat_alt)
  ultimately show ?thesis
    using h b(2,3) len by (simp add: read_frame_def st_then_def HEADER_LEN_def Let_def)
qed

lemma read_frame_written:
  assumes "clean es" "stream_bytes es = encode_frame (msg_tag t) payload @ rest" "length payload \<le> unat MAX_FRAME"
  shows "\<exists>es'. read_frame es = (Inr (Some (t, payload)), es') \<and> clean es' \<and> stream_bytes es' = rest"
  using read_frame_body [OF assms(1) _ assms(3) refl] assms(2) by (simp add: encode_frame_header)

lemma read_frame_corrupt:
  assumes "clean es" "stream_bytes es = (encode_frame (msg_tag t) payload)[16 + i := b] @ rest"
    "length payload \<le> unat MAX_FRAME" "i < length payload" "b \<noteq> payload ! i"
  shows "\<exists>es'. read_frame es = (Inl (Protocol ''frame CRC mismatch''), es')"
proof -
  let ?p = "frame_prefix (msg_tag t) payload"
  have "(encode_frame (msg_tag t) payload)[16 + i := b] = frame_header (msg_tag t) payload @ payload[i := b]"
    by (simp add: encode_frame_header list_update_append)
  then have "stream_bytes es = frame_header (msg_tag t) payload @ payload[i := b] @ rest" using assms(2) by simp
  from read_frame_body [OF assms(1) this assms(3)] obtain es' where r: "read_frame es =
      (if crc32c (?p @ payload[i := b]) = crc32c (?p @ payload)
       then Inr (Some (t, payload[i := b])) else Inl (Protocol ''frame CRC mismatch''), es')" by auto
  have "crc32c (?p @ payload[i := b]) \<noteq> crc32c (?p @ payload)"
  proof -
    have split: "payload = take i payload @ payload ! i # drop (Suc i) payload"
      "payload[i := b] = take i payload @ b # drop (Suc i) payload"
      using assms(4) by (simp_all add: id_take_nth_drop upd_conv_take_nth_drop)
    show ?thesis
      using crc32c_single_byte [of "?p @ take i payload" b "drop (Suc i) payload" "payload ! i"] assms(5) split by simp
  qed
  with r show ?thesis by auto
qed

lemma read_frame_eof: "clean es \<Longrightarrow> stream_bytes es = [] \<Longrightarrow> \<exists>es'. read_frame es = (Inr None, es')"
  using read_exact_or_eof_clean [of es 16] by (auto simp: read_frame_def st_then_def HEADER_LEN_def)

text \<open>A connection that closes inside a frame is an error, never a shorter message.\<close>

lemma read_frame_truncated:
  assumes "clean es" "stream_bytes es = take n (encode_frame (msg_tag t) payload)" "0 < n"
    "n < length (encode_frame (msg_tag t) payload)" "length payload \<le> unat MAX_FRAME"
  shows "\<exists>m es'. read_frame es = (Inl (Protocol m), es')"
proof -
  let ?h = "frame_header (msg_tag t) payload"
  have len: "unat (of_nat (length payload) :: u32) = length payload"
    using assms(5) by (intro unat_of_nat_fits) (simp add: MAX_FRAME_def)
  obtain es1 where h: "read_exact_or_eof 16 es = (Inr (take 16 (stream_bytes es)), es1)" "clean es1"
    "stream_bytes es1 = drop 16 (stream_bytes es)"
    using read_exact_or_eof_clean [OF assms(1), of 16] by auto
  show ?thesis
  proof (cases "n < 16")
    case True
    then have "stream_bytes es = take n ?h" using assms(2) by (simp add: encode_frame_header)
    then have "length (stream_bytes es) < 16" "stream_bytes es \<noteq> []"
      using True assms(3) by (auto simp flip: length_greater_0_conv simp del: length_concat)
    with h show ?thesis by (simp add: read_frame_def st_then_def HEADER_LEN_def)
  next
    case False
    then have bytes: "stream_bytes es = ?h @ take (n - 16) payload"
      using assms(2) by (simp add: encode_frame_header)
    have short: "n - 16 < length payload" using assms(4) False by (simp add: encode_frame_header)
    obtain es2 where "read_exact_or_eof (length payload) es1 = (Inr (take (n - 16) payload), es2)"
      using read_exact_or_eof_clean [OF h(2), of "length payload"] h(3) bytes short by auto
    then have "read_exact (length payload) es1 = (Inl (Protocol ''connection closed mid-frame''), es2)"
      using short by (simp add: read_exact_eq)
    moreover have "read_exact_or_eof 16 es = (Inr ?h, es1)" using h(1) bytes by simp
    moreover have "from_le (take 4 ?h) = MAGIC" "?h ! 4 = VERSION" "?h ! 5 = msg_tag t" "?h \<noteq> []"
      "from_le (take 4 (drop 6 ?h)) = (of_nat (length payload) :: u32)"
      by (simp_all add: frame_header_def frame_prefix_fields)
    moreover have "\<not> (of_nat (length payload) :: u32) > MAX_FRAME"
      using assms(5) len by (simp add: word_less_nat_alt)
    ultimately show ?thesis
      using len by (simp add: read_frame_def st_then_def HEADER_LEN_def Let_def)
  qed
qed

end
