(* ===== verification/Authority.thy ===== *)
theory Authority
  imports Sha256
begin

text \<open>
  \<^verbatim>\<open>authority.rs\<close>: epochs, boot identities, node identities and leases.  The clock reading and the
  process-wide counter that feed a boot identity are arguments.
\<close>

datatype epoch = Epoch (epoch_value: u64)

definition epoch_next :: "epoch \<Rightarrow> epoch" where
  "epoch_next e = Epoch (saturating_add (epoch_value e) 1)"

text \<open>Three xor-shifts spread the bits of the seed.\<close>

definition xorshift :: "u64 \<Rightarrow> u64" where
  "xorshift seed =
     (let x = seed;
          x = x XOR push_bit 13 x;
          x = x XOR drop_bit 7 x;
          x = x XOR push_bit 17 x
      in x)"

definition random_id :: "u64 \<Rightarrow> u64 \<Rightarrow> string" where
  "random_id now_ns c = hex (le_bytes 8 (xorshift (now_ns XOR word_rotl 17 c)))"

datatype boot_id = BootId (boot_str: string)

definition boot_new :: "u64 \<Rightarrow> u64 \<Rightarrow> boot_id" where
  "boot_new now_ns c = BootId (random_id now_ns c)"

datatype node_id = NodeId (node_str: string)

record lease =
  ls_owner :: node_id
  ls_epoch :: epoch
  ls_boot_id :: boot_id
  ls_fence :: u64
  ls_expires_ns :: u64

definition permits_mutation :: "lease \<Rightarrow> epoch \<Rightarrow> boot_id \<Rightarrow> u64 \<Rightarrow> u64 \<Rightarrow> bool" where
  "permits_mutation l current_epoch current_boot object_fence now_ns \<longleftrightarrow>
     ls_epoch l = current_epoch \<and> boot_str (ls_boot_id l) = boot_str current_boot \<and>
     ls_expires_ns l > now_ns \<and> ls_fence l \<ge> object_fence"

definition is_stale_authority :: "lease \<Rightarrow> epoch \<Rightarrow> boot_id \<Rightarrow> bool" where
  "is_stale_authority l current_epoch current_boot \<longleftrightarrow>
     ls_epoch l \<noteq> current_epoch \<or> boot_str (ls_boot_id l) \<noteq> boot_str current_boot"

section \<open>Leases\<close>

lemma permits_not_stale: "permits_mutation l e b f t \<Longrightarrow> \<not> is_stale_authority l e b"
  by (simp add: permits_mutation_def is_stale_authority_def)

text \<open>Authority only ever narrows: time passing and fences rising never make a refused lease good.\<close>

lemma permits_antimono:
  "permits_mutation l e b f t \<Longrightarrow> f' \<le> f \<Longrightarrow> t' \<le> t \<Longrightarrow> permits_mutation l e b f' t'"
  by (auto simp: permits_mutation_def)

lemma epoch_next_greater: "epoch_value e \<noteq> max_w \<Longrightarrow> epoch_value e < epoch_value (epoch_next e)"
  using unat_le_max_w [of "epoch_value e"] unat_max_w [where 'a = 64]
  by (auto simp: epoch_next_def word_less_nat_alt unat_saturating_add word_unat_eq_iff)

section \<open>Boot identities\<close>

lemma xor_shift_left_zero: "0 < k \<Longrightarrow> x XOR push_bit k x = 0 \<Longrightarrow> x = (0 :: 'a::len word)"
proof (rule bit_word_eqI)
  fix n assume k: "0 < k" and z: "x XOR push_bit k x = 0" and n: "n < LENGTH('a)"
  show "bit x n = bit (0 :: 'a word) n" using n
  proof (induction n rule: less_induct)
    case (less n)
    have "bit (x XOR push_bit k x) n = bit (0 :: 'a word) n" by (simp only: z)
    then have "bit x n = (k \<le> n \<and> bit x (n - k))"
      using less.prems by (auto simp: bit_simps)
    then show ?case using less.IH [of "n - k"] less.prems k by auto
  qed
qed

lemma xor_shift_right_zero: "0 < k \<Longrightarrow> x XOR drop_bit k x = 0 \<Longrightarrow> x = (0 :: 'a::len word)"
proof (rule bit_word_eqI)
  fix n assume k: "0 < k" and z: "x XOR drop_bit k x = 0" and n: "n < LENGTH('a)"
  show "bit x n = bit (0 :: 'a word) n" using n
  proof (induction "LENGTH('a) - n" arbitrary: n rule: less_induct)
    case less
    have "bit (x XOR drop_bit k x) n = bit (0 :: 'a word) n" by (simp only: z)
    then have *: "bit x n = bit x (k + n)" by (auto simp: bit_simps)
    show ?case
    proof (cases "k + n < LENGTH('a)")
      case True
      then show ?thesis using less.hyps [of "k + n"] k * by simp
    next
      case False
      then show ?thesis using * by (auto dest: bit_imp_le_length)
    qed
  qed
qed

lemma xor_linear_inj:
  assumes zero: "\<And>x. x XOR f x = 0 \<Longrightarrow> x = (0 :: 'a::len word)" and lin: "\<And>x y. f (x XOR y) = f x XOR f y"
  shows "x XOR f x = y XOR f y \<longleftrightarrow> x = y"
proof
  assume e: "x XOR f x = y XOR f y"
  have "(x XOR y) XOR f (x XOR y) = (x XOR f x) XOR (y XOR f y)"
    unfolding lin by (simp add: ac_simps)
  also have "\<dots> = 0" unfolding e by simp
  finally have "x XOR y = 0" by (rule zero)
  then have "x XOR y = x XOR x" by simp
  then show "x = y" by (simp only: xor_left_inject)
qed simp

lemma push_bit_inj: "0 < k \<Longrightarrow> x XOR push_bit k x = y XOR push_bit k y \<longleftrightarrow> x = (y :: 'a::len word)"
  by (rule xor_linear_inj) (auto intro: xor_shift_left_zero)

lemma drop_bit_inj: "0 < k \<Longrightarrow> x XOR drop_bit k x = y XOR drop_bit k y \<longleftrightarrow> x = (y :: 'a::len word)"
  by (rule xor_linear_inj) (auto intro: xor_shift_right_zero)

lemma xorshift_inject [simp]: "xorshift x = xorshift y \<longleftrightarrow> x = y"
  by (simp only: xorshift_def Let_def push_bit_inj [OF zero_less_numeral] drop_bit_inj [OF zero_less_numeral])

lemma random_id_inject: "random_id t c = random_id t' c' \<longleftrightarrow> t XOR word_rotl 17 c = t' XOR word_rotl 17 c'"
  by (simp add: random_id_def le_bytes_inject_u64)

lemma length_random_id: "length (random_id t c) = 16"
  by (simp add: random_id_def)

end
