(* ===== verification/Ident.thy ===== *)
theory Ident
  imports Compat
begin

text \<open>\<^verbatim>\<open>ident.rs\<close>: tensor addresses and the object identity derived from them.\<close>

record address =
  ad_namespace :: string
  ad_key :: string
  ad_generation :: u64

definition address_new :: "string \<Rightarrow> string \<Rightarrow> u64 \<Rightarrow> address" where
  "address_new namespace key generation = \<lparr>ad_namespace = namespace, ad_key = key, ad_generation = generation\<rparr>"

definition address_encode :: "address \<Rightarrow> u8 list" where
  "address_encode a = w_u8 1 @ w_str (ad_namespace a) @ w_str (ad_key a) @ w_u64 (ad_generation a)"

datatype object_id = ObjectId (oid_digest: digest)

definition object_id :: "address \<Rightarrow> object_id" where
  "object_id a = ObjectId (hash (address_encode a))"

definition address_display :: "address \<Rightarrow> string" where
  "address_display a = ad_namespace a @ '' / '' @ ad_key a @ '' @ gen'' @ show_w (ad_generation a)"

definition oid_to_hex :: "object_id \<Rightarrow> string" where
  "oid_to_hex i = to_hex (oid_digest i)"

definition oid_from_hex :: "string \<Rightarrow> object_id result" where
  "oid_from_hex s = and_then (parse_hex s) (\<lambda>bytes.
     if length bytes \<noteq> 32 then Inl (InvalidArgument ''object id must be 32 bytes'')
     else Inr (ObjectId (Digest bytes)))"

text \<open>A digest of the program has 32 bytes.\<close>

definition wf_oid :: "object_id \<Rightarrow> bool" where
  "wf_oid i \<longleftrightarrow> length (digest_bytes (oid_digest i)) = 32"

definition rust_address :: "address \<Rightarrow> bool" where
  "rust_address a \<longleftrightarrow> rust_str (ad_namespace a) \<and> rust_str (ad_key a)"

lemma address_encode_inject:
  "rust_address a \<Longrightarrow> rust_address b \<Longrightarrow> address_encode a = address_encode b \<longleftrightarrow> a = b"
  by (auto simp: address_encode_def rust_address_def prefixes u64.enc_inject)

lemma wf_object_id [simp]: "wf_oid (object_id a)"
  by (simp add: wf_oid_def object_id_def)

lemma oid_from_to_hex: "wf_oid i \<Longrightarrow> oid_from_hex (oid_to_hex i) = Inr i"
  by (cases i; cases "oid_digest i") (simp add: oid_from_hex_def oid_to_hex_def to_hex_def wf_oid_def)

lemma oid_to_hex_inject [simp]: "oid_to_hex i = oid_to_hex j \<longleftrightarrow> i = j"
  by (cases i; cases j) (simp add: oid_to_hex_def)

text \<open>An object id renders to plain ASCII.\<close>

lemma hex_ascii: "ascii (hex bs)"
proof -
  have "(of_char (HEX ! k) :: nat) < 128" if "k < 16" for k
  proof -
    have "\<forall>k \<in> set [0..<16]. (of_char (HEX ! k) :: nat) < 128" by code_simp
    with that show ?thesis by simp
  qed
  then show ?thesis
    by (induction bs) (simp_all add: ascii_def nibbles_small)
qed

lemma rust_str_oid: "wf_oid i \<Longrightarrow> rust_str (oid_to_hex i)"
  by (rule rust_str_ascii) (simp_all add: oid_to_hex_def to_hex_def hex_ascii wf_oid_def)

end
