(* ===== verification/Coordinator.thy ===== *)
theory Coordinator
  imports Protocol Authority Ident
begin

text \<open>
  \<^verbatim>\<open>coordinator.rs\<close>: the authority state machine and its snapshot.  Clock readings, the boot-identity
  counter, the iteration order of a hash map and the contents of the snapshot file are arguments.
  An error of \<open>handle\<close> leaves the state unchanged, so the handler returns the state beside its result.
\<close>

record object_state =
  os_owner :: string
  os_fence :: u64
  os_epoch :: epoch

record pending_migration =
  pm_new_owner :: string
  pm_to_fence :: u64

record coordinator =
  co_epoch :: epoch
  co_boot_id :: boot_id
  co_lease_ns :: u64
  co_nodes :: "string \<rightharpoonup> string"
  co_objects :: "string \<rightharpoonup> object_state"
  co_migrations :: "string \<rightharpoonup> pending_migration"

definition coord_new :: "boot_id \<Rightarrow> u64 \<Rightarrow> coordinator" where
  "coord_new boot lease_ns = \<lparr>co_epoch = Epoch 1, co_boot_id = boot, co_lease_ns = lease_ns,
     co_nodes = Map.empty, co_objects = Map.empty, co_migrations = Map.empty\<rparr>"

definition coord_restart :: "boot_id \<Rightarrow> coordinator \<Rightarrow> coordinator" where
  "coord_restart boot c = c\<lparr>co_epoch := epoch_next (co_epoch c), co_boot_id := boot\<rparr>"

section \<open>The snapshot\<close>

definition SNAPSHOT_MAGIC :: u32 where "SNAPSHOT_MAGIC = 0x5443434F"

definition enc_object :: "string \<times> string \<times> u64 \<Rightarrow> u8 list" where
  "enc_object o' = (case o' of (oid, owner, fence) \<Rightarrow> w_str oid @ w_str owner @ w_u64 fence)"

definition dec_object :: "(string \<times> string \<times> u64) parser" where
  "dec_object = p_then r_str (\<lambda>oid. p_then r_str (\<lambda>owner. p_then r_u64 (\<lambda>fence. p_ret (oid, owner, fence))))"

text \<open>\<open>order\<close> lists the object ids in the iteration order of the map.\<close>

definition snapshot_objects :: "string list \<Rightarrow> coordinator \<Rightarrow> (string \<times> string \<times> u64) list" where
  "snapshot_objects order c =
     map (\<lambda>oid. (oid, os_owner (the (co_objects c oid)), os_fence (the (co_objects c oid)))) order"

definition save_state :: "string list \<Rightarrow> coordinator \<Rightarrow> u8 list" where
  "save_state order c =
     w_u32 SNAPSHOT_MAGIC @ w_u8 1 @ w_u64 (epoch_value (co_epoch c)) @ w_list enc_object (snapshot_objects order c)"

definition dec_snapshot :: "(u64 \<times> (string \<times> string \<times> u64) list) parser" where
  "dec_snapshot =
     p_then r_u32 (\<lambda>magic.
     if magic \<noteq> SNAPSHOT_MAGIC then p_fail (Persistence ''bad coordinator snapshot magic'')
     else
     p_then r_u8 (\<lambda>version.
     if version \<noteq> 1 then p_fail (Persistence ''unsupported coordinator snapshot version'')
     else
     p_then r_u64 (\<lambda>epoch. p_then (r_list dec_object) (\<lambda>objects. p_ret (epoch, objects)))))"

text \<open>\<open>file\<close> is missing, unreadable or the bytes of the snapshot.\<close>

definition load_state :: "u8 list result option \<Rightarrow> boot_id \<Rightarrow> coordinator \<Rightarrow> unit result \<times> coordinator" where
  "load_state file boot c =
     (case file of
        None \<Rightarrow> (Inr (), c)
      | Some read \<Rightarrow>
          (case and_then read (\<lambda>bytes. and_then (dec_snapshot (rd_new bytes)) (\<lambda>(v, r).
                  if \<not> rd_eof r then Inl (Persistence ''trailing bytes in coordinator snapshot'') else Inr v)) of
             Inl e \<Rightarrow> (Inl e, c)
           | Inr (epoch, objects) \<Rightarrow>
               (Inr (), c\<lparr>co_objects := map_of (rev (map (\<lambda>(oid, owner, fence).
                             (oid, \<lparr>os_owner = owner, os_fence = fence, os_epoch = Epoch epoch\<rparr>)) objects)),
                          co_epoch := Epoch (saturating_add epoch 1), co_boot_id := boot\<rparr>)))"

definition coord_node_count :: "coordinator \<Rightarrow> nat" where
  "coord_node_count c = card (dom (co_nodes c))"

definition coord_object_count :: "coordinator \<Rightarrow> nat" where
  "coord_object_count c = card (dom (co_objects c))"

definition coord_object_id :: "string \<Rightarrow> string \<Rightarrow> u64 \<Rightarrow> string" where
  "coord_object_id namespace key generation = oid_to_hex (object_id (address_new namespace key generation))"

section \<open>The handler\<close>

fun handle :: "u64 \<Rightarrow> message \<Rightarrow> coordinator \<Rightarrow> message list result \<times> coordinator" where
  "handle now_ns (Register node_id addr) c =
     (let c = c\<lparr>co_nodes := (co_nodes c)(node_id \<mapsto> addr)\<rparr> in
      (Inr [Hello (epoch_value (co_epoch c)) (boot_str (co_boot_id c)) node_id addr (co_lease_ns c)], c))"
| "handle now_ns (Create namespace key generation _ _ node_id) c =
     (let oid = coord_object_id namespace key generation in
      case co_objects c oid of
        Some state \<Rightarrow>
          if os_owner state = node_id
          then (Inr [CreateAck oid (epoch_value (co_epoch c)) (os_fence state) node_id], c)
          else (Inl (Authority (''object '' @ oid @ '' already owned by '' @ os_owner state)), c)
      | None \<Rightarrow>
          (Inr [CreateAck oid (epoch_value (co_epoch c)) 0 node_id],
           c\<lparr>co_objects := (co_objects c)(oid \<mapsto> \<lparr>os_owner = node_id, os_fence = 0, os_epoch = co_epoch c\<rparr>)\<rparr>))"
| "handle now_ns (Lookup namespace key generation _) c =
     (let oid = coord_object_id namespace key generation in
      case co_objects c oid of
        Some state \<Rightarrow> (Inr [LookupResult True (Some (os_owner state)) (co_nodes c (os_owner state)) generation], c)
      | None \<Rightarrow> (Inr [LookupResult False None None generation], c))"
| "handle now_ns (LeaseRenew oid fence) c =
     (case co_objects c oid of
        Some state \<Rightarrow>
          if fence \<noteq> os_fence state
          then (Inl (Authority (''stale fence '' @ show_w fence @ '' for '' @ oid @ '' (current '' @
                  show_w (os_fence state) @ '')'')), c)
          else (Inr [LeaseGrant oid (epoch_value (co_epoch c)) (os_fence state) (now_ns + co_lease_ns c)], c)
      | None \<Rightarrow> (Inl (NotFound (''object '' @ oid)), c))"
| "handle now_ns (Migrate oid new_owner new_owner_addr fence) c =
     (case co_objects c oid of
        None \<Rightarrow> (Inl (NotFound (''object '' @ oid)), c)
      | Some state \<Rightarrow>
          if fence < os_fence state
          then (Inl (Authority (''stale fence '' @ show_w fence @ '' for '' @ oid)), c)
          else
            (let to_fence = os_fence state + 1;
                 target_addr = (case co_nodes c new_owner of Some a \<Rightarrow> a | None \<Rightarrow> new_owner_addr) in
             (Inr [Migrate oid new_owner target_addr to_fence],
              c\<lparr>co_migrations := (co_migrations c)(oid \<mapsto> \<lparr>pm_new_owner = new_owner, pm_to_fence = to_fence\<rparr>)\<rparr>)))"
| "handle now_ns (MigrateAck oid new_owner fence) c =
     (case co_migrations c oid of
        None \<Rightarrow> (Inl (Authority (''no pending migration for '' @ oid)), c)
      | Some pending \<Rightarrow>
          if pm_new_owner pending \<noteq> new_owner \<or> pm_to_fence pending \<noteq> fence
          then (Inl (Authority (''migration ack mismatch for '' @ oid)), c)
          else
            (let objects = (case co_objects c oid of
                   Some state \<Rightarrow> (co_objects c)(oid \<mapsto>
                     state\<lparr>os_owner := new_owner, os_fence := fence, os_epoch := co_epoch c\<rparr>)
                 | None \<Rightarrow> co_objects c) in
             (Inr [], c\<lparr>co_objects := objects, co_migrations := (co_migrations c)(oid := None)\<rparr>)))"
| "handle now_ns (Heartbeat _ _) c = (Inr [], c)"
| "handle now_ns msg c =
     (Inr [ErrorMsg ''unsupported'' (''coordinator does not handle '' @ show_w (msg_tag (msg_type_of msg)))], c)"

section \<open>Invariant\<close>

text \<open>A pending migration names an object and the next fence of that object; every string the state
  holds came from a message.\<close>

definition coord_inv :: "coordinator \<Rightarrow> bool" where
  "coord_inv c \<longleftrightarrow>
     (\<forall>oid p. co_migrations c oid = Some p \<longrightarrow> rust_str (pm_new_owner p) \<and>
        (\<exists>st. co_objects c oid = Some st \<and> pm_to_fence p = os_fence st + 1)) \<and>
     (\<forall>oid st. co_objects c oid = Some st \<longrightarrow> rust_str oid \<and> rust_str (os_owner st)) \<and>
     finite (dom (co_objects c))"

lemma rust_str_object_id: "rust_str (coord_object_id namespace key generation)"
  by (simp add: coord_object_id_def rust_str_oid)

lemma coord_new_inv: "coord_inv (coord_new boot lease)"
  by (simp add: coord_inv_def coord_new_def)

lemma coord_restart_inv: "coord_inv c \<Longrightarrow> coord_inv (coord_restart boot c)"
  by (simp add: coord_inv_def coord_restart_def)

lemma coord_inv_pending:
  assumes "coord_inv c" "co_migrations c oid = Some p"
  obtains st where "co_objects c oid = Some st" "pm_to_fence p = os_fence st + 1" "rust_str (pm_new_owner p)"
  using assms unfolding coord_inv_def by blast

lemma handle_MigrateAck_cases:
  assumes "coord_inv c" "handle now (MigrateAck oid new fence) c = (r, c')"
  obtains (refused) e where "r = Inl e" "c' = c"
  | (completed) st where "co_objects c oid = Some st" "fence = os_fence st + 1" "rust_str new" "r = Inr []"
    "co_migrations c oid = Some \<lparr>pm_new_owner = new, pm_to_fence = fence\<rparr>"
    "c' = c\<lparr>co_objects := (co_objects c)(oid \<mapsto> st\<lparr>os_owner := new, os_fence := fence, os_epoch := co_epoch c\<rparr>),
      co_migrations := (co_migrations c)(oid := None)\<rparr>"
proof (cases "co_migrations c oid")
  case None
  with assms(2) refused show thesis by auto
next
  case (Some p)
  obtain st where st: "co_objects c oid = Some st" "pm_to_fence p = os_fence st + 1" "rust_str (pm_new_owner p)"
    using coord_inv_pending [OF assms(1) Some] .
  show thesis
  proof (cases "pm_new_owner p \<noteq> new \<or> pm_to_fence p \<noteq> fence")
    case True
    with Some assms(2) refused show thesis by auto
  next
    case False
    then have "p = \<lparr>pm_new_owner = new, pm_to_fence = fence\<rparr>" by (cases p) simp
    with Some st assms(2) completed show thesis by (auto simp: Let_def)
  qed
qed

text \<open>What one message can do to the record of one object: nothing, create it, or complete its pending migration; and to the
  pending migration of one object: nothing, announce it, or end it.\<close>

lemma handle_object:
  assumes "coord_inv c" "handle now msg c = (r, c')"
  shows "co_objects c' oid = co_objects c oid \<or>
    (\<exists>namespace key generation len cpt node. msg = Create namespace key generation len cpt node \<and>
       oid = coord_object_id namespace key generation \<and> co_objects c oid = None \<and>
       co_objects c' oid = Some \<lparr>os_owner = node, os_fence = 0, os_epoch = co_epoch c\<rparr>) \<or>
    (\<exists>st new. msg = MigrateAck oid new (os_fence st + 1) \<and> co_objects c oid = Some st \<and>
       co_migrations c oid = Some \<lparr>pm_new_owner = new, pm_to_fence = os_fence st + 1\<rparr> \<and> r = Inr [] \<and>
       co_objects c' oid = Some (st\<lparr>os_owner := new, os_fence := os_fence st + 1, os_epoch := co_epoch c\<rparr>))"
proof (cases "\<exists>o' new fence. msg = MigrateAck o' new fence")
  case True
  then obtain o' new fence where m: "msg = MigrateAck o' new fence" by blast
  from assms(1) assms(2) [unfolded m] show ?thesis
    by (cases rule: handle_MigrateAck_cases) (auto simp: m)
next
  case False
  with assms show ?thesis
    by (cases msg) (auto simp: Let_def split: option.splits if_splits)
qed

lemma handle_pending:
  assumes "coord_inv c" "handle now msg c = (r, c')"
  shows "co_migrations c' oid = co_migrations c oid \<or>
    (\<exists>st new addr fence. msg = Migrate oid new addr fence \<and> co_objects c oid = Some st \<and> os_fence st \<le> fence \<and>
       co_migrations c' oid = Some \<lparr>pm_new_owner = new, pm_to_fence = os_fence st + 1\<rparr>) \<or>
    (\<exists>new fence. msg = MigrateAck oid new fence \<and> co_migrations c oid = Some \<lparr>pm_new_owner = new, pm_to_fence = fence\<rparr> \<and>
       co_migrations c' oid = None)"
proof (cases "\<exists>o' new fence. msg = MigrateAck o' new fence")
  case True
  then obtain o' new fence where m: "msg = MigrateAck o' new fence" by blast
  from assms(1) assms(2) [unfolded m] show ?thesis
    by (cases rule: handle_MigrateAck_cases) (auto simp: m)
next
  case False
  with assms show ?thesis
    by (cases msg) (auto simp: Let_def not_less split: option.splits if_splits)
qed

lemma handle_inv:
  assumes "coord_inv c" "msg_ok msg"
  shows "coord_inv (snd (handle now msg c))"
proof (cases msg)
  case (MigrateAck o' new fence)
  obtain r c' where h: "handle now msg c = (r, c')" by fastforce
  from assms(1) h [unfolded MigrateAck] have "coord_inv c'"
    by (cases rule: handle_MigrateAck_cases) (use assms(1) in \<open>auto simp: coord_inv_def\<close>)
  then show ?thesis by (simp add: h)
next
  case (Create ns key gen bl cp node)
  let ?id = "coord_object_id ns key gen"
  have "co_migrations c ?id = None" if "co_objects c ?id = None"
    using that coord_inv_pending [OF assms(1), of ?id] by (metis not_Some_eq)
  then show ?thesis
    using assms rust_str_object_id
    by (auto simp: Create coord_inv_def Let_def split: option.splits if_splits)
qed (use assms in \<open>auto simp: coord_inv_def Let_def split: option.splits if_splits\<close>)

text \<open>An error of the handler changes nothing.\<close>

lemma handle_error: "handle now msg c = (Inl e, c') \<Longrightarrow> c' = c"
  by (cases msg) (auto simp: Let_def split: option.splits if_splits)

section \<open>Snapshots\<close>

interpretation obj: codec enc_object dec_object "\<lambda>(oid, owner, fence). rust_str oid \<and> rust_str owner"
proof
  show "dec_object (Rd pre (enc_object v @ rest)) = Inr (v, Rd (pre @ enc_object v) rest)"
    if "case v of (oid, owner, fence) \<Rightarrow> rust_str oid \<and> rust_str owner" for v pre rest
    using that by (cases v) (simp add: dec_object_def enc_object_def reads)
  show "(case v of (oid, owner, fence) \<Rightarrow> rust_str oid \<and> rust_str owner) \<and>
      (\<exists>rest. bs = enc_object v @ rest \<and> r = Rd (pre @ enc_object v) rest)"
    if "dec_object (Rd pre bs) = Inr (v, r)" for pre bs v r
    using that by (auto simp: dec_object_def enc_object_def parses)
qed

interpretation objs: codec "w_list enc_object" "r_list dec_object"
  "\<lambda>vs. fits vs \<and> (\<forall>v \<in> set vs. case v of (oid, owner, fence) \<Rightarrow> rust_str oid \<and> rust_str owner)"
  by (rule codec_list [OF obj.codec_axioms])

definition snapshot_bytes :: "u64 \<times> (string \<times> string \<times> u64) list \<Rightarrow> u8 list" where
  "snapshot_bytes v = w_u32 SNAPSHOT_MAGIC @ w_u8 1 @ w_u64 (fst v) @ w_list enc_object (snd v)"

interpretation snap: codec snapshot_bytes dec_snapshot
  "\<lambda>(epoch, vs). fits vs \<and> (\<forall>v \<in> set vs. case v of (oid, owner, fence) \<Rightarrow> rust_str oid \<and> rust_str owner)"
proof
  fix v :: "u64 \<times> (string \<times> string \<times> u64) list" and pre bs rest r
  show "case v of (epoch, vs) \<Rightarrow> fits vs \<and> (\<forall>v \<in> set vs. case v of (oid, owner, fence) \<Rightarrow> rust_str oid \<and> rust_str owner) \<Longrightarrow>
      dec_snapshot (Rd pre (snapshot_bytes v @ rest)) = Inr (v, Rd (pre @ snapshot_bytes v) rest)"
    by (cases v) (simp add: dec_snapshot_def snapshot_bytes_def reads objs.then_enc)
  show "dec_snapshot (Rd pre bs) = Inr (v, r) \<Longrightarrow>
      (case v of (epoch, vs) \<Rightarrow> fits vs \<and> (\<forall>v \<in> set vs. case v of (oid, owner, fence) \<Rightarrow> rust_str oid \<and> rust_str owner)) \<and>
      (\<exists>rest. bs = snapshot_bytes v @ rest \<and> r = Rd (pre @ snapshot_bytes v) rest)"
    by (auto simp: dec_snapshot_def snapshot_bytes_def parses objs.then_iff split: if_splits)
qed

lemma save_state_snapshot: "save_state order c = snapshot_bytes (epoch_value (co_epoch c), snapshot_objects order c)"
  by (simp add: save_state_def snapshot_bytes_def)

lemma snapshot_objects_ok:
  assumes "coord_inv c" "set order = dom (co_objects c)" "fits order"
  shows "fits (snapshot_objects order c)"
    "\<forall>v \<in> set (snapshot_objects order c). case v of (oid, owner, fence) \<Rightarrow> rust_str oid \<and> rust_str owner"
  using assms by (auto simp: snapshot_objects_def fits_def coord_inv_def)

text \<open>A snapshot that lost its end is refused: no part of it is taken for the whole.\<close>

lemma load_cut:
  assumes "coord_inv c" "set order = dom (co_objects c)" "fits order" "n < length (save_state order c)"
  shows "\<exists>e. load_state (Some (Inr (take n (save_state order c)))) boot c0 = (Inl e, c0)"
proof (cases "dec_snapshot (rd_new (take n (save_state order c)))")
  case (Inl e)
  then show ?thesis by (simp add: load_state_def)
next
  case (Inr vr)
  obtain v r where vr: "vr = (v, r)" by fastforce
  obtain rest where v: "case v of (epoch, vs) \<Rightarrow> fits vs \<and> (\<forall>v \<in> set vs. case v of (oid, owner, fence) \<Rightarrow> rust_str oid \<and> rust_str owner)"
    "take n (save_state order c) = snapshot_bytes v @ rest"
    using snap.dec_sound [of "[]" "take n (save_state order c)" v r] Inr vr by (auto simp: rd_new_Rd)
  let ?v0 = "(epoch_value (co_epoch c), snapshot_objects order c)"
  have "snapshot_bytes ?v0 @ [] = snapshot_bytes v @ rest @ drop n (save_state order c)"
    using arg_cong [OF v(2), of "\<lambda>bs. bs @ drop n (save_state order c)"] by (simp add: save_state_snapshot)
  then have "drop n (save_state order c) = []"
    using snap.prefix_inject [of ?v0 v "[]" "rest @ drop n (save_state order c)"] v(1) snapshot_objects_ok [OF assms(1-3)] by simp
  with assms(4) show ?thesis by simp
qed

lemma load_save:
  assumes "coord_inv c" "distinct order" "set order = dom (co_objects c)" "fits order"
  shows "load_state (Some (Inr (save_state order c))) boot c0 =
    (Inr (), c0\<lparr>co_objects := (\<lambda>oid. map_option (\<lambda>st. st\<lparr>os_epoch := co_epoch c\<rparr>) (co_objects c oid)),
       co_epoch := epoch_next (co_epoch c), co_boot_id := boot\<rparr>)"
proof -
  let ?os = "snapshot_objects order c" and ?e = "epoch_value (co_epoch c)"
  have dec: "dec_snapshot (rd_new (save_state order c)) = Inr ((?e, ?os), Rd (save_state order c) [])"
    using snap.dec_enc_last [of "(?e, ?os)" "[]"] snapshot_objects_ok [OF assms(1,3,4)] by (simp add: save_state_snapshot rd_new_Rd)
  let ?f = "\<lambda>oid. \<lparr>os_owner = os_owner (the (co_objects c oid)), os_fence = os_fence (the (co_objects c oid)),
    os_epoch = Epoch ?e\<rparr>"
  have "map (\<lambda>(oid, owner, fence). (oid, \<lparr>os_owner = owner, os_fence = fence, os_epoch = Epoch ?e\<rparr>)) ?os =
      map (\<lambda>oid. (oid, ?f oid)) order"
    by (simp add: snapshot_objects_def)
  moreover have "map_of (rev (map (\<lambda>oid. (oid, ?f oid)) order)) = (\<lambda>oid. map_option (\<lambda>st. st\<lparr>os_epoch := co_epoch c\<rparr>) (co_objects c oid))"
  proof
    fix oid
    have "map_of (rev (map (\<lambda>oid. (oid, ?f oid)) order)) oid = (if oid \<in> set order then Some (?f oid) else None)"
      by (simp add: rev_map map_of_map_restrict [unfolded comp_def] restrict_map_def)
    then show "map_of (rev (map (\<lambda>oid. (oid, ?f oid)) order)) oid = map_option (\<lambda>st. st\<lparr>os_epoch := co_epoch c\<rparr>) (co_objects c oid)"
      using assms(3) by (cases "co_objects c oid") (auto simp: domIff)
  qed
  ultimately show ?thesis
    by (simp add: load_state_def dec epoch_next_def)
qed

section \<open>Runs\<close>

text \<open>
  What happens to a coordinator: a well-formed message arrives, it is restarted in place, or the
  process dies and a new one loads the snapshot written from the last state.  \<open>coord_run n\<close> counts
  the steps, which bounds every fence.
\<close>

inductive coord_step :: "coordinator \<Rightarrow> coordinator \<Rightarrow> bool" where
  message: "msg_ok msg \<Longrightarrow> handle now msg c = (r, c') \<Longrightarrow> coord_step c c'"
| restart: "coord_step c (coord_restart boot c)"
| reload: "distinct order \<Longrightarrow> set order = dom (co_objects c) \<Longrightarrow> fits order \<Longrightarrow>
    load_state (Some (Inr (save_state order c))) boot (coord_new boot0 lease) = (r, c') \<Longrightarrow> coord_step c c'"

inductive coord_run :: "nat \<Rightarrow> coordinator \<Rightarrow> coordinator \<Rightarrow> bool" where
  none: "coord_run 0 c c"
| more: "coord_run n c c' \<Longrightarrow> coord_step c' c'' \<Longrightarrow> coord_run (Suc n) c c''"

lemma coord_step_inv: "coord_step c c' \<Longrightarrow> coord_inv c \<Longrightarrow> coord_inv c'"
proof (induction rule: coord_step.induct)
  case (message msg now c r c')
  then show ?case using handle_inv [of c msg now] by simp
next
  case (reload order c boot boot0 lease r c')
  then show ?case
    using load_save [OF reload.prems reload.hyps(1-3), of boot "coord_new boot0 lease"]
    by (auto simp: coord_inv_def coord_new_def dom_map_option_comp [unfolded comp_def])
qed (rule coord_restart_inv)

text \<open>One step keeps owner and fence of an object, or raises its fence by one.\<close>

lemma coord_step_object:
  assumes "coord_step c c'" "coord_inv c" "co_objects c oid = Some st"
  shows "\<exists>st'. co_objects c' oid = Some st' \<and>
    (os_fence st' = os_fence st \<and> os_owner st' = os_owner st \<or> os_fence st' = os_fence st + 1)"
  using assms(1)
proof cases
  case (message msg now r)
  show ?thesis using handle_object [OF assms(2) message(2), of oid] assms(3) by auto
next
  case (restart boot)
  then show ?thesis using assms(3) by (simp add: coord_restart_def)
next
  case (reload order boot boot0 lease r)
  then show ?thesis
    using load_save [OF assms(2) reload(1-3), of boot "coord_new boot0 lease"] assms(3) by auto
qed

lemma coord_step_new_object:
  assumes "coord_step c c'" "coord_inv c" "co_objects c oid = None" "co_objects c' oid = Some st"
  shows "os_fence st = 0"
  using assms(1)
proof cases
  case (message msg now r)
  show ?thesis using handle_object [OF assms(2) message(2), of oid] assms(3,4) by auto
next
  case (restart boot)
  then show ?thesis using assms(3,4) by (simp add: coord_restart_def)
next
  case (reload order boot boot0 lease r)
  then show ?thesis
    using load_save [OF assms(2) reload(1-3), of boot "coord_new boot0 lease"] assms(3,4) by auto
qed

lemma coord_run_inv: "coord_run n c c' \<Longrightarrow> coord_inv c \<Longrightarrow> coord_inv c'"
  by (induction rule: coord_run.induct) (auto intro: coord_step_inv)

definition fences_le :: "nat \<Rightarrow> coordinator \<Rightarrow> bool" where
  "fences_le n c \<longleftrightarrow> (\<forall>oid st. co_objects c oid = Some st \<longrightarrow> unat (os_fence st) \<le> n)"

lemma unat_Suc_le: "unat (a + 1 :: 'a::len word) \<le> unat a + 1"
  using unat_add_fits [of a 1] unat_lt [of a]
  by (cases "unat a + 1 < 2 ^ LENGTH('a)") (auto simp: unat_word_ariths intro: order_trans [OF mod_less_eq_dividend])

lemma coord_step_fences: "coord_step c c' \<Longrightarrow> coord_inv c \<Longrightarrow> fences_le n c \<Longrightarrow> fences_le (Suc n) c'"
proof -
  assume s: "coord_step c c'" and i: "coord_inv c" and f: "fences_le n c"
  show ?thesis
    unfolding fences_le_def
  proof (intro allI impI)
    fix oid st' assume st': "co_objects c' oid = Some st'"
    show "unat (os_fence st') \<le> Suc n"
    proof (cases "co_objects c oid")
      case None
      then show ?thesis using coord_step_new_object [OF s i None st'] by simp
    next
      case (Some st)
      then have "unat (os_fence st) \<le> n" using f by (auto simp: fences_le_def)
      then show ?thesis
        using coord_step_object [OF s i Some] st' unat_Suc_le [of "os_fence st"] by auto
    qed
  qed
qed

lemma coord_run_fences:
  "coord_run m c c' \<Longrightarrow> coord_inv c \<Longrightarrow> fences_le n c \<Longrightarrow> fences_le (n + m) c'"
  by (induction rule: coord_run.induct) (auto intro: coord_step_fences coord_run_inv)

text \<open>Fencing: along a run a fence never falls, and as long as it stays the same so does the owner.\<close>

lemma coord_run_fencing:
  assumes "coord_run m c c'" "coord_inv c" "fences_le n c" "n + m < 2 ^ 64" "co_objects c oid = Some st"
  shows "\<exists>st'. co_objects c' oid = Some st' \<and> os_fence st \<le> os_fence st' \<and>
    (os_fence st' = os_fence st \<longrightarrow> os_owner st' = os_owner st)"
  using assms
proof (induction rule: coord_run.induct)
  case (more m c c' c'')
  then obtain st' where st': "co_objects c' oid = Some st'" "os_fence st \<le> os_fence st'"
    "os_fence st' = os_fence st \<longrightarrow> os_owner st' = os_owner st" by auto
  have i: "coord_inv c'" using more.hyps(1) more.prems(1) by (rule coord_run_inv)
  have "fences_le (n + m) c'" using more.hyps(1) more.prems(1,2) by (rule coord_run_fences)
  then have "unat (os_fence st') + unat (1 :: u64) < 2 ^ 64"
    using st'(1) more.prems(3) by (fastforce simp: fences_le_def)
  then have u: "unat (os_fence st' + 1) = unat (os_fence st') + 1" by (simp add: unat_add_fits)
  from coord_step_object [OF more.hyps(2) i st'(1)] obtain st'' where st'': "co_objects c'' oid = Some st''"
    "os_fence st'' = os_fence st' \<and> os_owner st'' = os_owner st' \<or> os_fence st'' = os_fence st' + 1" by blast
  from st''(2) show ?case
  proof
    assume "os_fence st'' = os_fence st' \<and> os_owner st'' = os_owner st'"
    with st' st''(1) show ?thesis by auto
  next
    assume "os_fence st'' = os_fence st' + 1"
    with st'(2) u have "os_fence st < os_fence st''" by (simp add: word_less_nat_alt word_le_nat_alt)
    with st''(1) show ?thesis by auto
  qed
qed auto

end
