(* ===== verification/Tiers.thy ===== *)
theory Tiers
  imports Errors
begin

text \<open>\<^verbatim>\<open>tiers.rs\<close>, \<^verbatim>\<open>residency.rs\<close> and the backend identifiers of \<^verbatim>\<open>backend.rs\<close>.\<close>

record backend_id =
  bi_name :: string
  bi_device :: usize

definition backend_cpu :: "usize \<Rightarrow> backend_id" where
  "backend_cpu device = \<lparr>bi_name = ''cpu'', bi_device = device\<rparr>"

definition backend_cuda :: "usize \<Rightarrow> backend_id" where
  "backend_cuda device = \<lparr>bi_name = ''cuda'', bi_device = device\<rparr>"

definition backend_display :: "backend_id \<Rightarrow> string" where
  "backend_display b = bi_name b @ ''/'' @ show_w (bi_device b)"

datatype tier = Accelerator backend_id | Host | Persistent

datatype tier_kind = KAccelerator | KHost | KPersistent

fun kind_of :: "tier \<Rightarrow> tier_kind" where
  "kind_of (Accelerator _) = KAccelerator"
| "kind_of Host = KHost"
| "kind_of Persistent = KPersistent"

fun is_accelerator :: "tier \<Rightarrow> bool" where
  "is_accelerator (Accelerator _) = True"
| "is_accelerator _ = False"

fun tier_label :: "tier \<Rightarrow> string" where
  "tier_label (Accelerator b) = ''accelerator/'' @ backend_display b"
| "tier_label Host = ''host''"
| "tier_label Persistent = ''persistent''"

datatype residency = Absent | RAccelerator | RHost | RPersistent | MultiResident

record move_flags =
  mf_migrating :: bool
  mf_restoring :: bool
  mf_evicting :: bool
  mf_quarantined :: bool
  mf_invalid :: bool

definition move_flags_default :: move_flags where
  "move_flags_default = \<lparr>mf_migrating = False, mf_restoring = False, mf_evicting = False,
     mf_quarantined = False, mf_invalid = False\<rparr>"

definition healthy :: "move_flags \<Rightarrow> bool" where
  "healthy f \<longleftrightarrow> \<not> mf_quarantined f \<and> \<not> mf_invalid f"

fun classify :: "tier list \<Rightarrow> residency" where
  "classify [] = Absent"
| "classify [t] = (case kind_of t of KAccelerator \<Rightarrow> RAccelerator | KHost \<Rightarrow> RHost | KPersistent \<Rightarrow> RPersistent)"
| "classify _ = MultiResident"

definition is_resident :: "tier list \<Rightarrow> tier \<Rightarrow> bool" where
  "is_resident placements t \<longleftrightarrow> list_ex (\<lambda>p. p = t) placements"

definition any_present :: "tier list \<Rightarrow> bool" where
  "any_present placements \<longleftrightarrow> placements \<noteq> []"

lemma classify_Absent_iff: "classify ps = Absent \<longleftrightarrow> \<not> any_present ps"
  by (cases ps rule: classify.cases) (auto simp: any_present_def split: tier_kind.splits)

lemma is_resident_iff [simp]: "is_resident ps t \<longleftrightarrow> t \<in> set ps"
  by (auto simp: is_resident_def list_ex_iff)

lemma kind_of_simps [simp]:
  "kind_of t = KHost \<longleftrightarrow> t = Host" "kind_of t = KPersistent \<longleftrightarrow> t = Persistent"
  "kind_of t = KAccelerator \<longleftrightarrow> is_accelerator t"
  by (cases t; simp)+

end
