(* ===== verification/Accounting.thy ===== *)
theory Accounting
  imports Tiers
begin

text \<open>
  \<^verbatim>\<open>accounting.rs\<close>: byte budgets per tier, with reservations.  Every operation takes the budget and
  returns a result together with the budget it leaves, since \<open>commit_reserve\<close> has already lowered
  the reservation when its second half can still fail.  The abstract specification is a ledger of
  natural numbers, which the operations implement on every budget; the sum of used and reserved bytes stays
  within the capacity as long as nothing is added or reserved beyond the free bytes.
\<close>

section \<open>One budget\<close>

record budget =
  bu_capacity :: u64
  bu_used :: u64
  bu_reserved :: u64

definition budget_default :: budget where
  "budget_default = \<lparr>bu_capacity = 0, bu_used = 0, bu_reserved = 0\<rparr>"

definition budget_free :: "budget \<Rightarrow> u64" where
  "budget_free b = saturating_sub (bu_capacity b) (saturating_add (bu_used b) (bu_reserved b))"

definition set_capacity :: "u64 \<Rightarrow> budget \<Rightarrow> budget" where
  "set_capacity cap b = b\<lparr>bu_capacity := cap\<rparr>"

definition add_used :: "u64 \<Rightarrow> budget \<Rightarrow> unit result \<times> budget" where
  "add_used n b =
     (case checked_add (bu_used b) n of
        None \<Rightarrow> (Inl (AccountingErr ''tier byte usage overflow''), b)
      | Some next \<Rightarrow>
          if next > bu_capacity b
          then (Inl (AccountingErr (''tier capacity overshoot: used '' @ show_w (bu_used b) @ '' + '' @ show_w n @
                  '' > '' @ show_w (bu_capacity b))), b)
          else (Inr (), b\<lparr>bu_used := next\<rparr>))"

definition sub_used :: "u64 \<Rightarrow> budget \<Rightarrow> unit result \<times> budget" where
  "sub_used n b =
     (if n > bu_used b
      then (Inl (AccountingErr (''tier byte underflow: remove '' @ show_w n @ '' > used '' @ show_w (bu_used b))), b)
      else (Inr (), b\<lparr>bu_used := bu_used b - n\<rparr>))"

definition budget_reserve :: "u64 \<Rightarrow> budget \<Rightarrow> unit result \<times> budget" where
  "budget_reserve n b =
     (case checked_add (bu_reserved b) n of
        None \<Rightarrow> (Inl (AccountingErr ''tier reservation overflow''), b)
      | Some next_reserved \<Rightarrow>
          if saturating_add (bu_used b) next_reserved > bu_capacity b
          then (Inl (AccountingErr (''tier reservation would overshoot: used '' @ show_w (bu_used b) @
                  '' + reserved '' @ show_w (bu_reserved b) @ '' + '' @ show_w n @ '' > '' @ show_w (bu_capacity b))), b)
          else (Inr (), b\<lparr>bu_reserved := next_reserved\<rparr>))"

definition budget_commit :: "u64 \<Rightarrow> budget \<Rightarrow> unit result \<times> budget" where
  "budget_commit n b =
     (if n > bu_reserved b then (Inl (AccountingErr ''commit exceeds reservation''), b)
      else add_used n (b\<lparr>bu_reserved := bu_reserved b - n\<rparr>))"

definition budget_cancel :: "u64 \<Rightarrow> budget \<Rightarrow> unit result \<times> budget" where
  "budget_cancel n b =
     (if n > bu_reserved b then (Inl (AccountingErr ''cancel exceeds reservation''), b)
      else (Inr (), b\<lparr>bu_reserved := bu_reserved b - n\<rparr>))"

section \<open>All tiers\<close>

record accounting =
  ac_accel :: budget
  ac_host :: budget
  ac_storage :: budget
  ac_objects :: u64
  ac_blocks :: u64
  ac_replicas :: u64

definition accounting_new :: accounting where
  "accounting_new = \<lparr>ac_accel = budget_default, ac_host = budget_default, ac_storage = budget_default,
     ac_objects = 0, ac_blocks = 0, ac_replicas = 0\<rparr>"

fun budget_of :: "tier_kind \<Rightarrow> accounting \<Rightarrow> budget" where
  "budget_of KAccelerator a = ac_accel a"
| "budget_of KHost a = ac_host a"
| "budget_of KPersistent a = ac_storage a"

fun upd_budget :: "tier_kind \<Rightarrow> budget \<Rightarrow> accounting \<Rightarrow> accounting" where
  "upd_budget KAccelerator b a = a\<lparr>ac_accel := b\<rparr>"
| "upd_budget KHost b a = a\<lparr>ac_host := b\<rparr>"
| "upd_budget KPersistent b a = a\<lparr>ac_storage := b\<rparr>"

text \<open>Each method of \<open>Accounting\<close> dispatches on the tier kind to the budget's method.\<close>

definition on_tier :: "tier_kind \<Rightarrow> (budget \<Rightarrow> unit result \<times> budget) \<Rightarrow> accounting \<Rightarrow> unit result \<times> accounting" where
  "on_tier k f a = (let (r, b) = f (budget_of k a) in (r, upd_budget k b a))"

definition set_tier_capacity :: "tier_kind \<Rightarrow> u64 \<Rightarrow> accounting \<Rightarrow> accounting" where
  "set_tier_capacity k cap a = upd_budget k (set_capacity cap (budget_of k a)) a"

definition acct_capacity :: "tier_kind \<Rightarrow> accounting \<Rightarrow> u64" where
  "acct_capacity k a = bu_capacity (budget_of k a)"

definition acct_used :: "tier_kind \<Rightarrow> accounting \<Rightarrow> u64" where
  "acct_used k a = bu_used (budget_of k a)"

definition acct_reserved :: "tier_kind \<Rightarrow> accounting \<Rightarrow> u64" where
  "acct_reserved k a = bu_reserved (budget_of k a)"

definition acct_free :: "tier_kind \<Rightarrow> accounting \<Rightarrow> u64" where
  "acct_free k a = budget_free (budget_of k a)"

definition add_bytes :: "tier_kind \<Rightarrow> u64 \<Rightarrow> accounting \<Rightarrow> unit result \<times> accounting" where
  "add_bytes k n = on_tier k (add_used n)"

definition sub_bytes :: "tier_kind \<Rightarrow> u64 \<Rightarrow> accounting \<Rightarrow> unit result \<times> accounting" where
  "sub_bytes k n = on_tier k (sub_used n)"

definition acct_reserve :: "tier_kind \<Rightarrow> u64 \<Rightarrow> accounting \<Rightarrow> unit result \<times> accounting" where
  "acct_reserve k n = on_tier k (budget_reserve n)"

definition commit_reserve :: "tier_kind \<Rightarrow> u64 \<Rightarrow> accounting \<Rightarrow> unit result \<times> accounting" where
  "commit_reserve k n = on_tier k (budget_commit n)"

definition cancel_reserve :: "tier_kind \<Rightarrow> u64 \<Rightarrow> accounting \<Rightarrow> unit result \<times> accounting" where
  "cancel_reserve k n = on_tier k (budget_cancel n)"

definition set_object_count :: "u64 \<Rightarrow> accounting \<Rightarrow> accounting" where
  "set_object_count n a = a\<lparr>ac_objects := n\<rparr>"

definition set_block_count :: "u64 \<Rightarrow> accounting \<Rightarrow> accounting" where
  "set_block_count n a = a\<lparr>ac_blocks := n\<rparr>"

definition set_replica_count :: "u64 \<Rightarrow> accounting \<Rightarrow> accounting" where
  "set_replica_count n a = a\<lparr>ac_replicas := n\<rparr>"

definition total_bytes :: "accounting \<Rightarrow> u64" where
  "total_bytes a = saturating_add (saturating_add (bu_used (ac_accel a)) (bu_used (ac_host a))) (bu_used (ac_storage a))"

section \<open>The abstract ledger\<close>

text \<open>Used and reserved bytes as natural numbers.  An operation says whether it accepts, and the ledger it leaves.\<close>

record ledger =
  lg_capacity :: nat
  lg_used :: nat
  lg_reserved :: nat

definition ledger_of :: "budget \<Rightarrow> ledger" where
  "ledger_of b = \<lparr>lg_capacity = unat (bu_capacity b), lg_used = unat (bu_used b), lg_reserved = unat (bu_reserved b)\<rparr>"

definition lg_add :: "nat \<Rightarrow> ledger \<Rightarrow> bool \<times> ledger" where
  "lg_add n l = (if lg_used l + n \<le> lg_capacity l then (True, l\<lparr>lg_used := lg_used l + n\<rparr>) else (False, l))"

definition lg_sub :: "nat \<Rightarrow> ledger \<Rightarrow> bool \<times> ledger" where
  "lg_sub n l = (if n \<le> lg_used l then (True, l\<lparr>lg_used := lg_used l - n\<rparr>) else (False, l))"

text \<open>A capacity of \<open>u64::MAX\<close> limits reservations only by the width of their counter.\<close>

definition lg_reserve :: "nat \<Rightarrow> ledger \<Rightarrow> bool \<times> ledger" where
  "lg_reserve n l =
     (if lg_used l + lg_reserved l + n \<le> lg_capacity l \<or> lg_capacity l = 2 ^ 64 - 1 \<and> lg_reserved l + n < 2 ^ 64
      then (True, l\<lparr>lg_reserved := lg_reserved l + n\<rparr>) else (False, l))"

text \<open>A commit that does not fit is refused and the reservation is gone.\<close>

definition lg_commit :: "nat \<Rightarrow> ledger \<Rightarrow> bool \<times> ledger" where
  "lg_commit n l =
     (if lg_reserved l < n then (False, l)
      else if lg_used l + n \<le> lg_capacity l then (True, l\<lparr>lg_reserved := lg_reserved l - n, lg_used := lg_used l + n\<rparr>)
      else (False, l\<lparr>lg_reserved := lg_reserved l - n\<rparr>))"

definition lg_cancel :: "nat \<Rightarrow> ledger \<Rightarrow> bool \<times> ledger" where
  "lg_cancel n l = (if n \<le> lg_reserved l then (True, l\<lparr>lg_reserved := lg_reserved l - n\<rparr>) else (False, l))"

definition within :: "ledger \<Rightarrow> bool" where
  "within l \<longleftrightarrow> lg_used l + lg_reserved l \<le> lg_capacity l"

definition budget_inv :: "budget \<Rightarrow> bool" where
  "budget_inv b \<longleftrightarrow> unat (bu_used b) + unat (bu_reserved b) \<le> unat (bu_capacity b)"

definition accounting_inv :: "accounting \<Rightarrow> bool" where
  "accounting_inv a \<longleftrightarrow> budget_inv (ac_accel a) \<and> budget_inv (ac_host a) \<and> budget_inv (ac_storage a)"

lemma budget_inv_within: "budget_inv b \<longleftrightarrow> within (ledger_of b)"
  by (simp add: budget_inv_def within_def ledger_of_def)

section \<open>Refinement\<close>

text \<open>The contract of a budget operation: on every budget it accepts exactly what the ledger accepts and leaves what the
  ledger leaves, and its errors are accounting errors.\<close>

locale ledger_op =
  fixes op :: "u64 \<Rightarrow> budget \<Rightarrow> unit result \<times> budget"
    and spec :: "nat \<Rightarrow> ledger \<Rightarrow> bool \<times> ledger"
  assumes refines: "(is_ok (fst (op n b)), ledger_of (snd (op n b))) = spec (unat n) (ledger_of b)"
    and refuses: "op n b = (Inl e, b') \<Longrightarrow> \<exists>m. e = AccountingErr m"
begin

lemma accepts: "spec (unat n) (ledger_of b) = (True, l) \<Longrightarrow> \<exists>b'. op n b = (Inr (), b') \<and> ledger_of b' = l"
  using refines [of n b] by (cases "op n b"; cases "fst (op n b)") simp_all

lemma ok_ledger: "op n b = (Inr u, b') \<Longrightarrow> spec (unat n) (ledger_of b) = (True, ledger_of b')"
  using refines [of n b] by simp

lemma error_ledger: "op n b = (Inl e, b') \<Longrightarrow> spec (unat n) (ledger_of b) = (False, ledger_of b')"
  using refines [of n b] by simp

end

text \<open>Operations that keep the sum of used and reserved bytes within the capacity.\<close>

locale safe_ledger_op = ledger_op +
  assumes spec_safe: "within l \<Longrightarrow> within (snd (spec k l)) \<and> lg_capacity (snd (spec k l)) = lg_capacity l"
begin

lemma keeps_inv: "budget_inv b \<Longrightarrow> budget_inv (snd (op n b))"
  using spec_safe [of "ledger_of b" "unat n"] by (simp add: budget_inv_within flip: refines)

lemma keeps_accounting_inv: "accounting_inv a \<Longrightarrow> accounting_inv (snd (on_tier k (op n) a))"
  using keeps_inv [of "budget_of k a" n]
  by (cases k) (auto simp: accounting_inv_def on_tier_def split: prod.splits)

end

lemma budget_eqI: "ledger_of b = ledger_of c \<Longrightarrow> b = c"
  by (simp add: ledger_of_def word_unat_eq_iff)

lemmas ledger_defs = ledger_of_def within_def checked_add_def word_less_nat_alt word_nat

interpretation sub: safe_ledger_op sub_used lg_sub
  by unfold_locales (auto simp: sub_used_def lg_sub_def ledger_defs word_le_nat_alt split: if_splits)

interpretation cancel: safe_ledger_op budget_cancel lg_cancel
  by unfold_locales (auto simp: budget_cancel_def lg_cancel_def ledger_defs word_le_nat_alt split: if_splits)

text \<open>\<open>add_used\<close> and \<open>reserve\<close> implement their specifications but are not safe: the first ignores reservations, and the
  second has no limit when the capacity is the largest number.\<close>

interpretation add: ledger_op add_used lg_add
proof
  show "(is_ok (fst (add_used n b)), ledger_of (snd (add_used n b))) = lg_add (unat n) (ledger_of b)" for n b
    using unat_lt [of "bu_capacity b"] by (auto simp: add_used_def lg_add_def ledger_defs)
qed (auto simp: add_used_def split: option.splits if_splits)

interpretation rsv: ledger_op budget_reserve lg_reserve
proof
  show "(is_ok (fst (budget_reserve n b)), ledger_of (snd (budget_reserve n b))) = lg_reserve (unat n) (ledger_of b)" for n b
    using unat_lt [of "bu_capacity b"] by (auto simp: budget_reserve_def lg_reserve_def ledger_defs min_def)
qed (auto simp: budget_reserve_def split: option.splits if_splits)

interpretation commit: safe_ledger_op budget_commit lg_commit
proof
  show "(is_ok (fst (budget_commit n b)), ledger_of (snd (budget_commit n b))) = lg_commit (unat n) (ledger_of b)" for n b
  proof (cases "n > bu_reserved b")
    case False
    then have "unat n \<le> unat (bu_reserved b)" by (simp add: word_le_nat_alt not_less)
    with False add.refines [of n "b\<lparr>bu_reserved := bu_reserved b - n\<rparr>"] show ?thesis
      by (auto simp: budget_commit_def lg_commit_def lg_add_def ledger_of_def unat_sub_fits split: if_splits)
  qed (simp add: budget_commit_def lg_commit_def ledger_of_def word_less_nat_alt)
  show "\<exists>m. e = AccountingErr m" if "budget_commit n b = (Inl e, b')" for n b e b'
    using that add.refuses by (auto simp: budget_commit_def split: if_splits)
qed (auto simp: lg_commit_def within_def)

text \<open>Within the capacity a refused commit asks for more than is reserved, and changes nothing.\<close>

lemma commit_refused: "budget_inv b \<Longrightarrow> budget_commit n b = (Inl e, b') \<Longrightarrow> bu_reserved b < n \<and> b' = b"
  using commit.error_ledger [of n b e b']
  by (auto simp: budget_inv_def lg_commit_def ledger_of_def word_less_nat_alt intro!: budget_eqI split: if_splits)

text \<open>Outside of it, it loses the reservation: bytes that are added while others are reserved can bring this about.\<close>

lemma commit_drops_reservation:
  defines "b \<equiv> snd (add_used 50 (snd (budget_reserve 80 \<lparr>bu_capacity = 100, bu_used = 0, bu_reserved = 0\<rparr>)))"
  shows "bu_reserved b = 80" "is_ok (fst (budget_commit 80 b)) = False" "bu_reserved (snd (budget_commit 80 b)) = 0"
  by (simp_all add: b_def budget_reserve_def add_used_def budget_commit_def checked_add_def saturating_add_def)

lemma acct_free_exact:
  "unat (budget_free b) = unat (bu_capacity b) - (unat (bu_used b) + unat (bu_reserved b))"
  using unat_le_max_w [of "bu_capacity b"] by (auto simp: budget_free_def word_nat min_def)

text \<open>What is free can be reserved, and then the sum stays within the capacity.\<close>

lemma reserve_free:
  assumes "budget_inv b" "n \<le> budget_free b"
  obtains b' where "budget_reserve n b = (Inr (), b')" "budget_inv b'" "bu_capacity b' = bu_capacity b"
    "bu_used b' = bu_used b" "unat (bu_reserved b') = unat (bu_reserved b) + unat n"
proof -
  have "unat (bu_used b) + unat (bu_reserved b) + unat n \<le> unat (bu_capacity b)"
    using assms by (simp add: word_le_nat_alt acct_free_exact budget_inv_def)
  then have "lg_reserve (unat n) (ledger_of b) = (True, (ledger_of b)\<lparr>lg_reserved := unat (bu_reserved b) + unat n\<rparr>)"
    and le: "unat (bu_used b) + (unat (bu_reserved b) + unat n) \<le> unat (bu_capacity b)"
    by (simp_all add: lg_reserve_def ledger_of_def)
  from rsv.accepts [OF this(1)] obtain b' where
    b': "budget_reserve n b = (Inr (), b')" "ledger_of b' = (ledger_of b)\<lparr>lg_reserved := unat (bu_reserved b) + unat n\<rparr>" by blast
  show thesis
    by (rule that [OF b'(1)]) (use b'(2) le in \<open>simp_all add: ledger_of_def budget_inv_def word_unat_eq_iff\<close>)
qed

section \<open>All tiers again\<close>

lemma accounting_new_inv:
  "accounting_inv (set_tier_capacity KAccelerator a (set_tier_capacity KPersistent s (set_tier_capacity KHost h accounting_new)))"
  by (simp add: accounting_inv_def accounting_new_def budget_default_def set_tier_capacity_def set_capacity_def budget_inv_def)

lemma sub_bytes_inv: "accounting_inv a \<Longrightarrow> accounting_inv (snd (sub_bytes k n a))"
  by (simp add: sub_bytes_def sub.keeps_accounting_inv)

lemma commit_reserve_inv: "accounting_inv a \<Longrightarrow> accounting_inv (snd (commit_reserve k n a))"
  by (simp add: commit_reserve_def commit.keeps_accounting_inv)

lemma acct_reserve_inv: "accounting_inv a \<Longrightarrow> n \<le> acct_free k a \<Longrightarrow> accounting_inv (snd (acct_reserve k n a))"
  by (cases k) (auto simp: accounting_inv_def acct_free_def acct_reserve_def on_tier_def elim: reserve_free)

text \<open>Reserving and then cancelling has no effect at all.\<close>

lemma reserve_cancel:
  assumes "budget_reserve n b = (Inr (), b')"
  shows "budget_cancel n b' = (Inr (), b)"
  using assms
  by (auto simp: budget_reserve_def budget_cancel_def res checked_add_def word_less_nat_alt word_nat
      split: option.splits if_splits)

end
