(* ===== verification/Planner.thy ===== *)
theory Planner
  imports Tiers "HOL-Library.Product_Lexorder" "HOL-Library.Multiset"
begin

text \<open>\<^verbatim>\<open>cost.rs\<close> and \<^verbatim>\<open>planner.rs\<close>: the integer cost model and the choice of the cheapest action.\<close>

section \<open>Costs\<close>

record cost_model =
  accel_read_bw :: u64
  accel_write_bw :: u64
  host_read_bw :: u64
  host_write_bw :: u64
  storage_read_bw :: u64
  storage_write_bw :: u64
  transfer_latency_ns :: u64
  restore_latency_ns :: u64
  recompute_base_ns :: u64
  recompute_ns_per_byte :: u64
  persist_ns_per_byte :: u64

definition cost_default :: cost_model where
  "cost_default = \<lparr>accel_read_bw = 1800000000000, accel_write_bw = 1800000000000,
     host_read_bw = 20000000000, host_write_bw = 20000000000, storage_read_bw = 1500000000,
     storage_write_bw = 1200000000, transfer_latency_ns = 20000, restore_latency_ns = 250000,
     recompute_base_ns = 5000000, recompute_ns_per_byte = 30, persist_ns_per_byte = 60\<rparr>"

fun read_bw :: "cost_model \<Rightarrow> tier_kind \<Rightarrow> u64" where
  "read_bw c KAccelerator = accel_read_bw c"
| "read_bw c KHost = host_read_bw c"
| "read_bw c KPersistent = storage_read_bw c"

fun write_bw :: "cost_model \<Rightarrow> tier_kind \<Rightarrow> u64" where
  "write_bw c KAccelerator = accel_write_bw c"
| "write_bw c KHost = host_write_bw c"
| "write_bw c KPersistent = storage_write_bw c"

text \<open>\<open>n.min(u64::MAX as u128) as u64\<close>\<close>

definition clamp_u64 :: "u128 \<Rightarrow> u64" where
  "clamp_u64 n = ucast (min n (ucast (max_w :: u64)))"

text \<open>The divisor is not zero on that branch, so \<open>checked_div\<close> always yields a quotient.\<close>

definition transfer_ns :: "u64 \<Rightarrow> u64 \<Rightarrow> u64" where
  "transfer_ns bytes bandwidth =
     (if bandwidth = 0 then max_w
      else clamp_u64 (saturating_mul (ucast bytes) 1000000000 div ucast bandwidth))"

definition transfer_cost_ns :: "cost_model \<Rightarrow> tier \<Rightarrow> tier \<Rightarrow> u64 \<Rightarrow> u64" where
  "transfer_cost_ns c src dst bytes =
     (let effective = min (read_bw c (kind_of src)) (write_bw c (kind_of dst))
      in saturating_add (transfer_latency_ns c) (transfer_ns bytes effective))"

definition restore_cost_ns :: "cost_model \<Rightarrow> tier \<Rightarrow> u64 \<Rightarrow> u64" where
  "restore_cost_ns c dst bytes =
     (let effective = min (storage_read_bw c) (write_bw c (kind_of dst))
      in saturating_add (restore_latency_ns c) (transfer_ns bytes effective))"

definition reconstruct_cost_ns :: "cost_model \<Rightarrow> u64 \<Rightarrow> u64" where
  "reconstruct_cost_ns c bytes =
     saturating_add (recompute_base_ns c)
       (clamp_u64 (saturating_mul (ucast bytes) (ucast (recompute_ns_per_byte c))))"

definition persist_cost_ns :: "cost_model \<Rightarrow> u64 \<Rightarrow> u64" where
  "persist_cost_ns c bytes = clamp_u64 (saturating_mul (ucast bytes) (ucast (persist_ns_per_byte c)))"

definition reuse_in_place_cost_ns :: "cost_model \<Rightarrow> u64" where
  "reuse_in_place_cost_ns c = 0"

section \<open>Planning\<close>

datatype action = ReuseInPlace | Transfer tier | Restore | AReconstruct | AReject

record plan =
  pl_action :: action
  pl_cost_ns :: u64
  pl_rationale :: string

fun action_priority :: "action \<Rightarrow> u8" where
  "action_priority ReuseInPlace = 0"
| "action_priority (Transfer _) = 1"
| "action_priority Restore = 2"
| "action_priority AReconstruct = 3"
| "action_priority AReject = 4"

definition candidates :: "cost_model \<Rightarrow> u64 \<Rightarrow> tier \<Rightarrow> tier list \<Rightarrow> bool \<Rightarrow> (u64 \<times> action) list" where
  "candidates cost bytes dest placements can_reconstruct =
     map (\<lambda>p. (transfer_cost_ns cost p dest bytes, Transfer p)) (filter (\<lambda>p. p \<noteq> dest) placements) @
     (if list_ex (\<lambda>p. kind_of p = KPersistent) placements
      then [(restore_cost_ns cost dest bytes, Restore)] else []) @
     (if can_reconstruct then [(reconstruct_cost_ns cost bytes, AReconstruct)] else [])"

fun plan_rationale :: "action \<Rightarrow> string" where
  "plan_rationale ReuseInPlace = ''reuse in place''"
| "plan_rationale (Transfer t) = ''transfer from '' @ tier_label t"
| "plan_rationale Restore = ''restore from persistent storage''"
| "plan_rationale AReconstruct = ''reconstruct/recompute''"
| "plan_rationale AReject = ''reject''"

text \<open>The sort of the library is stable, like \<open>sort_key\<close>.\<close>

definition decide :: "cost_model \<Rightarrow> u64 \<Rightarrow> tier \<Rightarrow> tier list \<Rightarrow> bool \<Rightarrow> plan" where
  "decide cost bytes dest placements can_reconstruct =
     (if list_ex (\<lambda>p. p = dest) placements
      then \<lparr>pl_action = ReuseInPlace, pl_cost_ns = reuse_in_place_cost_ns cost,
            pl_rationale = ''already '' @ tier_label dest @ '' resident''\<rparr>
      else
        (case sort_key (\<lambda>(c, a). (c, action_priority a)) (candidates cost bytes dest placements can_reconstruct) of
           [] \<Rightarrow> \<lparr>pl_action = AReject, pl_cost_ns = max_w,
                  pl_rationale = ''no source placement and reconstruction not possible''\<rparr>
         | (cost_ns, action) # _ \<Rightarrow>
             \<lparr>pl_action = action, pl_cost_ns = cost_ns, pl_rationale = plan_rationale action\<rparr>))"

section \<open>Costs are exact or saturated\<close>

lemma unat_ucast_u128 [simp]: "unat (ucast (a :: u64) :: u128) = unat a"
  by (simp add: unsigned_ucast_eq take_bit_nat_eq_self unat_lt [THEN order_less_trans])

lemma unat_clamp_u64 [word_nat]: "unat (clamp_u64 n) = min (unat n) (2 ^ 64 - 1)"
proof -
  have m: "unat (min n (ucast (max_w :: u64))) = min (unat n) (2 ^ 64 - 1)"
    by (simp add: min_def word_le_nat_alt word_nat)
  then have "unat (clamp_u64 n) = take_bit 64 (min (unat n) (2 ^ 64 - 1))"
    unfolding clamp_u64_def by (simp add: unsigned_ucast_eq)
  then show ?thesis by (simp add: take_bit_nat_eq_self)
qed

lemma unat_mul_u128:
  "unat (saturating_mul (ucast (a :: u64)) (ucast (b :: u64)) :: u128) = unat a * unat b"
proof -
  have "unat a * unat b < 2 ^ 64 * 2 ^ 64"
    using unat_lt [of a] unat_lt [of b] by (intro mult_strict_mono) auto
  then show ?thesis by (simp add: word_nat)
qed

text \<open>Transfer time, in the rationals' floor, clamped to the largest \<open>u64\<close>.\<close>

lemma unat_transfer_ns:
  "unat (transfer_ns b bw) =
     (if bw = 0 then 2 ^ 64 - 1 else min (unat b * 1000000000 div unat bw) (2 ^ 64 - 1))"
  using unat_mul_u128 [of b 1000000000] by (simp add: transfer_ns_def word_nat unat_div)

lemma unat_reconstruct_cost_ns:
  "unat (reconstruct_cost_ns c b) =
     min (unat (recompute_base_ns c) + min (unat b * unat (recompute_ns_per_byte c)) (2 ^ 64 - 1)) (2 ^ 64 - 1)"
  by (simp add: reconstruct_cost_ns_def word_nat unat_mul_u128 del: of_nat_mult)

section \<open>The decision\<close>

text \<open>The actions open to the planner and what each costs, without any search.\<close>

inductive feasible :: "cost_model \<Rightarrow> u64 \<Rightarrow> tier \<Rightarrow> tier list \<Rightarrow> bool \<Rightarrow> action \<Rightarrow> u64 \<Rightarrow> bool"
  for cost bytes dest placements can_reconstruct where
  reuse: "dest \<in> set placements \<Longrightarrow> feasible cost bytes dest placements can_reconstruct ReuseInPlace 0"
| transfer: "p \<in> set placements \<Longrightarrow> p \<noteq> dest \<Longrightarrow>
    feasible cost bytes dest placements can_reconstruct (Transfer p) (transfer_cost_ns cost p dest bytes)"
| restore: "Persistent \<in> set placements \<Longrightarrow>
    feasible cost bytes dest placements can_reconstruct Restore (restore_cost_ns cost dest bytes)"
| recompute: "can_reconstruct \<Longrightarrow>
    feasible cost bytes dest placements can_reconstruct AReconstruct (reconstruct_cost_ns cost bytes)"

inductive_simps feasible_iff: "feasible cost bytes dest ps can a c"

lemma candidates_feasible:
  "dest \<notin> set ps \<Longrightarrow> (c, a) \<in> set (candidates cost bytes dest ps can) \<longleftrightarrow> feasible cost bytes dest ps can a c"
  by (auto simp: candidates_def feasible_iff list_ex_iff)

lemma candidates_Nil_iff: "dest \<notin> set ps \<Longrightarrow> candidates cost bytes dest ps can = [] \<longleftrightarrow> ps = [] \<and> \<not> can"
  by (cases ps) (auto simp: candidates_def)

lemma sort_key_hd:
  "sort_key f xs = y # ys \<Longrightarrow> y \<in> set xs \<and> (\<forall>x \<in> set xs. f y \<le> f x)" for f :: "'a \<Rightarrow> 'k::linorder"
proof -
  assume s: "sort_key f xs = y # ys"
  then have set: "set xs = insert y (set ys)" by (metis list.simps(15) set_sort)
  moreover have "sorted (map f (y # ys))" by (metis s sorted_sort_key)
  ultimately show ?thesis by auto
qed

lemma sort_key_Nil_iff: "sort_key f xs = [] \<longleftrightarrow> xs = []" for f :: "'a \<Rightarrow> 'k::linorder"
  by (simp flip: set_empty)

text \<open>Away from the reuse branch the decision is a least candidate, or the rejection when there is none.\<close>

lemma decide_cases:
  assumes "dest \<notin> set ps"
  obtains "ps = []" "\<not> can" "pl_action (decide cost bytes dest ps can) = AReject"
  | c a where "pl_action (decide cost bytes dest ps can) = a" "pl_cost_ns (decide cost bytes dest ps can) = c"
    "feasible cost bytes dest ps can a c"
    "\<And>c' a'. feasible cost bytes dest ps can a' c' \<Longrightarrow> (c, action_priority a) \<le> (c', action_priority a')"
proof (cases "sort_key (\<lambda>(c, a). (c, action_priority a)) (candidates cost bytes dest ps can)")
  case Nil
  then have "candidates cost bytes dest ps can = []" by (simp only: sort_key_Nil_iff)
  with assms have "ps = []" "\<not> can" by (simp_all add: candidates_Nil_iff)
  moreover have "pl_action (decide cost bytes dest ps can) = AReject"
    using assms by (auto simp: decide_def list_ex_iff Nil)
  ultimately show thesis by (rule that(1))
next
  case (Cons y ys)
  obtain c a where y: "y = (c, a)" by fastforce
  from sort_key_hd [OF Cons] have "feasible cost bytes dest ps can a c"
    "\<And>c' a'. feasible cost bytes dest ps can a' c' \<Longrightarrow> (c, action_priority a) \<le> (c', action_priority a')"
    unfolding y candidates_feasible [OF assms, symmetric] by auto
  moreover have "pl_action (decide cost bytes dest ps can) = a" "pl_cost_ns (decide cost bytes dest ps can) = c"
    using assms Cons y by (simp_all add: decide_def list_ex_iff)
  ultimately show thesis using that(2) by blast
qed

lemma decide_resident:
  "dest \<in> set ps \<Longrightarrow> pl_action (decide cost bytes dest ps can) = ReuseInPlace \<and> pl_cost_ns (decide cost bytes dest ps can) = 0"
  by (auto simp: decide_def list_ex_iff reuse_in_place_cost_ns_def)

lemma decide_Reuse_iff: "pl_action (decide cost bytes dest ps can) = ReuseInPlace \<longleftrightarrow> dest \<in> set ps"
proof (cases "dest \<in> set ps")
  case False
  then show ?thesis
    by (rule decide_cases [of dest ps can cost bytes]) (use False in \<open>auto elim: feasible.cases\<close>)
qed (simp add: decide_resident)

lemma decide_Reject_iff:
  "pl_action (decide cost bytes dest ps can) = AReject \<longleftrightarrow> ps = [] \<and> \<not> can"
proof (cases "dest \<in> set ps")
  case False
  then show ?thesis
    by (rule decide_cases [of dest ps can cost bytes]) (use False in \<open>auto elim: feasible.cases\<close>)
qed (auto simp: decide_resident)

lemma decide_feasible:
  assumes "ps \<noteq> [] \<or> can"
  shows "feasible cost bytes dest ps can (pl_action (decide cost bytes dest ps can)) (pl_cost_ns (decide cost bytes dest ps can))"
proof (cases "dest \<in> set ps")
  case False
  then show ?thesis
    by (rule decide_cases [of dest ps can cost bytes]) (use assms in auto)
qed (simp add: decide_resident feasible.reuse)

lemma decide_least:
  assumes "feasible cost bytes dest ps can a c"
  shows "(pl_cost_ns (decide cost bytes dest ps can), action_priority (pl_action (decide cost bytes dest ps can)))
    \<le> (c, action_priority a)"
proof (cases "dest \<in> set ps")
  case False
  then show ?thesis
    by (rule decide_cases [of dest ps can cost bytes]) (use assms in \<open>auto elim: feasible.cases\<close>)
qed (simp add: decide_resident)

end
