(* ===== verification/Admission.thy ===== *)
theory Admission
  imports Accounting Planner
begin

text \<open>\<^verbatim>\<open>admission.rs\<close>: the bounded admission policy.\<close>

record admission_candidate =
  cd_object_id :: string
  cd_bytes :: u64
  cd_reconstruction_cost_ns :: u64
  cd_transfer_cost_ns :: u64
  cd_reuse_value_ns :: u64
  cd_priority :: u32
  cd_desired_tier :: tier_kind
  cd_immutable :: bool

record admission_policy =
  ap_max_object_bytes :: u64
  ap_min_reuse_value_ns :: u64
  ap_value_per_byte_ns :: u64
  ap_max_objects :: "u64 option"
  ap_min_reconstruction_cost_ns :: u64

definition admission_default :: admission_policy where
  "admission_default = \<lparr>ap_max_object_bytes = push_bit 30 1, ap_min_reuse_value_ns = 250000,
     ap_value_per_byte_ns = 1, ap_max_objects = None, ap_min_reconstruction_cost_ns = 0\<rparr>"

datatype admission_decision = Admit | Reject string

fun is_admit :: "admission_decision \<Rightarrow> bool" where
  "is_admit Admit = True"
| "is_admit (Reject _) = False"

fun reason :: "admission_decision \<Rightarrow> string" where
  "reason Admit = ''admit''"
| "reason (Reject r) = r"

definition required_value :: "admission_policy \<Rightarrow> admission_candidate \<Rightarrow> u64" where
  "required_value policy c = clamp_u64 (saturating_mul (ucast (cd_bytes c)) (ucast (ap_value_per_byte_ns policy)))"

definition evaluate_ignoring_capacity ::
  "admission_policy \<Rightarrow> admission_candidate \<Rightarrow> accounting \<Rightarrow> admission_decision" where
  "evaluate_ignoring_capacity policy c accounting =
     (if cd_bytes c > ap_max_object_bytes policy
      then Reject (''object '' @ show_w (cd_bytes c) @ '' bytes exceeds max '' @ show_w (ap_max_object_bytes policy))
      else if cd_reuse_value_ns c < ap_min_reuse_value_ns policy
      then Reject (''object reuse value '' @ show_w (cd_reuse_value_ns c) @ '' below minimum '' @ show_w (ap_min_reuse_value_ns policy))
      else if cd_reconstruction_cost_ns c < ap_min_reconstruction_cost_ns policy
      then Reject (''object reconstruction cost '' @ show_w (cd_reconstruction_cost_ns c) @ '' below minimum '' @
             show_w (ap_min_reconstruction_cost_ns policy))
      else if cd_reuse_value_ns c < required_value policy c
      then Reject (''object reuse value '' @ show_w (cd_reuse_value_ns c) @ '' below per-byte requirement '' @
             show_w (required_value policy c))
      else
        (case ap_max_objects policy of
           Some mx \<Rightarrow> if ac_objects accounting \<ge> mx then Reject ''object count limit reached'' else Admit
         | None \<Rightarrow> Admit))"

definition evaluate :: "admission_policy \<Rightarrow> admission_candidate \<Rightarrow> accounting \<Rightarrow> admission_decision" where
  "evaluate policy c accounting =
     (let d = evaluate_ignoring_capacity policy c accounting in
      if is_admit d then
        let free = acct_free (cd_desired_tier c) accounting in
        if cd_bytes c > free
        then Reject (''no capacity: need '' @ show_w (cd_bytes c) @ '' bytes, '' @ show_w free @ '' free in tier'')
        else d
      else d)"

definition admission_error :: "admission_decision \<Rightarrow> error" where
  "admission_error d = AdmissionRejected (reason d)"

text \<open>An admitted object can be reserved in its tier.\<close>

lemma evaluate_admit_iff:
  "evaluate policy c a = Admit \<longleftrightarrow>
     evaluate_ignoring_capacity policy c a = Admit \<and> cd_bytes c \<le> acct_free (cd_desired_tier c) a"
  by (cases "evaluate_ignoring_capacity policy c a") (auto simp: evaluate_def Let_def)

lemma budget_of_inv: "accounting_inv a \<Longrightarrow> budget_inv (budget_of k a)"
  by (cases k) (simp_all add: accounting_inv_def)

lemma fits_reserve:
  assumes "budget_inv b" "n \<le> budget_free b"
  shows "\<exists>b'. budget_reserve n b = (Inr (), b')"
  by (rule reserve_free [OF assms]) blast

lemma admit_reserve:
  assumes "accounting_inv a" "evaluate policy c a = Admit"
  shows "\<exists>a'. acct_reserve (cd_desired_tier c) (cd_bytes c) a = (Inr (), a')"
proof -
  have "cd_bytes c \<le> budget_free (budget_of (cd_desired_tier c) a)"
    using assms(2) by (simp add: evaluate_admit_iff acct_free_def)
  from fits_reserve [OF budget_of_inv [OF assms(1)] this] show ?thesis
    by (auto simp: acct_reserve_def on_tier_def)
qed

lemma unat_required_value:
  "unat (required_value policy c) = min (unat (cd_bytes c) * unat (ap_value_per_byte_ns policy)) (2 ^ 64 - 1)"
  by (simp only: required_value_def unat_clamp_u64 unat_mul_u128)

lemma ignoring_capacity_admit_iff:
  "evaluate_ignoring_capacity policy c a = Admit \<longleftrightarrow>
     cd_bytes c \<le> ap_max_object_bytes policy \<and> ap_min_reuse_value_ns policy \<le> cd_reuse_value_ns c \<and>
     ap_min_reconstruction_cost_ns policy \<le> cd_reconstruction_cost_ns c \<and>
     min (unat (cd_bytes c) * unat (ap_value_per_byte_ns policy)) (2 ^ 64 - 1) \<le> unat (cd_reuse_value_ns c) \<and>
     (\<forall>mx. ap_max_objects policy = Some mx \<longrightarrow> ac_objects a < mx)"
  unfolding evaluate_ignoring_capacity_def unat_required_value [symmetric] word_le_nat_alt [symmetric]
  by (auto simp: not_less not_le split: option.splits)

end
