(* ===== verification/Eviction.thy ===== *)
theory Eviction
  imports Errors "HOL-Library.Product_Lexorder" "HOL-Library.List_Lexorder" "HOL-Library.Multiset"
begin

text \<open>
  \<^verbatim>\<open>eviction.rs\<close>: keep-scores and the eviction order.  The casts of the score from \<open>u64\<close> to
  \<open>i64\<close> reinterpret the bits and its unchecked additions wrap.  The \<open>pressure\<close> field, a float that
  no routine of the file reads, is left out.
\<close>

record evictable =
  ev_object_id :: string
  ev_bytes :: u64
  ev_reuse_count :: u64
  ev_age_seconds :: u64
  ev_reconstruction_cost_ns :: u64
  ev_priority :: u32
  ev_durable :: bool

record eviction_policy =
  ep_reuse_weight :: u64
  ep_reconstruct_weight :: u64
  ep_age_weight :: u64
  ep_size_weight :: u64
  ep_durable_bonus :: u64
  ep_priority_weight :: u64

definition eviction_default :: eviction_policy where
  "eviction_default = \<lparr>ep_reuse_weight = 1000, ep_reconstruct_weight = 1, ep_age_weight = 500,
     ep_size_weight = 200, ep_durable_bonus = 1000000, ep_priority_weight = 500000\<rparr>"

definition keep_score :: "eviction_policy \<Rightarrow> evictable \<Rightarrow> i64" where
  "keep_score policy e =
     (let score = 0;
          score = score + i64_saturating_mul (ev_reuse_count e) (ep_reuse_weight policy);
          score = score + i64_saturating_mul (ev_reconstruction_cost_ns e) (ep_reconstruct_weight policy);
          score = score - i64_saturating_mul (ev_age_seconds e) (ep_age_weight policy);
          score = score - i64_saturating_mul (i64_saturating_div (ev_bytes e) 1024) (ep_size_weight policy);
          score = (if ev_durable e then score + ep_durable_bonus policy else score)
      in score + i64_saturating_mul (ucast (ev_priority e)) (ep_priority_weight policy))"

text \<open>Signed score first, then the object id, compared byte by byte.\<close>

definition evict_key :: "eviction_policy \<Rightarrow> evictable \<Rightarrow> int \<times> u8 list" where
  "evict_key policy e = (sint (keep_score policy e), as_bytes (ev_object_id e))"

definition eviction_order :: "eviction_policy \<Rightarrow> evictable list \<Rightarrow> evictable list" where
  "eviction_order policy entries = sort_key (evict_key policy) entries"

fun plan_loop :: "u64 \<Rightarrow> evictable list \<Rightarrow> evictable list" where
  "plan_loop need [] = []"
| "plan_loop need (e # es) = (if need = 0 then [] else e # plan_loop (saturating_sub need (ev_bytes e)) es)"

definition eviction_plan :: "eviction_policy \<Rightarrow> evictable list \<Rightarrow> u64 \<Rightarrow> u64 \<Rightarrow> evictable list" where
  "eviction_plan policy entries used_bytes capacity =
     plan_loop (saturating_sub used_bytes capacity) (eviction_order policy entries)"

section \<open>The order\<close>

lemma eviction_order_perm: "mset (eviction_order policy es) = mset es"
  by (simp add: eviction_order_def)

lemma eviction_order_sorted: "sorted (map (evict_key policy) (eviction_order policy es))"
  by (simp add: eviction_order_def)

text \<open>Object ids are unique in a cache, so the order of the input does not matter.\<close>

lemma evict_key_inj: "inj_on ev_object_id (set es) \<Longrightarrow> inj_on (evict_key policy) (set es)"
  by (auto simp: inj_on_def evict_key_def)

lemma eviction_order_deterministic:
  assumes "mset es = mset fs" "inj_on ev_object_id (set es)"
  shows "eviction_order policy es = eviction_order policy fs"
  unfolding eviction_order_def
  by (rule sort_key_inj_key_eq) (use assms evict_key_inj in auto)

section \<open>The plan\<close>

abbreviation sum_bytes :: "evictable list \<Rightarrow> nat" where
  "sum_bytes es \<equiv> sum_list (map (\<lambda>e. unat (ev_bytes e)) es)"

lemma plan_loop_prefix: "\<exists>rest. es = plan_loop need es @ rest"
  by (induction need es rule: plan_loop.induct) auto

lemma plan_loop_enough: "min (sum_bytes es) (unat need) \<le> sum_bytes (plan_loop need es)"
proof (induction need es rule: plan_loop.induct)
  case (2 need e es)
  then show ?case by (cases "need = 0") (auto simp: unat_saturating_sub)
qed simp

lemma plan_loop_minimal: "plan_loop need es = xs @ [x] \<Longrightarrow> sum_bytes xs < unat need"
proof (induction need es arbitrary: xs rule: plan_loop.induct)
  case (2 need e es)
  then have nz: "need \<noteq> 0" by (auto split: if_splits)
  then have pos: "0 < unat need" by (simp add: unat_gt_0)
  show ?case
  proof (cases xs)
    case (Cons y ys)
    with 2(2) nz have "plan_loop (saturating_sub need (ev_bytes e)) es = ys @ [x]" "y = e" by auto
    with 2(1) [OF nz this(1)] Cons show ?thesis by (simp add: unat_saturating_sub)
  qed (use pos in simp)
qed simp

lemma eviction_plan_prefix:
  "\<exists>rest. eviction_order policy es = eviction_plan policy es used cap @ rest"
  unfolding eviction_plan_def by (rule plan_loop_prefix)

lemma sum_bytes_order [simp]: "sum_bytes (eviction_order policy es) = sum_bytes es"
proof -
  let ?f = "\<lambda>e. unat (ev_bytes e)"
  have "sum_mset (image_mset ?f (mset (eviction_order policy es))) = sum_mset (image_mset ?f (mset es))"
    by (simp only: eviction_order_perm)
  then show ?thesis by (simp only: mset_map [symmetric] sum_mset_sum_list)
qed

lemma eviction_plan_enough:
  "unat used - unat cap \<le> sum_bytes es \<Longrightarrow> unat used - unat cap \<le> sum_bytes (eviction_plan policy es used cap)"
  using plan_loop_enough [of "eviction_order policy es" "saturating_sub used cap"]
  by (simp add: eviction_plan_def unat_saturating_sub)

lemma eviction_plan_minimal:
  "eviction_plan policy es used cap = xs @ [x] \<Longrightarrow> sum_bytes xs < unat used - unat cap"
  using plan_loop_minimal [of "saturating_sub used cap" "eviction_order policy es" xs x]
  by (simp add: eviction_plan_def unat_saturating_sub)

section \<open>The score\<close>

text \<open>When no term saturates and no sum wraps, the score is the documented weighted sum.\<close>

definition score_spec :: "eviction_policy \<Rightarrow> evictable \<Rightarrow> int" where
  "score_spec p e =
     uint (ev_reuse_count e) * uint (ep_reuse_weight p) + uint (ev_reconstruction_cost_ns e) * uint (ep_reconstruct_weight p)
     - uint (ev_age_seconds e) * uint (ep_age_weight p) - uint (ev_bytes e) div 1024 * uint (ep_size_weight p)
     + (if ev_durable e then uint (ep_durable_bonus p) else 0) + uint (ev_priority e) * uint (ep_priority_weight p)"

text \<open>No field is a negative \<open>i64\<close> when reinterpreted, and no term reaches two to the 60.\<close>

definition score_small :: "eviction_policy \<Rightarrow> evictable \<Rightarrow> bool" where
  "score_small p e \<longleftrightarrow>
     list_all (\<lambda>w. uint w < 2 ^ 63)
       [ev_reuse_count e, ev_reconstruction_cost_ns e, ev_age_seconds e, ev_bytes e, ep_reuse_weight p,
        ep_reconstruct_weight p, ep_age_weight p, ep_size_weight p, ep_durable_bonus p, ep_priority_weight p] \<and>
     list_all (\<lambda>z. z < 2 ^ 60)
       [uint (ev_reuse_count e) * uint (ep_reuse_weight p),
        uint (ev_reconstruction_cost_ns e) * uint (ep_reconstruct_weight p),
        uint (ev_age_seconds e) * uint (ep_age_weight p),
        uint (ev_bytes e) div 1024 * uint (ep_size_weight p), uint (ep_durable_bonus p),
        uint (ev_priority e) * uint (ep_priority_weight p)]"

lemma sint_small: "uint w < 2 ^ 63 \<Longrightarrow> sint (w :: i64) = uint w"
proof -
  assume "uint w < 2 ^ 63"
  moreover have "- (2 ^ 63) \<le> uint w" using uint_ge_0 [of w] by (simp add: order_trans [of _ 0])
  ultimately show ?thesis by (simp only: sint_uint) (simp add: signed_take_bit_int_eq_self)
qed

lemma i64_sat_small: "0 \<le> z \<Longrightarrow> z < 2 ^ 60 \<Longrightarrow> i64_sat z = of_int z"
  by (simp add: i64_sat_def)

lemma i64_mul_small:
  "uint a < 2 ^ 63 \<Longrightarrow> uint b < 2 ^ 63 \<Longrightarrow> uint a * uint b < 2 ^ 60 \<Longrightarrow> i64_saturating_mul a b = of_int (uint a * uint b)"
  using i64_sat_small [of "uint a * uint b"] by (simp only: i64_saturating_mul_def sint_small) simp

lemma i64_div_small: "uint a < 2 ^ 63 \<Longrightarrow> i64_saturating_div a 1024 = of_int (uint a div 1024) \<and> uint (i64_saturating_div a 1024) = uint a div 1024"
proof -
  assume a: "uint a < 2 ^ 63"
  have "sint (1024 :: i64) = 1024" by simp
  moreover have "sgn (uint a) * (\<bar>uint a\<bar> div 1024) = uint a div 1024"
    by (cases "uint a = 0") (simp_all add: sgn_if)
  ultimately have "i64_saturating_div a 1024 = i64_sat (uint a div 1024)"
    using a by (simp only: i64_saturating_div_def sint_small) simp
  moreover have "0 \<le> uint a div 1024" "uint a div 1024 < 2 ^ 60" using a by (simp_all add: pos_imp_zdiv_nonneg_iff)
  ultimately have "i64_saturating_div a 1024 = of_int (uint a div 1024)" by (simp add: i64_sat_small)
  moreover have "uint (of_int (uint a div 1024) :: i64) = uint a div 1024"
    using a by (simp add: uint_word_of_int_eq take_bit_int_eq_self_iff pos_imp_zdiv_nonneg_iff)
  ultimately show ?thesis by simp
qed

lemma six_terms:
  fixes a b c d f g :: int
  assumes "0 \<le> a" "a < 2 ^ 60" "0 \<le> b" "b < 2 ^ 60" "0 \<le> c" "c < 2 ^ 60" "0 \<le> d" "d < 2 ^ 60"
    "0 \<le> f" "f < 2 ^ 60" "0 \<le> g" "g < 2 ^ 60"
  shows "- (2 ^ 63) \<le> a + b - c - d + f + g \<and> a + b - c - d + f + g < 2 ^ 63"
  using assms by simp

lemma keep_score_exact:
  assumes "score_small p e"
  shows "sint (keep_score p e) = score_spec p e"
proof -
  have pr: "uint (ucast (ev_priority e) :: i64) = uint (ev_priority e)"
    by (simp add: unsigned_ucast_eq take_bit_int_eq_self order_less_trans [OF unsigned_less])
  have "uint (ev_priority e) < 2 ^ 32" using uint_lt2p [of "ev_priority e"] by simp
  then have p32: "uint (ucast (ev_priority e) :: i64) < 2 ^ 63" unfolding pr by simp
  have d: "uint (i64_saturating_div (ev_bytes e) 1024) = uint (ev_bytes e) div 1024" "uint (ev_bytes e) div 1024 < 2 ^ 63"
    using assms i64_div_small [of "ev_bytes e"] by (auto simp: score_small_def)
  have "keep_score p e = of_int (score_spec p e)"
    using assms p32 d
    unfolding keep_score_def score_spec_def Let_def score_small_def list.pred_inject
    by (simp add: i64_mul_small pr)
  moreover have "- (2 ^ 63) \<le> score_spec p e \<and> score_spec p e < 2 ^ 63"
    unfolding score_spec_def
    by (rule six_terms) (use assms in \<open>auto simp: score_small_def pos_imp_zdiv_nonneg_iff\<close>)
  ultimately show ?thesis
    by (simp add: signed_of_int signed_take_bit_int_eq_self)
qed

end
