(* ===== verification/Storage.thy ===== *)
theory Storage
  imports Crc32c Sha256 "HOL-Library.Multiset"
begin

text \<open>
  \<^verbatim>\<open>storage.rs\<close>: chunking of a payload into content-addressed blocks, validation of block lists,
  the reference-counted block arena, and reassembly.  The arena is specified by the multiset of
  digests acquired and not yet released.
\<close>

definition DEFAULT_BLOCK_SIZE :: u64 where "DEFAULT_BLOCK_SIZE = push_bit 20 1"
definition MAX_BLOCKS_PER_TENSOR :: u64 where "MAX_BLOCKS_PER_TENSOR = push_bit 24 1"

record block_ref =
  br_content_hash :: digest
  br_offset :: u64
  br_len :: u64
  br_crc :: u32

section \<open>Chunking\<close>

definition div_ceil :: "u64 \<Rightarrow> u64 \<Rightarrow> u64" where
  "div_ceil a b = (if a mod b = 0 then a div b else a div b + 1)"

text \<open>The loop is entered with a nonzero block size only; the first test of the definition repeats
  that so that the recursion is total.\<close>

function chunk_loop :: "u8 list \<Rightarrow> u64 \<Rightarrow> u64 \<Rightarrow> block_ref list result" where
  "chunk_loop bytes block_size offset =
     (let total = of_nat (length bytes) in
      if block_size \<noteq> 0 \<and> offset < total then
        let end' = offset + min block_size (total - offset) in
        and_then (slice bytes (unat offset) (unat end')) (\<lambda>block.
        and_then (chunk_loop bytes block_size end') (\<lambda>out.
          Inr (\<lparr>br_content_hash = hash block, br_offset = offset, br_len = of_nat (length block),
                br_crc = crc32c block\<rparr> # out)))
      else Inr [])"
  by pat_completeness auto

lemma advance_bounds:
  assumes "n \<noteq> 0" "offset < (tot :: u64)"
  shows "unat (offset + min n (tot - offset)) = unat offset + min (unat n) (unat tot - unat offset)"
    and "offset < offset + min n (tot - offset)"
proof -
  have le: "offset \<le> tot" using assms(2) by simp
  have m: "unat (min n (tot - offset)) = min (unat n) (unat tot - unat offset)"
    using le by (simp add: min_def word_le_nat_alt word_nat)
  have "unat offset < unat tot" using assms(2) by (simp add: word_less_nat_alt)
  then have "unat offset + min (unat n) (unat tot - unat offset) < 2 ^ 64"
    using unat_lt [of tot] by simp
  then show *: "unat (offset + min n (tot - offset)) = unat offset + min (unat n) (unat tot - unat offset)"
    using m by (simp add: unat_add_fits)
  have "0 < unat n" using assms(1) by (simp add: unat_gt_0)
  then show "offset < offset + min n (tot - offset)"
    using * \<open>unat offset < unat tot\<close> by (simp add: word_less_nat_alt)
qed

termination chunk_loop
proof (relation "measure (\<lambda>(bytes, block_size, offset). unat (of_nat (length bytes) :: u64) - unat offset)", goal_cases)
  case (2 bytes block_size offset total' end' block)
  then show ?case
    using advance_bounds [of block_size offset total'] by (auto simp: word_less_nat_alt)
qed simp

declare chunk_loop.simps [simp del]

definition chunk :: "u8 list \<Rightarrow> u64 \<Rightarrow> block_ref list result" where
  "chunk bytes block_size =
     (if block_size = 0 then Inl (InvalidArgument ''block size must be nonzero'')
      else if div_ceil (of_nat (length bytes)) block_size > MAX_BLOCKS_PER_TENSOR
      then Inl (Geometry ''block count exceeds maximum'')
      else chunk_loop bytes block_size 0)"

section \<open>Block lists\<close>

text \<open>The loop over the references: next expected offset and the set of identities seen.\<close>

fun validate_loop :: "u64 \<Rightarrow> block_ref list \<Rightarrow> u64 \<Rightarrow> (u64 \<times> u64) list \<Rightarrow> u64 result" where
  "validate_loop byte_len [] expected seen = Inr expected"
| "validate_loop byte_len (b # bs) expected seen =
     (if br_len b = 0 then Inl (Geometry ''zero-length block'')
      else if br_offset b \<noteq> expected
      then Inl (Geometry (''block gap/overlap at offset '' @ show_w (br_offset b) @ '' (expected '' @ show_w expected @ '')''))
      else
        let end' = br_offset b + br_len b in
        if end' > byte_len then Inl (Geometry ''block extends past tensor length'')
        else if (br_offset b, br_len b) \<in> set seen then Inl (Geometry ''duplicate block identity'')
        else validate_loop byte_len bs end' ((br_offset b, br_len b) # seen))"

definition validate_block_list :: "block_ref list \<Rightarrow> u64 \<Rightarrow> unit result" where
  "validate_block_list blocks byte_len =
     (if of_nat (length blocks) > MAX_BLOCKS_PER_TENSOR then Inl (Geometry ''block count exceeds maximum'')
      else and_then (validate_loop byte_len blocks 0 []) (\<lambda>expected.
        if expected \<noteq> byte_len
        then Inl (Geometry (''blocks cover '' @ show_w expected @ '' bytes but tensor is '' @ show_w byte_len @ '' bytes''))
        else Inr ()))"

section \<open>The arena\<close>

record block_arena =
  ar_blocks :: "digest \<rightharpoonup> u8 list"
  ar_refs :: "digest \<rightharpoonup> u64"
  ar_bytes :: u64

definition arena_new :: block_arena where
  "arena_new = \<lparr>ar_blocks = Map.empty, ar_refs = Map.empty, ar_bytes = 0\<rparr>"

definition arena_block_count :: "block_arena \<Rightarrow> nat" where
  "arena_block_count a = card (dom (ar_blocks a))"

text \<open>The \<open>unwrap\<close> of the reference count is the one place where acquiring could panic.\<close>

definition acquire :: "u8 list \<Rightarrow> block_arena \<Rightarrow> block_ref result \<times> block_arena" where
  "acquire bytes a =
     (let h = hash bytes;
          len = of_nat (length bytes);
          crc = crc32c bytes;
          ret = \<lparr>br_content_hash = h, br_offset = 0, br_len = len, br_crc = crc\<rparr>
      in case ar_blocks a h of
           Some _ \<Rightarrow>
             (case ar_refs a h of
                None \<Rightarrow> (Inl (Panic ''called `Option::unwrap()` on a `None` value''), a)
              | Some r \<Rightarrow> (Inr ret, a\<lparr>ar_refs := (ar_refs a)(h \<mapsto> r + 1)\<rparr>))
         | None \<Rightarrow>
             (Inr ret, a\<lparr>ar_blocks := (ar_blocks a)(h \<mapsto> bytes), ar_refs := (ar_refs a)(h \<mapsto> 1),
                         ar_bytes := ar_bytes a + len\<rparr>))"

definition acquire_at :: "u8 list \<Rightarrow> u64 \<Rightarrow> block_arena \<Rightarrow> block_ref result \<times> block_arena" where
  "acquire_at bytes offset = st_then (acquire bytes) (\<lambda>r a. (Inr (r\<lparr>br_offset := offset\<rparr>), a))"

definition release :: "digest \<Rightarrow> block_arena \<Rightarrow> bool \<times> block_arena" where
  "release h a =
     (case ar_refs a h of
        Some r \<Rightarrow>
          if r - 1 = 0 then
            (True, (case ar_blocks a h of
                      Some block \<Rightarrow> a\<lparr>ar_blocks := (ar_blocks a)(h := None), ar_bytes := ar_bytes a - of_nat (length block),
                                     ar_refs := (ar_refs a)(h := None)\<rparr>
                    | None \<Rightarrow> a\<lparr>ar_refs := (ar_refs a)(h := None)\<rparr>))
          else (False, a\<lparr>ar_refs := (ar_refs a)(h \<mapsto> r - 1)\<rparr>)
      | None \<Rightarrow> (False, a))"

definition arena_get :: "block_arena \<Rightarrow> digest \<Rightarrow> u8 list result" where
  "arena_get a h = ok_or (ar_blocks a h) (Reconstruct (''block '' @ to_hex h @ '' missing''))"

definition arena_contains :: "block_arena \<Rightarrow> digest \<Rightarrow> bool" where
  "arena_contains a h \<longleftrightarrow> ar_blocks a h \<noteq> None"

section \<open>Reassembly\<close>

text \<open>A vector holds at most \<open>isize::MAX\<close> bytes: asking for more panics.\<close>

definition vec_zeroed :: "nat \<Rightarrow> u8 list result" where
  "vec_zeroed n = (if n < 2 ^ 63 then Inr (replicate n 0) else Inl (Panic ''capacity overflow''))"

definition reconstruct_step :: "(digest \<Rightarrow> u8 list result) \<Rightarrow> block_ref \<Rightarrow> u8 list \<Rightarrow> u8 list result" where
  "reconstruct_step get b out =
     and_then (get (br_content_hash b)) (\<lambda>data.
       if of_nat (length data) \<noteq> br_len b
       then Inl (Integrity (''block '' @ to_hex (br_content_hash b) @ '' length '' @ show_nat (length data) @
              '' does not match declared '' @ show_w (br_len b)))
       else if crc32c data \<noteq> br_crc b
       then Inl (Integrity (''block '' @ to_hex (br_content_hash b) @ '' checksum mismatch''))
       else copy_from_slice out (unat (br_offset b)) (unat (br_offset b + br_len b)) data)"

definition reconstruct :: "block_ref list \<Rightarrow> u64 \<Rightarrow> (digest \<Rightarrow> u8 list result) \<Rightarrow> u8 list result" where
  "reconstruct blocks byte_len get =
     and_then (validate_block_list blocks byte_len) (\<lambda>_.
     and_then (vec_zeroed (unat byte_len)) (\<lambda>out.
       fold_r (reconstruct_step get) blocks out))"

definition verify_reconstructed :: "block_ref list \<Rightarrow> u64 \<Rightarrow> (digest \<Rightarrow> u8 list result) \<Rightarrow> u8 list result" where
  "verify_reconstructed blocks byte_len get = reconstruct blocks byte_len get"

section \<open>The arena refines a multiset\<close>

text \<open>Block lengths are summed modulo two to the 64, like the counter.\<close>

definition arena_sum :: "(digest \<rightharpoonup> u8 list) \<Rightarrow> nat" where
  "arena_sum m = (\<Sum>h \<in> dom m. length (the (m h)))"

definition arena_inv :: "block_arena \<Rightarrow> bool" where
  "arena_inv a \<longleftrightarrow>
     finite (dom (ar_blocks a)) \<and> dom (ar_refs a) = dom (ar_blocks a) \<and>
     (\<forall>h r. ar_refs a h = Some r \<longrightarrow> r \<noteq> 0) \<and>
     (\<forall>h bs. ar_blocks a h = Some bs \<longrightarrow> hash bs = h) \<and>
     ar_bytes a = of_nat (arena_sum (ar_blocks a))"

definition refcount :: "block_arena \<Rightarrow> digest \<Rightarrow> nat" where
  "refcount a h = (case ar_refs a h of Some r \<Rightarrow> unat r | None \<Rightarrow> 0)"

definition arena_abs :: "block_arena \<Rightarrow> digest multiset" where
  "arena_abs a = (\<Sum>h \<in> dom (ar_refs a). replicate_mset (refcount a h) h)"

lemma arena_dom: "arena_inv a \<Longrightarrow> ar_refs a h = None \<longleftrightarrow> ar_blocks a h = None"
  unfolding arena_inv_def by (metis domIff)

lemma arena_sum_insert: "finite (dom m) \<Longrightarrow> m h = None \<Longrightarrow> arena_sum (m(h \<mapsto> bs)) = length bs + arena_sum m"
proof -
  assume *: "finite (dom m)" "m h = None"
  then have "h \<notin> dom m" by auto
  with * have "arena_sum (m(h \<mapsto> bs)) = length bs + (\<Sum>k \<in> dom m. length (the ((m(h \<mapsto> bs)) k)))"
    by (simp add: arena_sum_def)
  also have "(\<Sum>k \<in> dom m. length (the ((m(h \<mapsto> bs)) k))) = arena_sum m"
    unfolding arena_sum_def by (rule sum.cong) (use \<open>h \<notin> dom m\<close> in auto)
  finally show ?thesis .
qed

lemma arena_sum_remove: "finite (dom m) \<Longrightarrow> m h = Some bs \<Longrightarrow> arena_sum m = length bs + arena_sum (m(h := None))"
  using arena_sum_insert [of "m(h := None)" h bs] by (simp add: map_upd_triv)

lemma count_arena_abs: "arena_inv a \<Longrightarrow> count (arena_abs a) h = refcount a h"
proof -
  assume "arena_inv a"
  then have fin: "finite (dom (ar_refs a))" by (simp add: arena_inv_def)
  have "count (arena_abs a) h = (\<Sum>k \<in> dom (ar_refs a). if h = k then refcount a k else 0)"
    unfolding arena_abs_def by (simp add: count_sum)
  also have "\<dots> = (if h \<in> dom (ar_refs a) then refcount a h else 0)"
    using fin by (simp add: sum.delta')
  also have "\<dots> = refcount a h"
    by (auto simp: refcount_def split: option.splits)
  finally show ?thesis .
qed

lemma refcount_pos_iff: "arena_inv a \<Longrightarrow> 0 < refcount a h \<longleftrightarrow> ar_blocks a h \<noteq> None"
  using arena_dom [of a h] by (auto simp: arena_inv_def refcount_def unat_gt_0 split: option.splits)

lemma arena_new_inv [simp]: "arena_inv arena_new" "arena_abs arena_new = {#}"
  by (simp_all add: arena_inv_def arena_new_def arena_sum_def arena_abs_def)

lemma acquire_ok:
  assumes "arena_inv a" "acquire bytes a = (r, a')"
  shows "r = Inr \<lparr>br_content_hash = hash bytes, br_offset = 0, br_len = of_nat (length bytes), br_crc = crc32c bytes\<rparr>"
    and "refcount a (hash bytes) < 2 ^ 64 - 1 \<Longrightarrow> arena_inv a' \<and> refcount a' = (refcount a)(hash bytes := refcount a (hash bytes) + 1)"
proof -
  let ?h = "hash bytes"
  have "r = Inr \<lparr>br_content_hash = ?h, br_offset = 0, br_len = of_nat (length bytes), br_crc = crc32c bytes\<rparr> \<and>
    (refcount a ?h < 2 ^ 64 - 1 \<longrightarrow> arena_inv a' \<and> refcount a' = (refcount a)(?h := refcount a ?h + 1))"
  proof (cases "ar_blocks a ?h")
    case None
    then have nr: "ar_refs a ?h = None" using assms(1) by (auto simp: arena_inv_def)
    have a': "a' = a\<lparr>ar_blocks := (ar_blocks a)(?h \<mapsto> bytes), ar_refs := (ar_refs a)(?h \<mapsto> 1),
                         ar_bytes := ar_bytes a + of_nat (length bytes)\<rparr>"
      using None assms(2) by (simp add: acquire_def Let_def)
    have "arena_inv a'"
      using assms(1) None arena_sum_insert [of "ar_blocks a" ?h bytes] by (auto simp: arena_inv_def a')
    moreover have "refcount a' = (refcount a)(?h := refcount a ?h + 1)"
      using nr by (auto simp: refcount_def a')
    ultimately show ?thesis using None assms(2) by (simp add: acquire_def Let_def)
  next
    case (Some bs)
    then obtain c where c: "ar_refs a ?h = Some c" using arena_dom [OF assms(1), of ?h] by auto
    have a': "a' = a\<lparr>ar_refs := (ar_refs a)(?h \<mapsto> c + 1)\<rparr>"
      using Some c assms(2) by (simp add: acquire_def Let_def)
    have "arena_inv a' \<and> refcount a' = (refcount a)(?h := refcount a ?h + 1)" if "refcount a ?h < 2 ^ 64 - 1"
    proof -
      have u: "unat (c + 1) = unat c + 1"
        using that c by (simp add: refcount_def unat_add_fits)
      then have "c + 1 \<noteq> 0" by (metis add_is_0 unat_0 zero_neq_one)
      then have "arena_inv a'" using assms(1) Some c by (auto simp: arena_inv_def a')
      moreover have "refcount a' = (refcount a)(?h := refcount a ?h + 1)"
        using c u by (auto simp: refcount_def a')
      ultimately show ?thesis ..
    qed
    then show ?thesis using Some c assms(2) by (simp add: acquire_def Let_def)
  qed
  then show "r = Inr \<lparr>br_content_hash = ?h, br_offset = 0, br_len = of_nat (length bytes), br_crc = crc32c bytes\<rparr>"
    and "refcount a ?h < 2 ^ 64 - 1 \<Longrightarrow> arena_inv a' \<and> refcount a' = (refcount a)(?h := refcount a ?h + 1)" by auto
qed

lemma release_ok:
  assumes "arena_inv a" "release h a = (freed, a')"
  shows "arena_inv a' \<and> refcount a' = (refcount a)(h := refcount a h - 1) \<and> (freed \<longleftrightarrow> refcount a h = 1)"
proof (cases "ar_refs a h")
  case None
  with assms show ?thesis by (auto simp: release_def refcount_def)
next
  case (Some c)
  then obtain bs where bs: "ar_blocks a h = Some bs" and nz: "c \<noteq> 0"
    using assms(1) arena_dom [OF assms(1), of h] by (auto simp: arena_inv_def)
  then have u: "unat (c - 1) = unat c - 1" by (simp add: unat_minus_one)
  show ?thesis
  proof (cases "c = 1")
    case True
    have a': "a' = a\<lparr>ar_blocks := (ar_blocks a)(h := None), ar_bytes := ar_bytes a - of_nat (length bs),
                                     ar_refs := (ar_refs a)(h := None)\<rparr>" "freed"
      using True Some bs assms(2) by (simp_all add: release_def)
    have "arena_inv a'"
      using assms(1) bs arena_sum_remove [of "ar_blocks a" h bs] by (auto simp: arena_inv_def a')
    moreover have "refcount a' = (refcount a)(h := refcount a h - 1)"
      using Some True by (auto simp: refcount_def a')
    ultimately show ?thesis using a' Some True by (simp add: refcount_def)
  next
    case False
    then have "c - 1 \<noteq> 0" by simp
    then have a': "a' = a\<lparr>ar_refs := (ar_refs a)(h \<mapsto> c - 1)\<rparr>" "\<not> freed"
      using Some bs assms(2) by (auto simp: release_def)
    have "arena_inv a'" using assms(1) Some bs \<open>c - 1 \<noteq> 0\<close> by (auto simp: arena_inv_def a')
    moreover have "refcount a' = (refcount a)(h := refcount a h - 1)"
      using Some u by (auto simp: refcount_def a')
    moreover have "refcount a h \<noteq> 1"
      using Some False by (simp add: refcount_def word_unat_eq_iff [of c 1])
    ultimately show ?thesis using a' by simp
  qed
qed

text \<open>
  What a client relies on: a store of blocks under content keys, in which a key stays readable, with
  unchanged bytes, until it has been released as often as it was acquired.
\<close>

locale block_store =
  fixes acq :: "'b \<Rightarrow> 's \<Rightarrow> 's"
    and rel :: "'k \<Rightarrow> 's \<Rightarrow> 's"
    and fetch :: "'s \<Rightarrow> 'k \<Rightarrow> 'b option"
    and key :: "'b \<Rightarrow> 'k"
    and inv :: "'s \<Rightarrow> bool"
    and abs :: "'s \<Rightarrow> 'k multiset"
    and limit :: nat
  assumes acq_inv: "inv s \<Longrightarrow> count (abs s) (key b) < limit \<Longrightarrow> inv (acq b s)"
    and acq_abs: "inv s \<Longrightarrow> count (abs s) (key b) < limit \<Longrightarrow> abs (acq b s) = add_mset (key b) (abs s)"
    and rel_inv: "inv s \<Longrightarrow> inv (rel k s)"
    and rel_abs: "inv s \<Longrightarrow> abs (rel k s) = abs s - {#k#}"
    and fetch_iff: "inv s \<Longrightarrow> fetch s k \<noteq> None \<longleftrightarrow> k \<in># abs s"
    and fetch_key: "inv s \<Longrightarrow> fetch s k = Some b \<Longrightarrow> key b = k"
    and fetch_acq: "inv s \<Longrightarrow> k \<in># abs s \<Longrightarrow> fetch (acq b s) k = fetch s k"
    and fetch_rel: "inv s \<Longrightarrow> k \<in># abs (rel k' s) \<Longrightarrow> fetch (rel k' s) k = fetch s k"
begin

abbreviation acq_all :: "'b list \<Rightarrow> 's \<Rightarrow> 's" where
  "acq_all bs s \<equiv> fold acq bs s"

abbreviation rel_all :: "'k list \<Rightarrow> 's \<Rightarrow> 's" where
  "rel_all ks s \<equiv> fold rel ks s"

lemma acq_all_abs:
  "inv s \<Longrightarrow> size (abs s) + length bs \<le> limit \<Longrightarrow>
     inv (acq_all bs s) \<and> abs (acq_all bs s) = abs s + mset (map key bs)"
proof (induction bs arbitrary: s)
  case (Cons b bs)
  have "count (abs s) (key b) < limit"
    using Cons.prems(2) count_le_size [of "abs s" "key b"] by simp
  then have s': "inv (acq b s)" "abs (acq b s) = add_mset (key b) (abs s)"
    using Cons.prems(1) by (simp_all add: acq_inv acq_abs)
  with Cons.IH [of "acq b s"] Cons.prems(2) show ?case by simp
qed simp

lemma rel_all_abs: "inv s \<Longrightarrow> inv (rel_all ks s) \<and> abs (rel_all ks s) = abs s - mset ks"
  by (induction ks arbitrary: s) (simp_all add: rel_inv rel_abs)

text \<open>Acquiring the blocks of an object and releasing them again leaves no trace in the store.\<close>

lemma acq_rel_all:
  assumes "inv s" "size (abs s) + length bs \<le> limit"
  shows "abs (rel_all (map key bs) (acq_all bs s)) = abs s"
  using acq_all_abs [OF assms] rel_all_abs [of "acq_all bs s" "map key bs"] by simp

lemma fetch_acq_all:
  "inv s \<Longrightarrow> size (abs s) + length bs \<le> limit \<Longrightarrow> k \<in># abs s \<Longrightarrow> fetch (acq_all bs s) k = fetch s k"
proof (induction bs arbitrary: s)
  case (Cons b bs)
  have "count (abs s) (key b) < limit"
    using Cons.prems(2) count_le_size [of "abs s" "key b"] by simp
  with Cons.prems Cons.IH [of "acq b s"] show ?case by (simp add: acq_inv acq_abs fetch_acq)
qed simp

text \<open>Every acquired block can be read back, and what is read has its key.\<close>

lemma acquired_readable:
  assumes "inv s" "size (abs s) + length bs \<le> limit" "b \<in> set bs"
  shows "\<exists>b'. fetch (acq_all bs s) (key b) = Some b' \<and> key b' = key b"
proof -
  have "inv (acq_all bs s)" "key b \<in># abs (acq_all bs s)"
    using acq_all_abs [OF assms(1,2)] assms(3) by auto
  then show ?thesis using fetch_iff fetch_key by (metis not_Some_eq)
qed

end

definition arena_acq :: "u8 list \<Rightarrow> block_arena \<Rightarrow> block_arena" where
  "arena_acq bytes a = snd (acquire bytes a)"

definition arena_rel :: "digest \<Rightarrow> block_arena \<Rightarrow> block_arena" where
  "arena_rel h a = snd (release h a)"

interpretation arena: block_store arena_acq arena_rel ar_blocks hash arena_inv arena_abs "2 ^ 64 - 1"
proof
  fix a :: block_arena and b :: "u8 list" and k :: digest assume inv: "arena_inv a"
  note count = count_arena_abs [OF inv]
  show "arena_inv (arena_acq b a)" if "count (arena_abs a) (hash b) < 2 ^ 64 - 1"
    using acquire_ok(2) [OF inv, of b] that count by (cases "acquire b a") (auto simp: arena_acq_def)
  show "arena_abs (arena_acq b a) = add_mset (hash b) (arena_abs a)" if "count (arena_abs a) (hash b) < 2 ^ 64 - 1"
    using acquire_ok(2) [OF inv, of b] that
    by (cases "acquire b a") (auto simp: arena_acq_def multiset_eq_iff count count_arena_abs)
  show "arena_inv (arena_rel k a)"
    using release_ok [OF inv, of k] by (cases "release k a") (auto simp: arena_rel_def)
  show "arena_abs (arena_rel k a) = arena_abs a - {#k#}"
    using release_ok [OF inv, of k] by (cases "release k a") (auto simp: arena_rel_def multiset_eq_iff count count_arena_abs)
  show "ar_blocks a k \<noteq> None \<longleftrightarrow> k \<in># arena_abs a"
    using refcount_pos_iff [OF inv, of k] by (simp add: count flip: count_greater_zero_iff)
  show "hash b = k" if "ar_blocks a k = Some b"
    using inv that by (simp add: arena_inv_def)
  show "ar_blocks (arena_acq b a) k = ar_blocks a k" if "k \<in># arena_abs a"
    using that refcount_pos_iff [OF inv, of k] unfolding count_greater_zero_iff [symmetric] count
    by (auto simp: arena_acq_def acquire_def Let_def split: option.splits)
  show "ar_blocks (arena_rel k' a) k = ar_blocks a k" if "k \<in># arena_abs (arena_rel k' a)" for k'
  proof -
    have inv': "arena_inv (arena_rel k' a)"
      using release_ok [OF inv, of k'] by (cases "release k' a") (auto simp: arena_rel_def)
    have "ar_blocks (arena_rel k' a) k \<noteq> None"
      using that refcount_pos_iff [OF inv', of k] count_arena_abs [OF inv'] by (simp flip: count_greater_zero_iff)
    then show ?thesis
      by (auto simp: arena_rel_def release_def split: option.splits if_splits)
  qed
qed

section \<open>Chunking and reassembly\<close>

text \<open>The reference: cut a byte string every \<open>n\<close> bytes, and describe consecutive pieces.\<close>

function pieces :: "nat \<Rightarrow> 'a list \<Rightarrow> 'a list list" where
  "pieces n xs = (if n = 0 \<or> xs = [] then [] else take n xs # pieces n (drop n xs))"
  by pat_completeness auto
termination
  by (relation "measure (\<lambda>(n, xs). length xs)") auto

declare pieces.simps [simp del]

definition ref_of :: "nat \<Rightarrow> u8 list \<Rightarrow> block_ref" where
  "ref_of off p = \<lparr>br_content_hash = hash p, br_offset = of_nat off, br_len = of_nat (length p), br_crc = crc32c p\<rparr>"

fun refs_of :: "nat \<Rightarrow> u8 list list \<Rightarrow> block_ref list" where
  "refs_of off [] = []"
| "refs_of off (p # ps) = ref_of off p # refs_of (off + length p) ps"

lemma concat_pieces: "0 < n \<Longrightarrow> concat (pieces n xs) = xs"
  by (induction n xs rule: pieces.induct) (subst pieces.simps, auto)

lemma pieces_nonempty: "p \<in> set (pieces n xs) \<Longrightarrow> p \<noteq> [] \<and> length p \<le> n"
proof (induction n xs rule: pieces.induct)
  case (1 n xs)
  then have nz: "\<not> (n = 0 \<or> xs = [])" by (auto simp: pieces.simps [of n xs] split: if_splits)
  with 1(2) have "p = take n xs \<or> p \<in> set (pieces n (drop n xs))" by (simp add: pieces.simps [of n xs])
  with 1(1) [OF nz] nz show ?case by auto
qed

definition ceil_div :: "nat \<Rightarrow> nat \<Rightarrow> nat" where
  "ceil_div a b = (if a mod b = 0 then a div b else a div b + 1)"

lemma length_pieces: "0 < n \<Longrightarrow> length (pieces n xs) = ceil_div (length xs) n"
proof (induction n xs rule: pieces.induct)
  case (1 n xs)
  show ?case
  proof (cases "xs = []")
    case False
    then have *: "length (pieces n xs) = Suc (ceil_div (length xs - n) n)"
      using 1 by (simp add: pieces.simps [of n xs])
    show ?thesis
    proof (cases "n \<le> length xs")
      case True
      then show ?thesis using * 1(2) by (simp add: ceil_div_def le_div_geq le_mod_geq)
    qed (use * False in \<open>simp add: ceil_div_def\<close>)
  qed (use 1(2) in \<open>simp add: pieces.simps ceil_div_def\<close>)
qed

lemma length_refs_of [simp]: "length (refs_of off ps) = length ps"
  by (induction ps arbitrary: off) auto

text \<open>The loop counts the payload's length in 64 bits, so in general it covers that many of its bytes.\<close>

abbreviation counted :: "u8 list \<Rightarrow> u8 list" where
  "counted bytes \<equiv> take (unat (of_nat (length bytes) :: u64)) bytes"

lemma unat_length_le: "unat (of_nat (length xs) :: u64) \<le> length xs"
  by (simp add: unat_of_nat take_bit_nat_eq_self_iff take_bit_nat_less_eq_self)

lemma chunk_loop_eq:
  "n \<noteq> 0 \<Longrightarrow> unat offset \<le> unat (of_nat (length bytes) :: u64) \<Longrightarrow>
     chunk_loop bytes n offset = Inr (refs_of (unat offset) (pieces (unat n) (drop (unat offset) (counted bytes))))"
proof (induction bytes n offset rule: chunk_loop.induct)
  case (1 bytes n offset)
  let ?tot = "of_nat (length bytes) :: u64"
  let ?nxt = "offset + min n (?tot - offset)"
  define B where "B = counted bytes"
  have tot: "unat ?tot = length B" and le: "length B \<le> length bytes" and B: "B = take (length B) bytes"
    using unat_length_le [of bytes] by (simp_all add: B_def)
  show ?case
    unfolding B_def [symmetric]
  proof (cases "offset < ?tot")
    case False
    then have "drop (unat offset) B = []" by (simp add: word_less_nat_alt tot)
    then show "chunk_loop bytes n offset = Inr (refs_of (unat offset) (pieces (unat n) (drop (unat offset) B)))"
      using False by (subst chunk_loop.simps) (simp add: pieces.simps Let_def)
  next
    case True
    then have off: "unat offset < length B" using tot by (simp add: word_less_nat_alt)
    have e: "unat ?nxt = unat offset + min (unat n) (length B - unat offset)"
      using advance_bounds(1) [OF 1(2) True] tot by simp
    let ?p = "take (unat n) (drop (unat offset) B)"
    have "slice B (unat offset) (unat ?nxt) = Inr ?p"
      using off unfolding slice_def e by (auto simp: min_def)
    then have sl: "slice bytes (unat offset) (unat ?nxt) = Inr ?p"
      using B slice_take by metis
    have "unat ?nxt \<le> unat ?tot" using off tot unfolding e by linarith
    then have rec: "chunk_loop bytes n ?nxt = Inr (refs_of (unat ?nxt) (pieces (unat n) (drop (unat ?nxt) B)))"
      using 1(1) [OF refl _ refl sl] 1(2) True unfolding B_def by blast
    have "drop (unat ?nxt) B = drop (unat n) (drop (unat offset) B)"
      using off unfolding e by (auto simp: min_def add.commute)
    then have ps: "pieces (unat n) (drop (unat offset) B) = ?p # pieces (unat n) (drop (unat ?nxt) B)"
      using off 1(2) by (simp add: pieces.simps [of "unat n" "drop (unat offset) B"] unat_eq_zero)
    have l: "unat offset + length ?p = unat ?nxt" by (simp add: e min.commute)
    show "chunk_loop bytes n offset = Inr (refs_of (unat offset) (pieces (unat n) (drop (unat offset) B)))"
      using True 1(2) sl rec l by (subst chunk_loop.simps) (simp add: Let_def ps ref_of_def)
  qed
qed

text \<open>Chunking fails only on its two guards.\<close>

lemma chunk_Inr_counted:
  assumes "chunk bytes n = Inr refs"
  shows "refs = refs_of 0 (pieces (unat n) (counted bytes))" and "n \<noteq> 0"
    and "div_ceil (of_nat (length bytes)) n \<le> MAX_BLOCKS_PER_TENSOR"
  using assms chunk_loop_eq [of n 0 bytes] by (auto simp: chunk_def split: if_splits)

lemma counted_id: "length bytes < 2 ^ 64 \<Longrightarrow> counted bytes = bytes"
  by (simp add: unat_of_nat_fits)

lemma chunk_Inr:
  assumes "chunk bytes n = Inr refs" "length bytes < 2 ^ 64"
  shows "refs = refs_of 0 (pieces (unat n) bytes)" and "n \<noteq> 0"
    and "div_ceil (of_nat (length bytes)) n \<le> MAX_BLOCKS_PER_TENSOR"
  using chunk_Inr_counted [OF assms(1)] counted_id [OF assms(2)] by auto

lemma unat_div_ceil: "b \<noteq> 0 \<Longrightarrow> unat (div_ceil a b) = ceil_div (unat a) (unat b)"
proof -
  assume "b \<noteq> 0"
  then have b: "0 < unat b" by (simp add: unat_gt_0)
  have m: "a mod b = 0 \<longleftrightarrow> unat a mod unat b = 0" by (simp add: word_unat_eq_iff unat_mod)
  show ?thesis
  proof (cases "unat a mod unat b = 0")
    case False
    have "unat a div unat b * 1 \<le> unat a div unat b * unat b" using b by (intro mult_le_mono2) simp
    then have "unat a div unat b + 1 \<le> unat a"
      using div_mult_mod_eq [of "unat a" "unat b"] False by linarith
    then have "unat (a div b) + unat (1 :: u64) < 2 ^ 64"
      using unat_lt [of a] by (simp add: unat_div)
    then have "unat (a div b + 1) = unat (a div b) + 1" by (simp add: unat_add_fits)
    with False m show ?thesis by (simp add: div_ceil_def ceil_div_def unat_div)
  qed (simp add: div_ceil_def ceil_div_def m unat_div)
qed

lemma chunk_length: "chunk bytes n = Inr refs \<Longrightarrow> length refs \<le> unat MAX_BLOCKS_PER_TENSOR"
proof -
  assume c: "chunk bytes n = Inr refs"
  note * = chunk_Inr_counted [OF c]
  have n: "0 < unat n" using *(2) by (simp add: unat_gt_0)
  have "length (counted bytes) = unat (of_nat (length bytes) :: u64)"
    using unat_length_le [of bytes] by simp
  then show ?thesis
    using *(3) unat_div_ceil [OF *(2), of "of_nat (length bytes)"] length_pieces [OF n, of "counted bytes"]
    by (simp add: *(1) word_le_nat_alt)
qed

subsection \<open>What chunking produces is a valid block list\<close>

abbreviation flat_len :: "'a list list \<Rightarrow> nat" where
  "flat_len ps \<equiv> length (concat ps)"

lemma validate_refs_of:
  assumes "\<forall>p \<in> set ps. p \<noteq> []" "off + flat_len ps \<le> unat byte_len" "\<forall>(o', l) \<in> set seen. unat o' < off"
  shows "validate_loop byte_len (refs_of off ps) (of_nat off) seen = Inr (of_nat (off + flat_len ps))"
  using assms
proof (induction ps arbitrary: off seen)
  case (Cons p ps)
  have lt: "off + length p < 2 ^ 64" using Cons.prems(2) unat_lt [of byte_len] by simp
  then have u: "unat (of_nat off :: u64) = off" "unat (of_nat (length p) :: u64) = length p"
    "unat (of_nat (off + length p) :: u64) = off + length p"
    by (auto intro!: unat_of_nat_fits simp del: of_nat_add)
  have nz: "(of_nat (length p) :: u64) \<noteq> 0" using Cons.prems(1) u(2) by (metis length_0_conv list.set_intros(1) unat_0)
  have end_le: "\<not> (of_nat (off + length p) :: u64) > byte_len"
    using Cons.prems(2) u(3) by (simp add: word_less_nat_alt del: of_nat_add)
  have fresh: "(of_nat off, of_nat (length p)) \<notin> set seen"
    using Cons.prems(3) u(1) by fastforce
  have "validate_loop byte_len (refs_of (off + length p) ps) (of_nat (off + length p)) ((of_nat off, of_nat (length p)) # seen) =
      Inr (of_nat (off + length p + flat_len ps))"
    by (rule Cons.IH) (use Cons.prems u(1) nz in \<open>auto simp del: of_nat_add\<close>)
  with nz end_le fresh show ?case by (simp add: ref_of_def Let_def add.assoc)
qed simp

lemma chunk_valid:
  assumes "chunk bytes n = Inr refs" "length bytes < 2 ^ 64"
  shows "validate_block_list refs (of_nat (length bytes)) = Inr ()"
proof -
  note c = chunk_Inr [OF assms]
  have n: "0 < unat n" using c(2) by (simp add: unat_gt_0)
  have l: "unat (of_nat (length bytes) :: u64) = length bytes" using assms(2) by (simp add: word_nat)
  have len: "flat_len (pieces (unat n) bytes) = length bytes" by (simp add: concat_pieces n)
  have "length refs \<le> unat MAX_BLOCKS_PER_TENSOR" using chunk_length [OF assms(1)] .
  moreover have "unat (of_nat (length refs) :: u64) = length refs"
    using calculation unat_lt [of MAX_BLOCKS_PER_TENSOR] by (intro unat_of_nat_fits) linarith
  ultimately have "\<not> of_nat (length refs) > MAX_BLOCKS_PER_TENSOR"
    by (simp add: word_less_nat_alt)
  moreover have "validate_loop (of_nat (length bytes)) refs 0 [] = Inr (of_nat (length bytes))"
    using validate_refs_of [of "pieces (unat n) bytes" 0 "of_nat (length bytes)" "[]"] l len
    by (auto simp: c(1) dest!: pieces_nonempty)
  ultimately show ?thesis by (simp add: validate_block_list_def)
qed

subsection \<open>Reassembly\<close>

lemma reconstruct_refs_of:
  assumes "\<forall>p \<in> set ps. get (hash p) = Inr p" "off + flat_len ps \<le> length out" "length out < 2 ^ 64"
  shows "fold_r (reconstruct_step get) (refs_of off ps) out =
    Inr (take off out @ concat ps @ drop (off + flat_len ps) out)"
  using assms
proof (induction ps arbitrary: off out)
  case (Cons p ps)
  let ?out = "take off out @ p @ drop (off + length p) out"
  have u: "unat (of_nat off :: u64) = off" "unat (of_nat off + of_nat (length p) :: u64) = off + length p"
    using Cons.prems(2,3) by (simp_all only: of_nat_add [symmetric]) (simp_all add: word_nat del: of_nat_add)
  have "reconstruct_step get (ref_of off p) out = Inr ?out"
    using Cons.prems by (simp add: reconstruct_step_def ref_of_def u copy_from_slice_def)
  moreover have "fold_r (reconstruct_step get) (refs_of (off + length p) ps) ?out =
      Inr (take (off + length p) ?out @ concat ps @ drop (off + length p + flat_len ps) ?out)"
    by (rule Cons.IH) (use Cons.prems in auto)
  ultimately show ?case
    using Cons.prems(2) by (simp add: ac_simps)
qed simp

lemma reconstruct_chunk:
  assumes "chunk bytes n = Inr refs" "length bytes < 2 ^ 63" "\<forall>p \<in> set (pieces (unat n) bytes). get (hash p) = Inr p"
  shows "reconstruct refs (of_nat (length bytes)) get = Inr bytes"
proof -
  have l: "length bytes < 2 ^ 64" using assms(2) by simp
  note c = chunk_Inr [OF assms(1) l]
  have n: "0 < unat n" using c(2) by (simp add: unat_gt_0)
  have u: "unat (of_nat (length bytes) :: u64) = length bytes" using l by (simp add: word_nat)
  have "fold_r (reconstruct_step get) refs (replicate (length bytes) 0) = Inr bytes"
    using reconstruct_refs_of [OF assms(3), of 0 "replicate (length bytes) 0"] l by (simp add: c(1) concat_pieces n)
  then show ?thesis
    using assms(2) by (simp add: reconstruct_def chunk_valid [OF assms(1) l] vec_zeroed_def u)
qed

text \<open>Whatever reassembly returns is the concatenation of blocks with the recorded length and checksum,
  in order, also for a block list whose unchecked offsets wrapped during validation.\<close>

definition block_matches :: "(digest \<Rightarrow> u8 list result) \<Rightarrow> block_ref \<Rightarrow> u8 list \<Rightarrow> bool" where
  "block_matches get b p \<longleftrightarrow>
     get (br_content_hash b) = Inr p \<and> br_len b = of_nat (length p) \<and> br_crc b = crc32c p"

lemma reconstruct_step_Inr:
  "reconstruct_step get b out = Inr out' \<longleftrightarrow>
     (\<exists>p. block_matches get b p \<and>
        copy_from_slice out (unat (br_offset b)) (unat (br_offset b + br_len b)) p = Inr out')"
  by (auto simp: reconstruct_step_def block_matches_def and_then_Inr_iff split: if_splits)

lemma reconstruct_fold_sound:
  assumes "validate_loop byte_len bs expected seen = Inr final" "fold_r (reconstruct_step get) bs out = Inr out'"
    "unat expected \<le> length out"
  shows "\<exists>ps. list_all2 (block_matches get) bs ps \<and> length out' = length out \<and>
    out' = take (unat expected) out @ concat ps @ drop (unat expected + flat_len ps) out \<and>
    unat final = unat expected + flat_len ps"
  using assms
proof (induction bs arbitrary: expected seen out)
  case Nil
  then show ?case by (auto intro!: exI [of _ "[]"])
next
  case (Cons b bs)
  let ?e = "expected + br_len b"
  from Cons.prems(1) have off: "br_offset b = expected"
    and vrec: "validate_loop byte_len bs ?e ((expected, br_len b) # seen) = Inr final"
    by (auto simp: Let_def split: if_splits)
  from Cons.prems(2) off obtain p out1 where p: "block_matches get b p"
    and c: "copy_from_slice out (unat expected) (unat ?e) p = Inr out1"
    and frec: "fold_r (reconstruct_step get) bs out1 = Inr out'"
    by (auto simp: and_then_Inr_iff reconstruct_step_Inr)
  from c have o1: "unat expected \<le> unat ?e" "unat ?e \<le> length out" "length p = unat ?e - unat expected"
    "out1 = take (unat expected) out @ p @ drop (unat ?e) out"
    by (auto simp: copy_from_slice_Inr_iff)
  then have e: "unat ?e = unat expected + length p" and l1: "length out1 = length out" by auto
  from Cons.IH [OF vrec frec] o1 l1 obtain ps where ps: "list_all2 (block_matches get) bs ps" "length out' = length out1"
    "out' = take (unat ?e) out1 @ concat ps @ drop (unat ?e + flat_len ps) out1" "unat final = unat ?e + flat_len ps"
    by auto
  have "out' = take (unat expected) out @ concat (p # ps) @ drop (unat expected + flat_len (p # ps)) out"
    using ps(3) o1(1,2) unfolding o1(4) e by (simp add: ac_simps)
  with p ps l1 e show ?case by (intro exI [of _ "p # ps"]) simp
qed

lemma reconstruct_sound:
  assumes "reconstruct blocks byte_len get = Inr out"
  shows "length out = unat byte_len \<and> (\<exists>ps. list_all2 (block_matches get) blocks ps \<and> out = concat ps)"
proof -
  from assms have v: "validate_loop byte_len blocks 0 [] = Inr byte_len"
    and f: "fold_r (reconstruct_step get) blocks (replicate (unat byte_len) 0) = Inr out"
    by (auto simp: reconstruct_def validate_block_list_def vec_zeroed_def and_then_Inr_iff split: if_splits)
  from reconstruct_fold_sound [OF v f] show ?thesis by auto
qed

text \<open>With buffers of the sizes Rust allows, the copies never leave the output buffer.\<close>

lemma reconstruct_fold_no_panic:
  assumes "validate_loop byte_len bs expected seen = Inr final" "unat byte_len = length out" "length out < 2 ^ 63"
    "expected \<le> byte_len" "\<And>h. \<not> is_panic (get h)" "\<And>h p. get h = Inr p \<Longrightarrow> length p < 2 ^ 63"
  shows "\<not> is_panic (fold_r (reconstruct_step get) bs out)"
  using assms(1-4)
proof (induction bs arbitrary: expected seen out)
  case (Cons b bs)
  let ?e = "expected + br_len b"
  from Cons.prems(1) have off: "br_offset b = expected" and le: "?e \<le> byte_len"
    and vrec: "validate_loop byte_len bs ?e ((expected, br_len b) # seen) = Inr final"
    by (auto simp: Let_def split: if_splits)
  show ?case
  proof (cases "get (br_content_hash b)")
    case (Inl e)
    then show ?thesis using assms(5) [of "br_content_hash b"] by (simp add: reconstruct_step_def)
  next
    case (Inr p)
    have lp: "length p < 2 ^ 63" using assms(6) Inr .
    show ?thesis
    proof (cases "block_matches get b p")
      case False
      with Inr show ?thesis by (auto simp: reconstruct_step_def block_matches_def)
    next
      case True
      then have len: "br_len b = of_nat (length p)" by (simp add: block_matches_def)
      have ul: "unat (br_len b) = length p" using lp by (simp add: len word_nat)
      have "unat expected < 2 ^ 63" using Cons.prems(2,3,4) by (simp add: word_le_nat_alt)
      with lp ul have ue: "unat ?e = unat expected + length p" by (simp add: unat_add_fits)
      have "unat ?e \<le> length out" using le Cons.prems(2) by (simp add: word_le_nat_alt)
      then have "reconstruct_step get b out = Inr (take (unat expected) out @ p @ drop (unat ?e) out)"
        using True ue by (auto simp: reconstruct_step_Inr off copy_from_slice_Inr_iff)
      moreover have "\<not> is_panic (fold_r (reconstruct_step get) bs (take (unat expected) out @ p @ drop (unat ?e) out))"
        by (rule Cons.IH [OF vrec]) (use Cons.prems le \<open>unat ?e \<le> length out\<close> ue in auto)
      ultimately show ?thesis by simp
    qed
  qed
qed simp

lemma validate_no_panic: "validate_loop byte_len bs expected seen \<noteq> Inl (Panic m)"
  by (induction bs arbitrary: expected seen) (auto simp: Let_def)

lemma reconstruct_no_panic:
  assumes "unat byte_len < 2 ^ 63" "\<And>h. \<not> is_panic (get h)" "\<And>h p. get h = Inr p \<Longrightarrow> length p < 2 ^ 63"
  shows "\<not> is_panic (reconstruct blocks byte_len get)"
proof (cases "validate_block_list blocks byte_len")
  case (Inl e)
  then show ?thesis
    using validate_no_panic by (auto simp: reconstruct_def validate_block_list_def and_then_Inl_iff split: if_splits)
next
  case (Inr u)
  then obtain f where "validate_loop byte_len blocks 0 [] = Inr f"
    by (auto simp: validate_block_list_def and_then_Inr_iff split: if_splits)
  from reconstruct_fold_no_panic [OF this _ _ _ assms(2,3), of "replicate (unat byte_len) 0"] assms(1) Inr
  show ?thesis by (simp add: reconstruct_def vec_zeroed_def)
qed

subsection \<open>What validation accepts\<close>

text \<open>The gapless partitions of a byte range into nonempty blocks, with offsets and lengths as natural numbers.\<close>

fun covers :: "nat \<Rightarrow> block_ref list \<Rightarrow> nat \<Rightarrow> bool" where
  "covers from [] to \<longleftrightarrow> from = to"
| "covers from (b # bs) to \<longleftrightarrow> unat (br_offset b) = from \<and> 0 < unat (br_len b) \<and> covers (from + unat (br_len b)) bs to"

text \<open>The end of a block, which validation computes without a check, is the end in 64 bits.\<close>

definition unwrapped :: "block_ref \<Rightarrow> bool" where
  "unwrapped b \<longleftrightarrow> unat (br_offset b) + unat (br_len b) < 2 ^ 64"

lemma covers_le: "covers from bs to \<Longrightarrow> from \<le> to \<and> (\<forall>b \<in> set bs. unat (br_offset b) + unat (br_len b) \<le> to)"
  by (induction bs arbitrary: "from") fastforce+

text \<open>Among the lists whose blocks all end in 64 bits, validation accepts exactly the partitions.\<close>

lemma validate_loop_covers:
  assumes "\<forall>(o', l) \<in> set seen. unat o' < unat expected" "expected \<le> byte_len"
  shows "validate_loop byte_len bs expected seen = Inr byte_len \<and> (\<forall>b \<in> set bs. unwrapped b) \<longleftrightarrow>
    covers (unat expected) bs (unat byte_len)"
  using assms
proof (induction bs arbitrary: expected seen)
  case Nil
  then show ?case by (simp add: word_unat_eq_iff)
next
  case (Cons b bs)
  let ?e = "expected + br_len b"
  show ?case
  proof (cases "br_len b \<noteq> 0 \<and> br_offset b = expected \<and> unwrapped b \<and> ?e \<le> byte_len")
    case True
    then have pos: "0 < unat (br_len b)" and ue: "unat ?e = unat expected + unat (br_len b)"
      by (auto simp: unat_gt_0 unwrapped_def unat_add_fits)
    have fresh: "(expected, br_len b) \<notin> set seen" using Cons.prems(1) by auto
    have "validate_loop byte_len bs ?e ((expected, br_len b) # seen) = Inr byte_len \<and> (\<forall>b \<in> set bs. unwrapped b) \<longleftrightarrow>
        covers (unat ?e) bs (unat byte_len)"
      by (rule Cons.IH) (use Cons.prems True ue pos in auto)
    with True fresh ue pos show ?thesis by (auto simp: Let_def)
  next
    case False
    have "\<not> covers (unat expected) (b # bs) (unat byte_len)"
    proof
      assume *: "covers (unat expected) (b # bs) (unat byte_len)"
      then have le: "unat expected + unat (br_len b) \<le> unat byte_len" using covers_le [OF *] by simp
      then have "unat expected + unat (br_len b) < 2 ^ 64" using unat_lt [of byte_len] by simp
      with * le False show False by (auto simp: word_le_nat_alt word_unat_eq_iff unwrapped_def unat_add_fits)
    qed
    with False show ?thesis by (auto simp: Let_def not_le not_less)
  qed
qed

lemma validate_covers:
  "validate_block_list bs n = Inr () \<and> (\<forall>b \<in> set bs. unwrapped b) \<longleftrightarrow>
     of_nat (length bs) \<le> MAX_BLOCKS_PER_TENSOR \<and> covers 0 bs (unat n)"
  using validate_loop_covers [of "[]" 0 n bs]
  by (auto simp: validate_block_list_def and_then_Inr_iff not_less split: if_splits)

lemma validate_partition: "validate_block_list bs n = Inr () \<Longrightarrow> covers 0 bs (unat n) \<longleftrightarrow> (\<forall>b \<in> set bs. unwrapped b)"
  using validate_covers [of bs n] by (auto simp: validate_block_list_def not_less split: if_splits)

text \<open>Validation also accepts lists that are no partition; reassembly fails on all of them.\<close>

lemma validate_accepts_wrapped:
  defines "b \<equiv> \<lambda>off len. \<lparr>br_content_hash = Digest [], br_offset = off, br_len = len, br_crc = 0\<rparr>"
  shows "validate_block_list [b 0 5, b 5 18446744073709551614, b 3 7] 10 = Inr () \<and>
    \<not> covers 0 [b 0 5, b 5 18446744073709551614, b 3 7] 10"
  by (simp add: b_def validate_block_list_def MAX_BLOCKS_PER_TENSOR_def)

lemma reconstruct_fold_unwrapped:
  assumes "fold_r (reconstruct_step get) bs out = Inr out'" "b \<in> set bs"
  shows "unwrapped b"
  using assms
proof (induction bs arbitrary: out)
  case (Cons a bs)
  obtain p out1 where p: "copy_from_slice out (unat (br_offset a)) (unat (br_offset a + br_len a)) p = Inr out1"
    and rest: "fold_r (reconstruct_step get) bs out1 = Inr out'"
    using Cons.prems(1) by (auto simp: and_then_Inr_iff reconstruct_step_Inr)
  from p have "unat (br_offset a) \<le> unat (br_offset a + br_len a)" by (simp add: copy_from_slice_Inr_iff)
  then have "unwrapped a" by (simp add: unwrapped_def word_le_nat_alt [symmetric] no_olen_add_nat)
  with Cons.IH [OF rest] Cons.prems(2) show ?case by auto
qed simp

lemma reconstruct_covers:
  assumes "reconstruct bs n get = Inr out"
  shows "covers 0 bs (unat n)"
proof -
  obtain buf where "validate_block_list bs n = Inr ()" "fold_r (reconstruct_step get) bs buf = Inr out"
    using assms by (auto simp: reconstruct_def and_then_Inr_iff)
  then show ?thesis using validate_covers [of bs n] reconstruct_fold_unwrapped by blast
qed

end
