(* ===== verification/Backend.thy ===== *)
theory Backend
  imports Tiers Storage
begin

text \<open>
  \<^verbatim>\<open>backend.rs\<close> and \<^verbatim>\<open>backend_cpu.rs\<close>.  The trait is a record of its methods over an abstract
  backend state, so that a registry can hold any implementation; its contract is the locale
  \<open>device_backend\<close>, interpreted on the CPU backend.
\<close>

datatype device_handle = Cpu "u8 list" | Opaque u64

record device_buffer =
  db_backend :: backend_id
  db_bytes :: usize
  db_handle :: device_handle

definition db_is_empty :: "device_buffer \<Rightarrow> bool" where
  "db_is_empty dev \<longleftrightarrow> db_bytes dev = 0"

text \<open>A method that writes through \<open>&mut\<close> returns the buffer it leaves beside its result.  A copy into a
  host slice returns the filled slice.\<close>

record 'b backend_ops =
  be_id :: "'b \<Rightarrow> backend_id"
  be_byte_capacity :: "'b \<Rightarrow> u64"
  be_bytes_allocated :: "'b \<Rightarrow> u64"
  be_allocate :: "usize \<Rightarrow> 'b \<Rightarrow> device_buffer result \<times> 'b"
  be_to_device :: "u8 list \<Rightarrow> device_buffer \<Rightarrow> 'b \<Rightarrow> (unit result \<times> device_buffer) \<times> 'b"
  be_device_to_host :: "device_buffer \<Rightarrow> u8 list \<Rightarrow> 'b \<Rightarrow> u8 list result"
  be_copy_in :: "device_buffer \<Rightarrow> usize \<Rightarrow> u8 list \<Rightarrow> 'b \<Rightarrow> (unit result \<times> device_buffer) \<times> 'b"
  be_copy_out :: "device_buffer \<Rightarrow> usize \<Rightarrow> u8 list \<Rightarrow> 'b \<Rightarrow> u8 list result"
  be_fill :: "device_buffer \<Rightarrow> usize \<Rightarrow> u8 \<Rightarrow> 'b \<Rightarrow> (unit result \<times> device_buffer) \<times> 'b"
  be_free :: "device_buffer \<Rightarrow> 'b \<Rightarrow> unit result \<times> 'b"

section \<open>The registry\<close>

type_synonym 'b backend_registry = "'b list"

definition registry_register :: "'b \<Rightarrow> 'b backend_registry \<Rightarrow> 'b backend_registry" where
  "registry_register b reg = reg @ [b]"

text \<open>\<open>get\<close> finds the first backend with the id; a method call on it updates that slot.\<close>

fun registry_get :: "'b backend_ops \<Rightarrow> backend_id \<Rightarrow> 'b backend_registry \<Rightarrow> 'b option" where
  "registry_get ops i [] = None"
| "registry_get ops i (b # bs) = (if be_id ops b = i then Some b else registry_get ops i bs)"

fun registry_put :: "'b backend_ops \<Rightarrow> backend_id \<Rightarrow> 'b \<Rightarrow> 'b backend_registry \<Rightarrow> 'b backend_registry" where
  "registry_put ops i b' [] = []"
| "registry_put ops i b' (b # bs) = (if be_id ops b = i then b' # bs else b # registry_put ops i b' bs)"

definition registry_count :: "'b backend_registry \<Rightarrow> nat" where
  "registry_count reg = length reg"

section \<open>The CPU backend\<close>

record cpu_backend =
  cb_id :: backend_id
  cb_capacity :: u64
  cb_allocated :: u64

definition cpu_new :: "usize \<Rightarrow> u64 \<Rightarrow> cpu_backend" where
  "cpu_new device capacity = \<lparr>cb_id = backend_cpu device, cb_capacity = capacity, cb_allocated = 0\<rparr>"

definition cpu_allocate :: "usize \<Rightarrow> cpu_backend \<Rightarrow> device_buffer result \<times> cpu_backend" where
  "cpu_allocate bytes b =
     (case checked_add (cb_allocated b) bytes of
        None \<Rightarrow> (Inl (BackendErr ''CPU device byte accounting overflow''), b)
      | Some after \<Rightarrow>
          if after > cb_capacity b
          then (Inl (BackendErr (''CPU device allocation of '' @ show_w bytes @ '' bytes would exceed capacity '' @
                  show_w (cb_capacity b))), b)
          else
            (case vec_zeroed (unat bytes) of
               Inl e \<Rightarrow> (Inl e, b)
             | Inr v \<Rightarrow> (Inr \<lparr>db_backend = cb_id b, db_bytes = bytes, db_handle = Cpu v\<rparr>, b\<lparr>cb_allocated := after\<rparr>)))"

definition not_cpu :: error where
  "not_cpu = BackendErr ''not a CPU device buffer''"

definition cpu_to_device :: "u8 list \<Rightarrow> device_buffer \<Rightarrow> unit result \<times> device_buffer" where
  "cpu_to_device host dev =
     (if of_nat (length host) \<noteq> db_bytes dev
      then (Inl (BackendErr (''H2D length mismatch: host '' @ show_nat (length host) @ '' vs device '' @ show_w (db_bytes dev))), dev)
      else
        (case db_handle dev of
           Cpu v \<Rightarrow>
             (case copy_from_slice v 0 (length v) host of
                Inl e \<Rightarrow> (Inl e, dev)
              | Inr v' \<Rightarrow> (Inr (), dev\<lparr>db_handle := Cpu v'\<rparr>))
         | _ \<Rightarrow> (Inl not_cpu, dev)))"

definition cpu_device_to_host :: "device_buffer \<Rightarrow> u8 list \<Rightarrow> u8 list result" where
  "cpu_device_to_host dev host =
     (if of_nat (length host) \<noteq> db_bytes dev
      then Inl (BackendErr (''D2H length mismatch: host '' @ show_nat (length host) @ '' vs device '' @ show_w (db_bytes dev)))
      else (case db_handle dev of Cpu v \<Rightarrow> copy_from_slice host 0 (length host) v | _ \<Rightarrow> Inl not_cpu))"

definition cpu_copy_in :: "device_buffer \<Rightarrow> usize \<Rightarrow> u8 list \<Rightarrow> unit result \<times> device_buffer" where
  "cpu_copy_in dev offset data =
     (case checked_add offset (of_nat (length data)) of
        None \<Rightarrow> (Inl (BackendErr ''copy_in offset overflow''), dev)
      | Some end' \<Rightarrow>
          if end' > db_bytes dev
          then (Inl (BackendErr (''copy_in out of bounds: '' @ show_w offset @ ''+'' @ show_nat (length data) @ '' > '' @
                  show_w (db_bytes dev))), dev)
          else
            (case db_handle dev of
               Cpu v \<Rightarrow>
                 (case copy_from_slice v (unat offset) (unat end') data of
                    Inl e \<Rightarrow> (Inl e, dev)
                  | Inr v' \<Rightarrow> (Inr (), dev\<lparr>db_handle := Cpu v'\<rparr>))
             | _ \<Rightarrow> (Inl not_cpu, dev)))"

definition cpu_copy_out :: "device_buffer \<Rightarrow> usize \<Rightarrow> u8 list \<Rightarrow> u8 list result" where
  "cpu_copy_out dev offset data =
     (case checked_add offset (of_nat (length data)) of
        None \<Rightarrow> Inl (BackendErr ''copy_out offset overflow'')
      | Some end' \<Rightarrow>
          if end' > db_bytes dev
          then Inl (BackendErr (''copy_out out of bounds: '' @ show_w offset @ ''+'' @ show_nat (length data) @ '' > '' @
                  show_w (db_bytes dev)))
          else
            (case db_handle dev of
               Cpu v \<Rightarrow> and_then (slice v (unat offset) (unat end')) (\<lambda>src. copy_from_slice data 0 (length data) src)
             | _ \<Rightarrow> Inl not_cpu))"

definition cpu_fill :: "device_buffer \<Rightarrow> usize \<Rightarrow> u8 \<Rightarrow> unit result \<times> device_buffer" where
  "cpu_fill dev bytes val =
     (if bytes > db_bytes dev
      then (Inl (BackendErr (''fill exceeds device size '' @ show_w bytes @ '' > '' @ show_w (db_bytes dev))), dev)
      else
        (case db_handle dev of
           Cpu v \<Rightarrow>
             (case copy_from_slice v 0 (unat bytes) (replicate (unat bytes) val) of
                Inl e \<Rightarrow> (Inl e, dev)
              | Inr v' \<Rightarrow> (Inr (), dev\<lparr>db_handle := Cpu v'\<rparr>))
         | _ \<Rightarrow> (Inl not_cpu, dev)))"

definition cpu_free :: "device_buffer \<Rightarrow> cpu_backend \<Rightarrow> unit result \<times> cpu_backend" where
  "cpu_free dev b =
     (case db_handle dev of
        Cpu v \<Rightarrow> (Inr (), b\<lparr>cb_allocated := cb_allocated b - of_nat (length v)\<rparr>)
      | _ \<Rightarrow> (Inl not_cpu, b))"

definition cpu_ops :: "cpu_backend backend_ops" where
  "cpu_ops = \<lparr>be_id = cb_id, be_byte_capacity = cb_capacity, be_bytes_allocated = cb_allocated,
     be_allocate = cpu_allocate,
     be_to_device = (\<lambda>host dev b. (cpu_to_device host dev, b)),
     be_device_to_host = (\<lambda>dev host b. cpu_device_to_host dev host),
     be_copy_in = (\<lambda>dev offset data b. (cpu_copy_in dev offset data, b)),
     be_copy_out = (\<lambda>dev offset data b. cpu_copy_out dev offset data),
     be_fill = (\<lambda>dev bytes val b. (cpu_fill dev bytes val, b)),
     be_free = cpu_free\<rparr>"

section \<open>The contract\<close>

text \<open>\<open>holds b dev xs\<close>: on backend \<open>b\<close> the buffer \<open>dev\<close> is live and contains the bytes \<open>xs\<close>.\<close>

locale device_backend =
  fixes ops :: "'b backend_ops"
    and inv :: "'b \<Rightarrow> bool"
    and holds :: "'b \<Rightarrow> device_buffer \<Rightarrow> u8 list \<Rightarrow> bool"
  assumes alloc_ok: "inv b \<Longrightarrow> be_allocate ops n b = (Inr dev, b') \<Longrightarrow>
            inv b' \<and> (\<exists>old. length old = unat n \<and> holds b' dev old) \<and> be_id ops b' = be_id ops b \<and> db_backend dev = be_id ops b \<and>
            unat (be_bytes_allocated ops b') = unat (be_bytes_allocated ops b) + unat n \<and>
            be_bytes_allocated ops b' \<le> be_byte_capacity ops b'"
    and alloc_err: "inv b \<Longrightarrow> be_allocate ops n b = (Inl e, b') \<Longrightarrow>
            inv b' \<and> be_id ops b' = be_id ops b \<and> be_bytes_allocated ops b' = be_bytes_allocated ops b"
    and to_device_ok: "inv b \<Longrightarrow> holds b dev old \<Longrightarrow> length host = length old \<Longrightarrow>
            \<exists>dev' b'. be_to_device ops host dev b = ((Inr (), dev'), b') \<and> inv b' \<and> holds b' dev' host \<and>
              be_id ops b' = be_id ops b \<and> db_backend dev' = db_backend dev \<and>
              be_bytes_allocated ops b' = be_bytes_allocated ops b"
    and to_host_ok: "inv b \<Longrightarrow> holds b dev xs \<Longrightarrow> length host = length xs \<Longrightarrow>
            be_device_to_host ops dev host b = Inr xs"
    and free_ok: "inv b \<Longrightarrow> holds b dev xs \<Longrightarrow> length xs \<le> unat (be_bytes_allocated ops b) \<Longrightarrow>
            \<exists>b'. be_free ops dev b = (Inr (), b') \<and> inv b' \<and> be_id ops b' = be_id ops b \<and>
              unat (be_bytes_allocated ops b') = unat (be_bytes_allocated ops b) - length xs"
begin

definition upload :: "u8 list \<Rightarrow> 'b \<Rightarrow> device_buffer result \<times> 'b" where
  "upload host b =
     (case be_allocate ops (of_nat (length host)) b of
        (Inl e, b1) \<Rightarrow> (Inl e, b1)
      | (Inr dev, b1) \<Rightarrow>
          (case be_to_device ops host dev b1 of
             ((Inl e, _), b2) \<Rightarrow> (Inl e, b2)
           | ((Inr _, dev'), b2) \<Rightarrow> (Inr dev', b2)))"

text \<open>Allocating and copying fails only in the allocation, and what was copied can be read back.\<close>

lemma upload_ok:
  assumes "inv b" "length host < 2 ^ 64" "be_allocate ops (of_nat (length host)) b = (Inr dev, b1)"
  shows "\<exists>dev' b2. upload host b = (Inr dev', b2) \<and> inv b2 \<and> holds b2 dev' host \<and> db_backend dev' = be_id ops b \<and>
    be_id ops b2 = be_id ops b \<and> be_device_to_host ops dev' (replicate (length host) 0) b2 = Inr host \<and>
    unat (be_bytes_allocated ops b2) = unat (be_bytes_allocated ops b) + length host"
proof -
  have n: "unat (of_nat (length host) :: usize) = length host" using assms(2) by (simp add: word_nat)
  note a = alloc_ok [OF assms(1,3), unfolded n]
  then obtain old where "length old = length host" "holds b1 dev old" by blast
  with to_device_ok [of b1 dev old host] a
  obtain dev' b2 where d: "be_to_device ops host dev b1 = ((Inr (), dev'), b2)" "inv b2" "holds b2 dev' host"
    "be_id ops b2 = be_id ops b1" "db_backend dev' = db_backend dev" "be_bytes_allocated ops b2 = be_bytes_allocated ops b1"
    by auto
  with a to_host_ok [OF d(2,3)] assms(3) show ?thesis by (simp add: upload_def)
qed

lemma upload_free:
  assumes "inv b" "length host < 2 ^ 64" "upload host b = (Inr dev, b2)"
  shows "\<exists>b3. be_free ops dev b2 = (Inr (), b3) \<and> inv b3 \<and> be_bytes_allocated ops b3 = be_bytes_allocated ops b"
proof -
  from assms(3) obtain dev1 b1 where al: "be_allocate ops (of_nat (length host)) b = (Inr dev1, b1)"
    by (auto simp: upload_def split: prod.splits sum.splits)
  from upload_ok [OF assms(1,2) al] assms(3) have u: "inv b2" "holds b2 dev host"
    "unat (be_bytes_allocated ops b2) = unat (be_bytes_allocated ops b) + length host" by auto
  from free_ok [OF u(1,2)] u(3) show ?thesis by (auto simp: word_unat_eq_iff)
qed

end

definition cpu_inv :: "cpu_backend \<Rightarrow> bool" where
  "cpu_inv b \<longleftrightarrow> cb_allocated b \<le> cb_capacity b"

definition cpu_holds :: "cpu_backend \<Rightarrow> device_buffer \<Rightarrow> u8 list \<Rightarrow> bool" where
  "cpu_holds b dev xs \<longleftrightarrow> db_handle dev = Cpu xs \<and> db_bytes dev = of_nat (length xs) \<and> length xs < 2 ^ 63"

lemma copy_all: "length ys = length xs \<Longrightarrow> copy_from_slice xs 0 (length xs) ys = Inr ys"
  by (simp add: copy_from_slice_def)

interpretation cpu: device_backend cpu_ops cpu_inv cpu_holds
proof
  fix b b' :: cpu_backend and n :: usize and dev :: device_buffer
  assume "cpu_inv b" "be_allocate cpu_ops n b = (Inr dev, b')"
  then show "cpu_inv b' \<and> (\<exists>old. length old = unat n \<and> cpu_holds b' dev old) \<and> be_id cpu_ops b' = be_id cpu_ops b \<and>
      db_backend dev = be_id cpu_ops b \<and> unat (be_bytes_allocated cpu_ops b') = unat (be_bytes_allocated cpu_ops b) + unat n \<and>
      be_bytes_allocated cpu_ops b' \<le> be_byte_capacity cpu_ops b'"
    by (auto simp: cpu_ops_def cpu_allocate_def cpu_holds_def cpu_inv_def vec_zeroed_def checked_add_Some word_nat
        split: option.splits if_splits sum.splits)
next
  fix b b' :: cpu_backend and n e assume "cpu_inv b" "be_allocate cpu_ops n b = (Inl e, b')"
  then show "cpu_inv b' \<and> be_id cpu_ops b' = be_id cpu_ops b \<and> be_bytes_allocated cpu_ops b' = be_bytes_allocated cpu_ops b"
    by (auto simp: cpu_ops_def cpu_allocate_def split: option.splits if_splits sum.splits)
next
  fix b :: cpu_backend and dev old and host :: "u8 list"
  assume "cpu_inv b" "cpu_holds b dev old" "length host = length old"
  then show "\<exists>dev' b'. be_to_device cpu_ops host dev b = ((Inr (), dev'), b') \<and> cpu_inv b' \<and> cpu_holds b' dev' host \<and>
      be_id cpu_ops b' = be_id cpu_ops b \<and> db_backend dev' = db_backend dev \<and>
      be_bytes_allocated cpu_ops b' = be_bytes_allocated cpu_ops b"
    using copy_all [of host old] by (auto simp: cpu_ops_def cpu_to_device_def cpu_holds_def)
next
  fix b :: cpu_backend and dev xs and host :: "u8 list"
  assume "cpu_holds b dev xs" "length host = length xs"
  then show "be_device_to_host cpu_ops dev host b = Inr xs"
    using copy_all [of xs host] by (auto simp: cpu_ops_def cpu_device_to_host_def cpu_holds_def)
next
  fix b :: cpu_backend and dev xs
  assume *: "cpu_inv b" "cpu_holds b dev xs" "length xs \<le> unat (be_bytes_allocated cpu_ops b)"
  have u: "unat (of_nat (length xs) :: u64) = length xs" using *(2) by (simp add: cpu_holds_def word_nat)
  then have le: "of_nat (length xs) \<le> cb_allocated b" using *(3) by (simp add: cpu_ops_def word_le_nat_alt)
  then have "unat (cb_allocated b - of_nat (length xs)) = unat (cb_allocated b) - length xs" by (simp add: unat_sub_fits u)
  with * le show "\<exists>b'. be_free cpu_ops dev b = (Inr (), b') \<and> cpu_inv b' \<and> be_id cpu_ops b' = be_id cpu_ops b \<and>
      unat (be_bytes_allocated cpu_ops b') = unat (be_bytes_allocated cpu_ops b) - length xs"
    by (auto simp: cpu_ops_def cpu_free_def cpu_holds_def cpu_inv_def word_le_nat_alt)
qed

section \<open>Partial copies\<close>

text \<open>A copied-in range reads back, and every byte outside it is kept.\<close>

lemma cpu_copy_in_ok:
  assumes "cpu_holds b dev xs" "unat offset + length data \<le> length xs"
  shows "\<exists>dev'. cpu_copy_in dev offset data = (Inr (), dev') \<and>
    cpu_holds b dev' (take (unat offset) xs @ data @ drop (unat offset + length data) xs)"
proof -
  have u: "unat (of_nat (length data) :: u64) = length data" "unat (of_nat (length xs) :: u64) = length xs"
    using assms by (simp_all add: cpu_holds_def word_nat)
  have e: "unat (offset + of_nat (length data)) = unat offset + length data"
    using assms u by (simp add: cpu_holds_def unat_add_fits)
  let ?ys = "take (unat offset) xs @ data @ drop (unat offset + length data) xs"
  have len: "length ?ys = length xs" using assms(2) by simp
  have "cpu_copy_in dev offset data = (Inr (), dev\<lparr>db_handle := Cpu ?ys\<rparr>)"
    using assms u e
    by (simp add: cpu_copy_in_def cpu_holds_def checked_add_def word_less_nat_alt copy_from_slice_def not_less)
  then show ?thesis
    using assms(1) by (intro exI conjI) (assumption, simp only: cpu_holds_def len, simp)
qed

lemma cpu_copy_out_in:
  assumes "cpu_holds b dev xs" "unat offset + length data \<le> length xs" "cpu_copy_in dev offset data = (Inr (), dev')"
    "length buf = length data"
  shows "cpu_copy_out dev' offset buf = Inr data"
proof -
  have u: "unat (of_nat (length data) :: u64) = length data" "unat (of_nat (length xs) :: u64) = length xs"
    using assms by (simp_all add: cpu_holds_def word_nat)
  have e: "unat (offset + of_nat (length data)) = unat offset + length data"
    using assms(1,2) u by (simp add: cpu_holds_def unat_add_fits)
  let ?ys = "take (unat offset) xs @ data @ drop (unat offset + length data) xs"
  have h: "db_handle dev' = Cpu ?ys" "db_bytes dev' = of_nat (length xs)"
    using cpu_copy_in_ok [OF assms(1,2)] assms(2,3) by (auto simp: cpu_holds_def)
  have s: "slice ?ys (unat offset) (unat offset + length data) = Inr data"
    using assms(2) by (simp add: slice_def)
  show ?thesis
    using assms(1,2,4) u e h s copy_all [of data buf]
    by (simp add: cpu_copy_out_def checked_add_def word_less_nat_alt cpu_holds_def not_less)
qed

end
