(* ===== verification/Persistence.thy ===== *)
theory Persistence
  imports Compat Storage
begin

text \<open>
  \<^verbatim>\<open>persistence.rs\<close>: block files, manifests and atomic commit.  The file system is a map from
  directory and file name to contents, together with the outcomes of the I/O calls still to come: a
  call takes the next outcome and either works or fails with the given error, and a failing write
  leaves a prefix of its bytes.  An early return after a fault leaves the files exactly as a crash at
  that point would, so one definition covers both.  The order in which a directory lists its entries
  is an argument.
\<close>

section \<open>The file system\<close>

datatype dir = BlocksDir | ManifestsDir

datatype fault = Fault string nat

record store =
  st_files :: "dir \<times> string \<rightharpoonup> u8 list"
  st_faults :: "fault option list"
  st_pid :: u32

text \<open>No outcome left means that the call works.\<close>

definition next_fault :: "store \<Rightarrow> fault option \<times> store" where
  "next_fault st = (case st_faults st of [] \<Rightarrow> (None, st) | f # fs \<Rightarrow> (f, st\<lparr>st_faults := fs\<rparr>))"

definition io_call :: "(store \<Rightarrow> 'a result \<times> store) \<Rightarrow> (nat \<Rightarrow> store \<Rightarrow> store) \<Rightarrow> store \<Rightarrow> 'a result \<times> store" where
  "io_call act partial st =
     (case next_fault st of
        (None, st) \<Rightarrow> act st
      | (Some (Fault m n), st) \<Rightarrow> (Inl (Io m), partial n st))"

definition no_such_file :: error where
  "no_such_file = Io ''No such file or directory (os error 2)''"

abbreviation upd_file :: "dir \<times> string \<Rightarrow> u8 list option \<Rightarrow> store \<Rightarrow> store" where
  "upd_file p v st \<equiv> st\<lparr>st_files := (st_files st)(p := v)\<rparr>"

definition fs_exists :: "dir \<times> string \<Rightarrow> store \<Rightarrow> bool" where
  "fs_exists p st \<longleftrightarrow> st_files st p \<noteq> None"

definition fs_read :: "dir \<times> string \<Rightarrow> store \<Rightarrow> u8 list result \<times> store" where
  "fs_read p = io_call (\<lambda>st. (ok_or (st_files st p) no_such_file, st)) (\<lambda>_ st. st)"

definition fs_create :: "dir \<times> string \<Rightarrow> store \<Rightarrow> unit result \<times> store" where
  "fs_create p = io_call (\<lambda>st. (Inr (), upd_file p (Some []) st)) (\<lambda>_ st. st)"

definition fs_write_all :: "dir \<times> string \<Rightarrow> u8 list \<Rightarrow> store \<Rightarrow> unit result \<times> store" where
  "fs_write_all p bytes = io_call (\<lambda>st. (Inr (), upd_file p (Some bytes) st)) (\<lambda>n st. upd_file p (Some (take n bytes)) st)"

definition fs_sync_all :: "store \<Rightarrow> unit result \<times> store" where
  "fs_sync_all = io_call (\<lambda>st. (Inr (), st)) (\<lambda>_ st. st)"

definition fs_remove_file :: "dir \<times> string \<Rightarrow> store \<Rightarrow> unit result \<times> store" where
  "fs_remove_file p = io_call
     (\<lambda>st. if st_files st p = None then (Inl no_such_file, st) else (Inr (), upd_file p None st)) (\<lambda>_ st. st)"

definition fs_rename :: "dir \<times> string \<Rightarrow> dir \<times> string \<Rightarrow> store \<Rightarrow> unit result \<times> store" where
  "fs_rename p q = io_call
     (\<lambda>st. case st_files st p of
         None \<Rightarrow> (Inl no_such_file, st)
       | Some bytes \<Rightarrow> (Inr (), upd_file q (Some bytes) (upd_file p None st))) (\<lambda>_ st. st)"

section \<open>Atomic commit\<close>

definition tmp_name :: "string \<Rightarrow> u32 \<Rightarrow> string" where
  "tmp_name file_name pid = file_name @ ''.tmp'' @ show_w pid"

definition atomic_write :: "dir \<times> string \<Rightarrow> u8 list \<Rightarrow> store \<Rightarrow> unit result \<times> store" where
  "atomic_write path bytes st0 =
     (let tmp = (fst path, tmp_name (snd path) (st_pid st0)) in
      st_then (fs_create tmp) (\<lambda>_.
      st_then (fs_write_all tmp bytes) (\<lambda>_.
      st_then fs_sync_all (\<lambda>_ st.
        let st = (if fs_exists path st then snd (fs_remove_file path st) else st) in
        st_then (fs_rename tmp path) (\<lambda>_. Pair (Inr ())) st))) st0)"

section \<open>Manifests\<close>

definition MANIFEST_MAGIC :: u32 where "MANIFEST_MAGIC = 0x54434D31"
definition MANIFEST_VERSION :: u8 where "MANIFEST_VERSION = 1"

record persist_meta =
  pe_object_id :: string
  pe_namespace :: string
  pe_key :: string
  pe_generation :: u64
  pe_compat :: compat_key
  pe_byte_len :: u64
  pe_numel :: u64
  pe_created_ns :: u64
  pe_blocks :: "block_ref list"

definition enc_block :: "block_ref \<Rightarrow> u8 list" where
  "enc_block b = w_bytes (digest_bytes (br_content_hash b)) @ w_u64 (br_offset b) @ w_u64 (br_len b) @ w_u32 (br_crc b)"

definition dec_block :: "block_ref parser" where
  "dec_block =
     p_then r_bytes (\<lambda>hash_bytes.
     if length hash_bytes \<noteq> 32 then p_fail (Persistence ''block content hash wrong length'')
     else
     p_then r_u64 (\<lambda>offset. p_then r_u64 (\<lambda>len. p_then r_u32 (\<lambda>crc.
     p_ret \<lparr>br_content_hash = Digest hash_bytes, br_offset = offset, br_len = len, br_crc = crc\<rparr>))))"

definition manifest_body :: "persist_meta \<Rightarrow> u8 list" where
  "manifest_body m =
     w_u32 MANIFEST_MAGIC @ w_u8 MANIFEST_VERSION @ w_str (pe_object_id m) @ w_str (pe_namespace m) @
     w_str (pe_key m) @ w_u64 (pe_generation m) @ w_bytes (compat_encode (pe_compat m)) @
     w_u64 (pe_byte_len m) @ w_u64 (pe_numel m) @ w_u64 (pe_created_ns m) @ w_list enc_block (pe_blocks m)"

definition encode_manifest :: "persist_meta \<Rightarrow> u8 list" where
  "encode_manifest m = (let body = manifest_body m in body @ digest_bytes (hash body))"

definition dec_manifest_body :: "persist_meta parser" where
  "dec_manifest_body =
     p_then r_u32 (\<lambda>magic.
     if magic \<noteq> MANIFEST_MAGIC then p_fail (Persistence ''manifest magic mismatch'')
     else
     p_then r_u8 (\<lambda>version.
     if version \<noteq> MANIFEST_VERSION
     then p_fail (Persistence (''manifest version '' @ show_w version @ '' unsupported''))
     else
     p_then r_str (\<lambda>object_id.
     p_then r_str (\<lambda>namespace.
     p_then r_str (\<lambda>key.
     p_then r_u64 (\<lambda>generation.
     p_then r_bytes (\<lambda>compat_bytes.
     p_then (p_lift (compat_decode compat_bytes)) (\<lambda>compat.
     p_then r_u64 (\<lambda>byte_len.
     p_then r_u64 (\<lambda>numel.
     p_then r_u64 (\<lambda>created_ns.
     p_then r_u64 (\<lambda>block_count.
     if block_count > MAX_BLOCKS_PER_TENSOR
     then p_fail (Persistence ''manifest block count exceeds maximum'')
     else
     p_then (p_many (unat block_count) dec_block) (\<lambda>blocks.
     p_ret \<lparr>pe_object_id = object_id, pe_namespace = namespace, pe_key = key, pe_generation = generation,
       pe_compat = compat, pe_byte_len = byte_len, pe_numel = numel, pe_created_ns = created_ns,
       pe_blocks = blocks\<rparr>)))))))))))))"

definition decode_manifest :: "u8 list \<Rightarrow> persist_meta result" where
  "decode_manifest data =
     (if length data < 32 then Inl (Persistence ''manifest truncated'')
      else
        let body = take (length data - 32) data; anchor = drop (length data - 32) data in
        if digest_bytes (hash body) \<noteq> anchor then Inl (Persistence ''manifest anchor mismatch'')
        else
          and_then (dec_manifest_body (rd_new body)) (\<lambda>(m, r).
          if \<not> rd_eof r then Inl (Persistence ''trailing bytes in manifest'')
          else
            and_then (shape_byte_len (ck_shape (pe_compat m)) (byte_size (ck_dtype (pe_compat m)))) (\<lambda>bl.
            if pe_byte_len m \<noteq> bl then Inl (Persistence ''manifest byte_len inconsistent with compat'')
            else
              and_then (numel (ck_shape (pe_compat m))) (\<lambda>n.
              if pe_numel m \<noteq> n then Inl (Persistence ''manifest numel inconsistent with compat'')
              else and_then (validate_block_list (pe_blocks m) (pe_byte_len m)) (\<lambda>_. Inr m)))))"

section \<open>The store\<close>

definition is_ascii_hexdigit :: "char \<Rightarrow> bool" where
  "is_ascii_hexdigit c \<longleftrightarrow>
     (let n = of_char c :: nat in 48 \<le> n \<and> n \<le> 57 \<or> 97 \<le> n \<and> n \<le> 102 \<or> 65 \<le> n \<and> n \<le> 70)"

definition hex_path_valid :: "string \<Rightarrow> bool" where
  "hex_path_valid p \<longleftrightarrow> length p = 64 \<and> list_all is_ascii_hexdigit p"

definition manifest_path :: "string \<Rightarrow> (dir \<times> string) result" where
  "manifest_path oid =
     (if \<not> hex_path_valid oid then Inl (Persistence ''invalid object id for manifest path'')
      else Inr (ManifestsDir, oid @ ''.manifest''))"

definition block_path :: "digest \<Rightarrow> (dir \<times> string) result" where
  "block_path h =
     (if \<not> hex_path_valid (to_hex h) then Inl (Persistence ''invalid content hash for block path'')
      else Inr (BlocksDir, to_hex h))"

definition put_block :: "u8 list \<Rightarrow> store \<Rightarrow> digest result \<times> store" where
  "put_block bytes =
     (let h = hash bytes in
      st_then (Pair (block_path h)) (\<lambda>path st.
        if fs_exists path st then
          st_then (fs_read path) (\<lambda>existing.
            if existing \<noteq> bytes then Pair (Inl (Persistence (''block '' @ to_hex h @ '' exists with corrupt contents'')))
            else Pair (Inr h)) st
        else st_then (atomic_write path bytes) (\<lambda>_. Pair (Inr h)) st))"

definition get_block :: "digest \<Rightarrow> store \<Rightarrow> u8 list result \<times> store" where
  "get_block h =
     st_then (Pair (block_path h)) (\<lambda>path st.
       let (r, st) = fs_read path st in
       (case r of
          Inl e \<Rightarrow> (Inl (Reconstruct (''block '' @ to_hex h @ '' missing: '' @ error_display e)), st)
        | Inr bytes \<Rightarrow>
            if hash bytes \<noteq> h then (Inl (Persistence (''block '' @ to_hex h @ '' content hash mismatch'')), st)
            else (Inr bytes, st)))"

definition remove_block :: "digest \<Rightarrow> store \<Rightarrow> unit result \<times> store" where
  "remove_block h =
     st_then (Pair (block_path h)) (\<lambda>path st.
       if fs_exists path st then fs_remove_file path st else (Inr (), st))"

definition write_manifest :: "persist_meta \<Rightarrow> store \<Rightarrow> unit result \<times> store" where
  "write_manifest m =
     (let bytes = encode_manifest m in
      st_then (Pair (manifest_path (pe_object_id m))) (\<lambda>path. atomic_write path bytes))"

definition read_manifest :: "string \<Rightarrow> store \<Rightarrow> persist_meta result \<times> store" where
  "read_manifest oid =
     st_then (Pair (manifest_path oid)) (\<lambda>path.
       st_then (fs_read path) (\<lambda>bytes. Pair (decode_manifest bytes)))"

definition remove_manifest :: "string \<Rightarrow> store \<Rightarrow> unit result \<times> store" where
  "remove_manifest oid =
     st_then (Pair (manifest_path oid)) (\<lambda>path st.
       if fs_exists path st then fs_remove_file path st else (Inr (), st))"

definition has_manifest :: "string \<Rightarrow> store \<Rightarrow> bool result" where
  "has_manifest oid st = and_then (manifest_path oid) (\<lambda>path. Inr (fs_exists path st))"

text \<open>\<open>Path::extension\<close>: what follows the last dot, unless that dot starts the name.\<close>

definition path_extension :: "string \<Rightarrow> string option" where
  "path_extension name =
     (let ext = rev (takeWhile (\<lambda>c. c \<noteq> CHR ''.'') (rev name)) in
      if length ext + 1 < length name then Some ext else None)"

text \<open>One directory entry: an unreadable or malformed manifest is skipped.\<close>

definition recover_entry :: "string \<Rightarrow> store \<Rightarrow> persist_meta list \<times> store" where
  "recover_entry name st =
     (if path_extension name \<noteq> Some ''manifest'' then ([], st)
      else
        (case fs_read (ManifestsDir, name) st of
           (Inr bytes, st) \<Rightarrow> ((case decode_manifest bytes of Inr m \<Rightarrow> [m] | Inl _ \<Rightarrow> []), st)
         | (Inl _, st) \<Rightarrow> ([], st)))"

fun store_recover :: "string list \<Rightarrow> store \<Rightarrow> persist_meta list \<times> store" where
  "store_recover [] st = ([], st)"
| "store_recover (name # names) st =
     (let (ms, st) = recover_entry name st; (rest, st) = store_recover names st in (ms @ rest, st))"

definition str_contains :: "string \<Rightarrow> string \<Rightarrow> bool" where
  "str_contains pat s \<longleftrightarrow> list_ex (\<lambda>i. take (length pat) (drop i s) = pat) [0..<Suc (length s)]"

definition ends_with :: "string \<Rightarrow> string \<Rightarrow> bool" where
  "ends_with pat s \<longleftrightarrow> length pat \<le> length s \<and> drop (length s - length pat) s = pat"

definition incomplete :: "string \<Rightarrow> bool" where
  "incomplete name \<longleftrightarrow>
     utf8_scan 0 (as_bytes name) = None \<and> (str_contains ''.tmp'' name \<or> ends_with ''.bak'' name)"

fun cleanup_dir :: "(dir \<times> string) list \<Rightarrow> store \<Rightarrow> store" where
  "cleanup_dir [] st = st"
| "cleanup_dir (p # ps) st = cleanup_dir ps (if incomplete (snd p) then snd (fs_remove_file p st) else st)"

definition cleanup_incomplete :: "string list \<Rightarrow> string list \<Rightarrow> store \<Rightarrow> store" where
  "cleanup_incomplete blocks manifests st =
     cleanup_dir (map (Pair BlocksDir) blocks @ map (Pair ManifestsDir) manifests) st"

text \<open>Opening creates the two directories, which the map has implicitly, and cleans up.\<close>

definition store_open :: "string list \<Rightarrow> string list \<Rightarrow> store \<Rightarrow> unit result \<times> store" where
  "store_open blocks manifests =
     st_then (io_call (Pair (Inr ())) (\<lambda>_ st. st)) (\<lambda>_.
     st_then (io_call (Pair (Inr ())) (\<lambda>_ st. st)) (\<lambda>_ st. (Inr (), cleanup_incomplete blocks manifests st)))"

definition block_exists :: "digest \<Rightarrow> store \<Rightarrow> bool" where
  "block_exists h st = (case block_path h of Inr p \<Rightarrow> fs_exists p st | Inl _ \<Rightarrow> False)"

definition verify_persisted_blocks :: "block_ref list \<Rightarrow> store \<Rightarrow> u64 result \<times> store" where
  "verify_persisted_blocks blocks =
     st_then (fold_st (\<lambda>b. st_then (get_block (br_content_hash b)) (\<lambda>data.
        if of_nat (length data) \<noteq> br_len b
        then Pair (Inl (Integrity (''block '' @ to_hex (br_content_hash b) @ '' length mismatch'')))
        else Pair (Inr ()))) blocks)
       (\<lambda>_. Pair (Inr (of_nat (length blocks))))"

definition blocks_exist :: "store \<Rightarrow> block_ref list \<Rightarrow> bool" where
  "blocks_exist st blocks \<longleftrightarrow> list_all (\<lambda>b. block_exists (br_content_hash b) st) blocks"

section \<open>Manifest codec\<close>

definition block_ok :: "block_ref \<Rightarrow> bool" where
  "block_ok b \<longleftrightarrow> length (digest_bytes (br_content_hash b)) = 32"

interpretation blk: codec enc_block dec_block block_ok
proof
  show "dec_block (Rd pre (enc_block b @ rest)) = Inr (b, Rd (pre @ enc_block b) rest)" if "block_ok b" for b pre rest
    using that by (simp add: dec_block_def enc_block_def reads block_ok_def fits_def)
  show "block_ok b \<and> (\<exists>rest. bs = enc_block b @ rest \<and> r = Rd (pre @ enc_block b) rest)"
    if "dec_block (Rd pre bs) = Inr (b, r)" for pre bs b r
    using that by (auto simp: dec_block_def enc_block_def parses block_ok_def split: if_splits)
qed

text \<open>The values the fields of a manifest can have.\<close>

definition body_ok :: "persist_meta \<Rightarrow> bool" where
  "body_ok m \<longleftrightarrow>
     rust_str (pe_object_id m) \<and> rust_str (pe_namespace m) \<and> rust_str (pe_key m) \<and> valid_key (pe_compat m) \<and>
     fits (compat_encode (pe_compat m)) \<and> length (pe_blocks m) \<le> unat MAX_BLOCKS_PER_TENSOR \<and>
     (\<forall>b \<in> set (pe_blocks m). block_ok b)"

lemma len_max_blocks:
  "length xs \<le> unat MAX_BLOCKS_PER_TENSOR \<Longrightarrow> unat (of_nat (length xs) :: u64) = length xs"
  using unat_lt [of MAX_BLOCKS_PER_TENSOR] by (intro unat_of_nat_fits) linarith

interpretation man: codec manifest_body dec_manifest_body body_ok
proof
  fix m pre rest assume "body_ok m"
  then show "dec_manifest_body (Rd pre (manifest_body m @ rest)) = Inr (m, Rd (pre @ manifest_body m) rest)"
    using blk.many_enc [of "pe_blocks m"] len_max_blocks [of "pe_blocks m"]
    by (simp add: dec_manifest_body_def manifest_body_def body_ok_def reads decode_encode w_list_def
        word_less_nat_alt)
next
  fix pre bs m r assume "dec_manifest_body (Rd pre bs) = Inr (m, r)"
  then show "body_ok m \<and> (\<exists>rest. bs = manifest_body m @ rest \<and> r = Rd (pre @ manifest_body m) rest)"
    by (auto simp: dec_manifest_body_def manifest_body_def body_ok_def parses blk.many_then_iff w_list_def
        word_le_nat_alt not_less p_then_Inr_iff [where p = "p_lift c" for c] p_lift_Inr_iff
        dest!: decode_sound split: if_splits)
qed

text \<open>What a manifest of the program satisfies beyond its fields.\<close>

definition meta_ok :: "persist_meta \<Rightarrow> bool" where
  "meta_ok m \<longleftrightarrow> body_ok m \<and>
     shape_byte_len (ck_shape (pe_compat m)) (byte_size (ck_dtype (pe_compat m))) = Inr (pe_byte_len m) \<and>
     numel (ck_shape (pe_compat m)) = Inr (pe_numel m) \<and>
     validate_block_list (pe_blocks m) (pe_byte_len m) = Inr ()"

lemma decode_encode_manifest: "meta_ok m \<Longrightarrow> decode_manifest (encode_manifest m) = Inr m"
  by (simp add: decode_manifest_def encode_manifest_def Let_def meta_ok_def rd_new_Rd man.dec_enc_last)

lemma decode_manifest_sound:
  assumes "decode_manifest data = Inr m"
  shows "meta_ok m \<and> data = encode_manifest m"
proof -
  let ?body = "take (length data - 32) data" and ?anchor = "drop (length data - 32) data"
  from assms have a: "digest_bytes (hash ?body) = ?anchor"
    and d: "and_then (dec_manifest_body (rd_new ?body)) (\<lambda>(m, r).
          if \<not> rd_eof r then Inl (Persistence ''trailing bytes in manifest'')
          else
            and_then (shape_byte_len (ck_shape (pe_compat m)) (byte_size (ck_dtype (pe_compat m)))) (\<lambda>bl.
            if pe_byte_len m \<noteq> bl then Inl (Persistence ''manifest byte_len inconsistent with compat'')
            else
              and_then (numel (ck_shape (pe_compat m))) (\<lambda>n.
              if pe_numel m \<noteq> n then Inl (Persistence ''manifest numel inconsistent with compat'')
              else and_then (validate_block_list (pe_blocks m) (pe_byte_len m)) (\<lambda>_. Inr m)))) = Inr m"
    by (auto simp: decode_manifest_def Let_def split: if_splits)
  from d obtain m' r where p: "dec_manifest_body (rd_new ?body) = Inr (m', r)" and e: "rd_eof r"
    and k: "m' = m" "shape_byte_len (ck_shape (pe_compat m)) (byte_size (ck_dtype (pe_compat m))) = Inr (pe_byte_len m)"
    "numel (ck_shape (pe_compat m)) = Inr (pe_numel m)" "validate_block_list (pe_blocks m) (pe_byte_len m) = Inr ()"
    by (auto simp: and_then_Inr_iff split: prod.splits if_splits)
  from man.dec_sound [OF p [unfolded rd_new_Rd]] e k(1) have b: "body_ok m" "?body = manifest_body m" by auto
  have "data = ?body @ ?anchor" by simp
  also have "\<dots> = encode_manifest m" using a b(2) by (simp add: encode_manifest_def Let_def)
  finally show ?thesis using b(1) k by (simp add: meta_ok_def)
qed

section \<open>Atomic commit under faults\<close>

text \<open>A call either does its work, from the same files, or fails having done its partial work.\<close>

lemma io_call_cases:
  assumes "io_call act partial st = (r, st')"
  obtains st1 where "st_files st1 = st_files st" "st_pid st1 = st_pid st" "act st1 = (r, st')"
  | st1 m n where "st_files st1 = st_files st" "st_pid st1 = st_pid st" "r = Inl (Io m)" "st' = partial n st1"
proof (cases "st_faults st")
  case Nil
  with assms that(1) show thesis by (simp add: io_call_def next_fault_def)
next
  case (Cons f fs)
  then show thesis
  proof (cases f)
    case None
    with Cons assms that(1) [of "st\<lparr>st_faults := fs\<rparr>"] show thesis by (simp add: io_call_def next_fault_def)
  next
    case (Some ft)
    obtain m n where "ft = Fault m n" by (cases ft)
    with Some Cons assms that(2) [of "st\<lparr>st_faults := fs\<rparr>" m n] show thesis by (simp add: io_call_def next_fault_def)
  qed
qed

lemma fs_create_files:
  "fs_create p st = (r, st') \<Longrightarrow> st_pid st' = st_pid st \<and>
     (r = Inr () \<and> st_files st' = (st_files st)(p \<mapsto> []) \<or> r \<noteq> Inr () \<and> st_files st' = st_files st)"
  unfolding fs_create_def by (erule io_call_cases) auto

lemma fs_write_all_files:
  "fs_write_all p bytes st = (r, st') \<Longrightarrow> st_pid st' = st_pid st \<and>
     (r = Inr () \<and> st_files st' = (st_files st)(p \<mapsto> bytes) \<or>
      r \<noteq> Inr () \<and> (\<exists>n. st_files st' = (st_files st)(p \<mapsto> take n bytes)))"
  unfolding fs_write_all_def by (erule io_call_cases) auto

lemma fs_sync_all_files: "fs_sync_all st = (r, st') \<Longrightarrow> st_pid st' = st_pid st \<and> st_files st' = st_files st"
  unfolding fs_sync_all_def by (erule io_call_cases) auto

lemma fs_read_files: "fs_read p st = (r, st') \<Longrightarrow> st_pid st' = st_pid st \<and> st_files st' = st_files st \<and>
    (\<forall>bytes. r = Inr bytes \<longrightarrow> st_files st p = Some bytes)"
  unfolding fs_read_def by (erule io_call_cases) (auto simp: ok_or_def split: option.splits)

lemma fs_remove_file_files:
  "fs_remove_file p st = (r, st') \<Longrightarrow> st_pid st' = st_pid st \<and>
     (r = Inr () \<and> st_files st' = (st_files st)(p := None) \<or> r \<noteq> Inr () \<and> st_files st' = st_files st)"
  unfolding fs_remove_file_def by (erule io_call_cases) (auto split: if_splits)

lemma fs_rename_files:
  "fs_rename p q st = (r, st') \<Longrightarrow> st_pid st' = st_pid st \<and>
     (r = Inr () \<and> (\<exists>bytes. st_files st p = Some bytes \<and> st_files st' = (st_files st)(p := None, q \<mapsto> bytes)) \<or>
      r \<noteq> Inr () \<and> st_files st' = st_files st)"
  unfolding fs_rename_def by (erule io_call_cases) (auto split: option.splits)

abbreviation tmp_path :: "dir \<times> string \<Rightarrow> store \<Rightarrow> dir \<times> string" where
  "tmp_path path st \<equiv> (fst path, tmp_name (snd path) (st_pid st))"

lemma tmp_path_neq [simp]: "tmp_path path st \<noteq> path" "path \<noteq> tmp_path path st"
  by (cases path; simp add: tmp_name_def)+

text \<open>The steps up to the rename touch the temporary file only; the target may have been removed.\<close>

lemma atomic_write_prepare:
  assumes "fs_create tmp st = (Inr (), st1)" "fs_write_all tmp bytes st1 = (Inr (), st2)" "fs_sync_all st2 = (Inr (), st3)"
    "st4 = (if fs_exists path st3 then snd (fs_remove_file path st3) else st3)" "tmp \<noteq> path"
  shows "st_files st4 tmp = Some bytes \<and> (st_files st4 path = st_files st path \<or> st_files st4 path = None) \<and>
    (\<forall>q. q \<noteq> path \<longrightarrow> q \<noteq> tmp \<longrightarrow> st_files st4 q = st_files st q)"
proof -
  have f3: "st_files st3 = (st_files st)(tmp \<mapsto> bytes)"
    using fs_create_files [OF assms(1)] fs_write_all_files [OF assms(2)] fs_sync_all_files [OF assms(3)] by auto
  have "st_files st4 = st_files st3 \<or> st_files st4 = (st_files st3)(path := None)"
    using assms(4) fs_remove_file_files [of path st3] by (cases "fs_remove_file path st3") auto
  with f3 assms(5) show ?thesis by auto
qed

lemma atomic_write_outcome:
  assumes "atomic_write path bytes st = (r, st')"
  shows "(\<forall>q. q \<noteq> path \<longrightarrow> q \<noteq> tmp_path path st \<longrightarrow> st_files st' q = st_files st q) \<and>
    (r = Inr () \<longrightarrow> st_files st' path = Some bytes \<and> st_files st' (tmp_path path st) = None) \<and>
    (r \<noteq> Inr () \<longrightarrow> st_files st' path = st_files st path \<or> st_files st' path = None)"
proof -
  let ?tmp = "tmp_path path st"
  obtain r1 st1 where c1: "fs_create ?tmp st = (r1, st1)" by fastforce
  obtain r2 st2 where c2: "fs_write_all ?tmp bytes st1 = (r2, st2)" by fastforce
  obtain r3 st3 where c3: "fs_sync_all st2 = (r3, st3)" by fastforce
  define st4 where "st4 = (if fs_exists path st3 then snd (fs_remove_file path st3) else st3)"
  obtain r5 st5 where c5: "fs_rename ?tmp path st4 = (r5, st5)" by fastforce
  have unit: "s = Inr ()" if "s = Inr u" for s :: "unit result" and u using that by simp
  show ?thesis
  proof (cases "r1 = Inr () \<and> r2 = Inr () \<and> r3 = Inr ()")
    case True
    note prep = atomic_write_prepare [OF c1 [unfolded conjunct1 [OF True]] _ _ st4_def tmp_path_neq(1)]
    have p: "st_files st4 ?tmp = Some bytes" "st_files st4 path = st_files st path \<or> st_files st4 path = None"
      "\<forall>q. q \<noteq> path \<longrightarrow> q \<noteq> ?tmp \<longrightarrow> st_files st4 q = st_files st q"
      using prep c2 c3 True by auto
    have "(r, st') = (r5, st5)"
      using assms c1 c2 c3 c5 True by (auto simp: atomic_write_def Let_def st_then_def st4_def split: sum.splits)
    with fs_rename_files [OF c5] p show ?thesis by auto
  next
    case False
    have "r \<noteq> Inr () \<and> (\<forall>q. q \<noteq> ?tmp \<longrightarrow> st_files st' q = st_files st q)"
      using assms c1 c2 c3 False fs_create_files [OF c1] fs_write_all_files [OF c2] fs_sync_all_files [OF c3]
      by (auto simp: atomic_write_def Let_def st_then_def split: sum.splits)
    then show ?thesis by (metis tmp_path_neq(2))
  qed
qed

text \<open>With no fault pending every step works.\<close>

lemma io_call_ok [simp]: "st_faults st = [] \<Longrightarrow> io_call act partial st = act st"
  by (simp add: io_call_def next_fault_def)

lemma atomic_write_ok:
  assumes "st_faults st = []"
  shows "\<exists>st'. atomic_write path bytes st = (Inr (), st') \<and> st_faults st' = [] \<and> st_pid st' = st_pid st \<and>
    st_files st' = (st_files st)(tmp_path path st := None, path \<mapsto> bytes)"
  using assms tmp_path_neq [of path st]
  by (simp add: atomic_write_def Let_def st_then_def fs_create_def fs_write_all_def fs_sync_all_def
      fs_remove_file_def fs_rename_def fs_exists_def fun_eq_iff)

section \<open>Blocks on disk\<close>

lemma hexdigit_HEX: "k < 16 \<Longrightarrow> is_ascii_hexdigit (HEX ! k)"
proof -
  have "\<forall>k \<in> set [0..<16]. is_ascii_hexdigit (HEX ! k)" by code_simp
  then show "k < 16 \<Longrightarrow> is_ascii_hexdigit (HEX ! k)" by simp
qed

lemma hex_path_valid_hex: "length bs = 32 \<Longrightarrow> hex_path_valid (hex bs)"
proof -
  have "list_all is_ascii_hexdigit (hex cs)" for cs
    by (induction cs) (simp_all add: hexdigit_HEX nibbles_small)
  then show "length bs = 32 \<Longrightarrow> hex_path_valid (hex bs)" by (simp add: hex_path_valid_def)
qed

lemma block_path_ok: "length (digest_bytes h) = 32 \<Longrightarrow> block_path h = Inr (BlocksDir, to_hex h)"
  by (simp add: block_path_def to_hex_def hex_path_valid_hex)

lemma get_block_cases:
  assumes "get_block h st = (r, st')"
  shows "st_files st' = st_files st \<and> (\<forall>bytes. r = Inr bytes \<longrightarrow> hash bytes = h \<and> st_files st (BlocksDir, to_hex h) = Some bytes)"
proof (cases "hex_path_valid (to_hex h)")
  case True
  obtain r1 st1 where f: "fs_read (BlocksDir, to_hex h) st = (r1, st1)" by fastforce
  with assms True fs_read_files [OF f] show ?thesis
    by (cases r1) (auto simp: get_block_def block_path_def split: if_splits)
next
  case False
  with assms show ?thesis by (auto simp: get_block_def block_path_def)
qed

lemma get_block_ok:
  "st_faults st = [] \<Longrightarrow> st_files st (BlocksDir, to_hex h) = Some bytes \<Longrightarrow> hash bytes = h \<Longrightarrow> get_block h st = (Inr bytes, st)"
  using block_path_ok [of h] by (auto simp: get_block_def fs_read_def)

lemma put_block_stored:
  assumes "put_block bytes st = (Inr h, st')"
  shows "h = hash bytes \<and> st_files st' (BlocksDir, to_hex h) = Some bytes"
proof -
  have p: "block_path (hash bytes) = Inr (BlocksDir, to_hex (hash bytes))" by (simp add: block_path_ok)
  let ?p = "(BlocksDir, to_hex (hash bytes))"
  show ?thesis
  proof (cases "fs_exists ?p st")
    case True
    then show ?thesis
      using assms fs_read_files [of ?p st]
      by (auto simp: put_block_def Let_def st_then_Inr_iff p split: if_splits)
  next
    case False
    then show ?thesis
      using assms atomic_write_outcome [of ?p bytes st]
      by (auto simp: put_block_def Let_def st_then_Inr_iff p)
  qed
qed

text \<open>Whatever \<open>put_block\<close> reports, it never changes a block that is already there.\<close>

lemma put_block_keeps:
  assumes "put_block bytes st = (r, st')" "st_files st (BlocksDir, to_hex h) = Some data" "length (digest_bytes h) = 32"
  shows "st_files st' (BlocksDir, to_hex h) = Some data"
proof -
  have p: "block_path (hash bytes) = Inr (BlocksDir, to_hex (hash bytes))" by (simp add: block_path_ok)
  let ?p = "(BlocksDir, to_hex (hash bytes))"
  have st': "st' = (if fs_exists ?p st then snd (fs_read ?p st) else snd (atomic_write ?p bytes st))"
    using assms(1) by (auto simp: put_block_def Let_def st_then_def p split: prod.splits sum.splits if_splits)
  have "length (to_hex h) = 64" "length (to_hex (hash bytes)) = 64" using assms(3) by (simp_all add: to_hex_def)
  then have nt: "(BlocksDir, to_hex h) \<noteq> tmp_path ?p st" proof -
    have "length (tmp_name (to_hex (hash bytes)) (st_pid st)) \<noteq> 64"
      by (simp add: tmp_name_def)
    then show ?thesis using \<open>length (to_hex h) = 64\<close> by auto
  qed
  show ?thesis
  proof (cases "fs_exists ?p st")
    case True
    obtain r1 st1 where f: "fs_read ?p st = (r1, st1)" by fastforce
    with True st' have "st' = st1" by simp
    with fs_read_files [OF f] assms(2) show ?thesis by simp
  next
    case False
    then have "h \<noteq> hash bytes" using assms(2) by (auto simp: fs_exists_def)
    obtain r1 st1 where w: "atomic_write ?p bytes st = (r1, st1)" by fastforce
    with False st' have "st' = st1" by simp
    moreover have "(BlocksDir, to_hex h) \<noteq> ?p" using \<open>h \<noteq> hash bytes\<close> by simp
    ultimately show ?thesis using conjunct1 [OF atomic_write_outcome [OF w]] nt assms(2) by metis
  qed
qed

section \<open>Recovery\<close>

lemma show_nat_no_dot: "CHR ''.'' \<notin> set (show_nat n)"
proof (induction n rule: show_nat.induct)
  case (1 n)
  have d: "char_of (48 + k) \<noteq> CHR ''.''" if "k < 10" for k :: nat
  proof
    assume "char_of (48 + k) = CHR ''.''"
    then have "of_char (char_of (48 + k) :: char) = (of_char CHR ''.'' :: nat)" by simp
    then show False using that by (simp add: of_char_of)
  qed
  show ?case using 1 d [of n] d [of "n mod 10"] by (subst show_nat.simps) auto
qed

text \<open>A leftover temporary file is never taken for a manifest.\<close>

lemma tmp_not_manifest: "path_extension (tmp_name file_name pid) \<noteq> Some ''manifest''"
proof -
  have "takeWhile (\<lambda>c. c \<noteq> CHR ''.'') (rev (tmp_name file_name pid)) = rev (''tmp'' @ show_w pid)"
  proof -
    have "\<forall>c \<in> set (rev (show_w pid)). c \<noteq> CHR ''.''"
      using show_nat_no_dot [of "unat pid"] by (auto simp: show_w_def)
    then have "takeWhile (\<lambda>c. c \<noteq> CHR ''.'') (rev (show_w pid) @ xs) = rev (show_w pid) @ takeWhile (\<lambda>c. c \<noteq> CHR ''.'') xs" for xs
      by (intro takeWhile_append2) auto
    then show ?thesis by (simp add: tmp_name_def)
  qed
  then have "path_extension (tmp_name file_name pid) = Some (''tmp'' @ show_w pid) \<or> path_extension (tmp_name file_name pid) = None"
    by (simp add: path_extension_def Let_def)
  then show ?thesis by auto
qed

lemma recover_entry_sound:
  assumes "recover_entry name st = (ms, st')"
  shows "st_files st' = st_files st \<and> (\<forall>m \<in> set ms. meta_ok m \<and> path_extension name = Some ''manifest'' \<and>
    st_files st (ManifestsDir, name) = Some (encode_manifest m))"
proof (cases "path_extension name = Some ''manifest''")
  case True
  obtain r st1 where f: "fs_read (ManifestsDir, name) st = (r, st1)" by fastforce
  show ?thesis
  proof (cases r)
    case (Inr bytes)
    then show ?thesis
      using assms True f fs_read_files [OF f] decode_manifest_sound [of bytes]
      by (cases "decode_manifest bytes") (auto simp: recover_entry_def)
  qed (use assms True f fs_read_files [OF f] in \<open>auto simp: recover_entry_def\<close>)
qed (use assms in \<open>auto simp: recover_entry_def\<close>)

lemma store_recover_sound:
  assumes "store_recover names st = (ms, st')"
  shows "st_files st' = st_files st \<and> (\<forall>m \<in> set ms. meta_ok m \<and> (\<exists>name \<in> set names.
    path_extension name = Some ''manifest'' \<and> st_files st (ManifestsDir, name) = Some (encode_manifest m)))"
  using assms
proof (induction names arbitrary: st ms)
  case (Cons name names)
  obtain m1 st1 where e: "recover_entry name st = (m1, st1)" by fastforce
  obtain m2 st2 where r: "store_recover names st1 = (m2, st2)" by fastforce
  have "ms = m1 @ m2" "st' = st2" using Cons.prems e r by auto
  with recover_entry_sound [OF e] Cons.IH [of st1 m2] r show ?case by auto
qed simp

text \<open>Without read errors, a file with the extension that holds an encoded manifest is recovered.\<close>

lemma store_recover_complete:
  assumes "st_faults st = []" "name \<in> set names" "path_extension name = Some ''manifest''"
    "st_files st (ManifestsDir, name) = Some (encode_manifest m)" "meta_ok m"
  shows "m \<in> set (fst (store_recover names st))"
  using assms
proof (induction names)
  case (Cons n names)
  have same: "snd (recover_entry n st) = st"
    using Cons.prems(1) by (auto simp: recover_entry_def fs_read_def split: sum.splits)
  have "m \<in> set (fst (recover_entry n st))" if "n = name"
    using Cons.prems that by (simp add: recover_entry_def fs_read_def decode_encode_manifest)
  with Cons same show ?case by (cases "n = name") (auto simp: Let_def split: prod.splits)
qed simp

end
