(* ===== verification/Runtime.thy ===== *)
theory Runtime
  imports Ident Admission Eviction Backend Persistence
begin

text \<open>
  \<^verbatim>\<open>runtime.rs\<close>: the cache.  One record holds what the mutex guards together with the backends and
  the persistent store; every public method is a function from that record to a result and the record
  it leaves, also when it returns an error half way.  Methods run one at a time, as under the mutex.
  The backends' methods, the iteration order of the entry map and the clock readings are arguments
  or part of the record.
\<close>

section \<open>State\<close>

record runtime_config =
  rc_block_size :: u64
  rc_host_capacity :: u64
  rc_persistent_path :: "string option"
  rc_persistent_capacity :: u64
  rc_admission :: admission_policy
  rc_eviction :: eviction_policy
  rc_cost :: cost_model

definition config_default :: runtime_config where
  "config_default = \<lparr>rc_block_size = DEFAULT_BLOCK_SIZE, rc_host_capacity = push_bit 30 1,
     rc_persistent_path = None, rc_persistent_capacity = push_bit 31 1, rc_admission = admission_default,
     rc_eviction = eviction_default, rc_cost = cost_default\<rparr>"

datatype placement = PHost "block_ref list" | PAccelerator device_buffer | PPersistent

fun placement_tier :: "placement \<Rightarrow> tier" where
  "placement_tier (PHost _) = Host"
| "placement_tier (PAccelerator device) = Accelerator (db_backend device)"
| "placement_tier PPersistent = Persistent"

record entry =
  en_address :: address
  en_compat :: compat_key
  en_compat_id :: digest
  en_byte_len :: u64
  en_numel :: u64
  en_blocks :: "block_ref list"
  en_placements :: "placement list"
  en_created_ns :: u64
  en_last_use_ns :: u64
  en_reuse_count :: u64
  en_durable :: bool
  en_flags :: move_flags

definition placement_tiers :: "entry \<Rightarrow> tier list" where
  "placement_tiers e = map placement_tier (en_placements e)"

definition has_tier :: "entry \<Rightarrow> tier \<Rightarrow> bool" where
  "has_tier e t \<longleftrightarrow> list_ex (\<lambda>p. placement_tier p = t) (en_placements e)"

definition entry_tier :: "entry \<Rightarrow> tier \<Rightarrow> placement option" where
  "entry_tier e t = List.find (\<lambda>p. placement_tier p = t) (en_placements e)"

definition is_quarantined :: "entry \<Rightarrow> bool" where
  "is_quarantined e \<longleftrightarrow> mf_quarantined (en_flags e) \<or> mf_invalid (en_flags e)"

text \<open>\<open>tc_clock n\<close> is the \<open>n\<close>-th reading of \<open>now_ns\<close> and \<open>tc_iter\<close> the iteration order of a map.\<close>

record 'b cache =
  tc_entries :: "string \<rightharpoonup> entry"
  tc_host :: block_arena
  tc_persistent_refs :: "digest \<rightharpoonup> u64"
  tc_storage_used :: u64
  tc_accel_used :: u64
  tc_accounting :: accounting
  tc_object_count :: u64
  tc_backends :: "'b list"
  tc_config :: runtime_config
  tc_persistent :: "store option"
  tc_clock :: "nat \<Rightarrow> u64"
  tc_ticks :: nat
  tc_iter :: "(string \<rightharpoonup> entry) \<Rightarrow> string list"

type_synonym ('b, 'a) op = "'b cache \<Rightarrow> 'a result \<times> 'b cache"

definition now_ns :: "('b, u64) op" where
  "now_ns c = (Inr (tc_clock c (tc_ticks c)), c\<lparr>tc_ticks := tc_ticks c + 1\<rparr>)"

definition on_accounting :: "(accounting \<Rightarrow> unit result \<times> accounting) \<Rightarrow> ('b, unit) op" where
  "on_accounting f c = (let (r, a) = f (tc_accounting c) in (r, c\<lparr>tc_accounting := a\<rparr>))"

definition upd_entry :: "object_id \<Rightarrow> (entry \<Rightarrow> entry) \<Rightarrow> 'b cache \<Rightarrow> 'b cache" where
  "upd_entry oid f c =
     (case tc_entries c (oid_to_hex oid) of
        Some e \<Rightarrow> c\<lparr>tc_entries := (tc_entries c)(oid_to_hex oid \<mapsto> f e)\<rparr>
      | None \<Rightarrow> c)"

definition push_placement :: "object_id \<Rightarrow> placement \<Rightarrow> 'b cache \<Rightarrow> 'b cache" where
  "push_placement oid p = upd_entry oid (\<lambda>e. e\<lparr>en_placements := en_placements e @ [p]\<rparr>)"

definition host_free :: "'b cache \<Rightarrow> u64" where
  "host_free c = acct_free KHost (tc_accounting c)"

section \<open>Lookups in the state\<close>

definition get_meta :: "'b cache \<Rightarrow> object_id \<Rightarrow> entry result" where
  "get_meta c oid = ok_or (tc_entries c (oid_to_hex oid)) (NotFound (''object '' @ oid_to_hex oid))"

definition entry_has_tier :: "'b cache \<Rightarrow> object_id \<Rightarrow> tier \<Rightarrow> bool result" where
  "entry_has_tier c oid t = and_then (get_meta c oid) (\<lambda>e. Inr (has_tier e t))"

definition entry_quarantined :: "'b cache \<Rightarrow> object_id \<Rightarrow> bool result" where
  "entry_quarantined c oid = and_then (get_meta c oid) (\<lambda>e. Inr (is_quarantined e))"

definition backend :: "'b backend_ops \<Rightarrow> backend_id \<Rightarrow> 'b cache \<Rightarrow> 'b result" where
  "backend ops i c =
     ok_or (registry_get ops i (tc_backends c)) (BackendErr (''backend '' @ backend_display i @ '' not registered''))"

definition put_backend :: "'b backend_ops \<Rightarrow> backend_id \<Rightarrow> 'b \<Rightarrow> 'b cache \<Rightarrow> 'b cache" where
  "put_backend ops i b c = c\<lparr>tc_backends := registry_put ops i b (tc_backends c)\<rparr>"

section \<open>Materialization\<close>

text \<open>Reassembly from the persistent store reads one block file after the other.\<close>

fun reconstruct_blocks :: "block_ref list \<Rightarrow> u8 list \<Rightarrow> store \<Rightarrow> u8 list result \<times> store" where
  "reconstruct_blocks [] out st = (Inr out, st)"
| "reconstruct_blocks (b # bs) out st =
     (let (r, st) = get_block (br_content_hash b) st in
      case reconstruct_step (\<lambda>_. r) b out of
        Inl e \<Rightarrow> (Inl e, st)
      | Inr out \<Rightarrow> reconstruct_blocks bs out st)"

definition reconstruct_store :: "block_ref list \<Rightarrow> u64 \<Rightarrow> store \<Rightarrow> u8 list result \<times> store" where
  "reconstruct_store blocks byte_len st =
     (case and_then (validate_block_list blocks byte_len) (\<lambda>_. vec_zeroed (unat byte_len)) of
        Inl e \<Rightarrow> (Inl e, st)
      | Inr out \<Rightarrow> reconstruct_blocks blocks out st)"

definition from_persistent :: "entry \<Rightarrow> store \<Rightarrow> ('b, u8 list) op" where
  "from_persistent e st c =
     (let (r, st) = reconstruct_store (en_blocks e) (en_byte_len e) st in (r, c\<lparr>tc_persistent := Some st\<rparr>))"

definition from_device :: "'b backend_ops \<Rightarrow> entry \<Rightarrow> backend_id \<Rightarrow> device_buffer \<Rightarrow> 'b cache \<Rightarrow> u8 list result" where
  "from_device ops e i device c =
     and_then (backend ops i c) (\<lambda>be.
     and_then (vec_zeroed (unat (en_byte_len e))) (\<lambda>buf. be_device_to_host ops device buf be))"

fun first_device :: "placement list \<Rightarrow> device_buffer option" where
  "first_device [] = None"
| "first_device (PAccelerator device # ps) = Some device"
| "first_device (_ # ps) = first_device ps"

definition materialize_payload :: "'b backend_ops \<Rightarrow> object_id \<Rightarrow> ('b, u8 list) op" where
  "materialize_payload ops oid c =
     (case get_meta c oid of
        Inl e \<Rightarrow> (Inl e, c)
      | Inr e \<Rightarrow>
          let tiers = placement_tiers e; none = Inl (Reconstruct (''object '' @ oid_to_hex oid @ '' has no materialized placement'')) in
          if list_ex (\<lambda>t. t = Host) tiers
          then (reconstruct (en_blocks e) (en_byte_len e) (arena_get (tc_host c)), c)
          else
            (case first_device (en_placements e) of
               Some device \<Rightarrow> (from_device ops e (db_backend device) device c, c)
             | None \<Rightarrow>
                 if list_ex (\<lambda>t. t = Persistent) tiers
                 then (case tc_persistent c of Some st \<Rightarrow> from_persistent e st c | None \<Rightarrow> (none, c))
                 else (none, c)))"

definition materialize_from :: "'b backend_ops \<Rightarrow> object_id \<Rightarrow> tier \<Rightarrow> ('b, u8 list) op" where
  "materialize_from ops oid t c =
     (case get_meta c oid of
        Inl e \<Rightarrow> (Inl e, c)
      | Inr e \<Rightarrow>
          (case t of
             Host \<Rightarrow> (reconstruct (en_blocks e) (en_byte_len e) (arena_get (tc_host c)), c)
           | Persistent \<Rightarrow>
               (case tc_persistent c of
                  Some st \<Rightarrow> from_persistent e st c
                | None \<Rightarrow> (Inl (Persistence ''no persistent tier''), c))
           | Accelerator i \<Rightarrow>
               (case entry_tier e t of
                  None \<Rightarrow> (Inl (NotFound (''no '' @ tier_label t @ '' placement'')), c)
                | Some (PAccelerator device) \<Rightarrow> (from_device ops e i device c, c)
                | Some _ \<Rightarrow> (Inl (Internal ''placement tier mismatch''), c))))"

section \<open>Placements\<close>

definition new_host_bytes :: "block_ref list \<Rightarrow> 'b cache \<Rightarrow> u64" where
  "new_host_bytes blocks c =
     foldl (\<lambda>n b. if \<not> arena_contains (tc_host c) (br_content_hash b) then n + br_len b else n) 0 blocks"

definition new_storage_bytes :: "block_ref list \<Rightarrow> 'b cache \<Rightarrow> u64" where
  "new_storage_bytes blocks c =
     foldl (\<lambda>n b. if tc_persistent_refs c (br_content_hash b) = None then n + br_len b else n) 0 blocks"

fun acquire_blocks :: "u8 list \<Rightarrow> block_ref list \<Rightarrow> ('b, block_ref list) op" where
  "acquire_blocks bytes [] c = (Inr [], c)"
| "acquire_blocks bytes (b # bs) c =
     (case slice bytes (unat (br_offset b)) (unat (br_offset b + br_len b)) of
        Inl e \<Rightarrow> (Inl e, c)
      | Inr data \<Rightarrow>
          let (r, a) = acquire_at data (br_offset b) (tc_host c); c = c\<lparr>tc_host := a\<rparr> in
          (case r of
             Inl e \<Rightarrow> (Inl e, c)
           | Inr ref \<Rightarrow> st_then (acquire_blocks bytes bs) (\<lambda>refs. Pair (Inr (ref # refs))) c))"

text \<open>Reserve, acquire every block, commit: shared by \<open>register\<close> and a new host placement.\<close>

definition acquire_host :: "u64 \<Rightarrow> u8 list \<Rightarrow> block_ref list \<Rightarrow> ('b, block_ref list) op" where
  "acquire_host new_host bytes blocks =
     st_then (on_accounting (acct_reserve KHost new_host)) (\<lambda>_.
     st_then (acquire_blocks bytes blocks) (\<lambda>acquired.
     st_then (on_accounting (commit_reserve KHost new_host)) (\<lambda>_. Pair (Inr acquired))))"

definition add_host :: "object_id \<Rightarrow> u8 list \<Rightarrow> u64 \<Rightarrow> ('b, unit) op" where
  "add_host oid bytes byte_len c =
     st_then (Pair (chunk bytes (rc_block_size (tc_config c)))) (\<lambda>blocks.
     st_then (Pair (validate_block_list blocks byte_len)) (\<lambda>_ c.
       let new_host = new_host_bytes blocks c in
       if new_host > host_free c then (Inl (AdmissionRejected ''host tier capacity exceeded''), c)
       else st_then (acquire_host new_host bytes blocks) (\<lambda>acquired c. (Inr (), push_placement oid (PHost acquired) c)) c)) c"

definition add_accelerator :: "'b backend_ops \<Rightarrow> object_id \<Rightarrow> backend_id \<Rightarrow> u8 list \<Rightarrow> ('b, unit) op" where
  "add_accelerator ops oid i bytes c =
     (case backend ops i c of
        Inl e \<Rightarrow> (Inl e, c)
      | Inr be \<Rightarrow>
          (case be_allocate ops (of_nat (length bytes)) be of
             (Inl e, be) \<Rightarrow> (Inl e, put_backend ops i be c)
           | (Inr dev, be) \<Rightarrow>
               (case be_to_device ops bytes dev be of
                  ((Inl e, _), be) \<Rightarrow> (Inl e, put_backend ops i be c)
                | ((Inr _, dev), be) \<Rightarrow>
                    let c = put_backend ops i be c;
                        c = c\<lparr>tc_accel_used := tc_accel_used c + of_nat (length bytes)\<rparr>
                    in (Inr (), push_placement oid (PAccelerator dev) c))))"

text \<open>Block files are written for digests that have no reference yet; the others are only counted.\<close>

fun put_blocks :: "u8 list \<Rightarrow> block_ref list \<Rightarrow> ('b, unit) op" where
  "put_blocks bytes [] c = (Inr (), c)"
| "put_blocks bytes (b # bs) c =
     (case tc_persistent_refs c (br_content_hash b) of
        Some r \<Rightarrow> put_blocks bytes bs (c\<lparr>tc_persistent_refs := (tc_persistent_refs c)(br_content_hash b \<mapsto> r + 1)\<rparr>)
      | None \<Rightarrow>
          (case slice bytes (unat (br_offset b)) (unat (br_offset b + br_len b)) of
             Inl e \<Rightarrow> (Inl e, c)
           | Inr data \<Rightarrow>
               (case tc_persistent c of
                  None \<Rightarrow> (Inl (Persistence ''no persistent tier configured''), c)
                | Some st \<Rightarrow>
                    (case put_block data st of
                       (Inl e, st) \<Rightarrow> (Inl e, c\<lparr>tc_persistent := Some st\<rparr>)
                     | (Inr _, st) \<Rightarrow>
                         put_blocks bytes bs (c\<lparr>tc_persistent := Some st,
                           tc_persistent_refs := (tc_persistent_refs c)(br_content_hash b \<mapsto> 1),
                           tc_storage_used := tc_storage_used c + br_len b\<rparr>)))))"

definition on_store :: "(store \<Rightarrow> 'a result \<times> store) \<Rightarrow> ('b, 'a) op" where
  "on_store f c =
     (case tc_persistent c of
        None \<Rightarrow> (Inl (Persistence ''no persistent tier configured''), c)
      | Some st \<Rightarrow> (let (r, st) = f st in (r, c\<lparr>tc_persistent := Some st\<rparr>)))"

definition add_persistent :: "object_id \<Rightarrow> u8 list \<Rightarrow> entry \<Rightarrow> ('b, unit) op" where
  "add_persistent oid bytes e c =
     (if tc_persistent c = None then (Inl (Persistence ''no persistent tier configured''), c)
      else
        st_then (Pair (chunk bytes (rc_block_size (tc_config c)))) (\<lambda>blocks.
        st_then (Pair (validate_block_list blocks (en_byte_len e))) (\<lambda>_ c.
          let new_storage = new_storage_bytes blocks c in
          if new_storage > acct_free KPersistent (tc_accounting c)
          then (Inl (AdmissionRejected ''persistent tier capacity exceeded''), c)
          else
            st_then (on_accounting (acct_reserve KPersistent new_storage)) (\<lambda>_.
            st_then (put_blocks bytes blocks) (\<lambda>_.
            st_then (on_accounting (commit_reserve KPersistent new_storage)) (\<lambda>_.
            st_then (Pair (numel (ck_shape (en_compat e)))) (\<lambda>n.
            st_then (on_store (write_manifest \<lparr>pe_object_id = oid_to_hex oid, pe_namespace = ad_namespace (en_address e),
                pe_key = ad_key (en_address e), pe_generation = ad_generation (en_address e), pe_compat = en_compat e,
                pe_byte_len = en_byte_len e, pe_numel = n, pe_created_ns = en_created_ns e, pe_blocks = blocks\<rparr>)) (\<lambda>_ c.
              (Inr (), push_placement oid PPersistent c)))))) c)) c)"

definition add_placement :: "'b backend_ops \<Rightarrow> object_id \<Rightarrow> tier \<Rightarrow> u8 list \<Rightarrow> ('b, unit) op" where
  "add_placement ops oid t bytes c =
     (case get_meta c oid of
        Inl err \<Rightarrow> (Inl err, c)
      | Inr e \<Rightarrow>
          if of_nat (length bytes) \<noteq> en_byte_len e then (Inl (Integrity ''placement payload length mismatch''), c)
          else
            (case t of
               Host \<Rightarrow> add_host oid bytes (en_byte_len e) c
             | Accelerator i \<Rightarrow> add_accelerator ops oid i bytes c
             | Persistent \<Rightarrow> add_persistent oid bytes e c))"

text \<open>Removal takes the placement out of the entry before it frees what is behind it.\<close>

fun release_blocks :: "block_ref list \<Rightarrow> ('b, unit) op" where
  "release_blocks [] c = (Inr (), c)"
| "release_blocks (b # bs) c =
     (let (freed, a) = release (br_content_hash b) (tc_host c); c = c\<lparr>tc_host := a\<rparr> in
      if freed then st_then (on_accounting (sub_bytes KHost (br_len b))) (\<lambda>_. release_blocks bs) c
      else release_blocks bs c)"

fun release_persistent :: "block_ref list \<Rightarrow> 'b cache \<Rightarrow> 'b cache" where
  "release_persistent [] c = c"
| "release_persistent (b # bs) c =
     release_persistent bs
       (case tc_persistent_refs c (br_content_hash b) of
          None \<Rightarrow> c
        | Some r \<Rightarrow>
            if r - 1 = 0 then
              c\<lparr>tc_persistent := map_option (\<lambda>st. snd (remove_block (br_content_hash b) st)) (tc_persistent c),
                tc_persistent_refs := (tc_persistent_refs c)(br_content_hash b := None),
                tc_storage_used := saturating_sub (tc_storage_used c) (br_len b)\<rparr>
            else c\<lparr>tc_persistent_refs := (tc_persistent_refs c)(br_content_hash b \<mapsto> r - 1)\<rparr>)"

fun position :: "('a \<Rightarrow> bool) \<Rightarrow> 'a list \<Rightarrow> nat option" where
  "position P [] = None"
| "position P (x # xs) = (if P x then Some 0 else map_option Suc (position P xs))"

definition remove_at :: "nat \<Rightarrow> 'a list \<Rightarrow> 'a list" where
  "remove_at i xs = take i xs @ drop (Suc i) xs"

definition remove_manifest_of :: "object_id \<Rightarrow> 'b cache \<Rightarrow> 'b cache" where
  "remove_manifest_of oid c =
     c\<lparr>tc_persistent := map_option (\<lambda>st. snd (remove_manifest (oid_to_hex oid) st)) (tc_persistent c)\<rparr>"

fun free_placement :: "'b backend_ops \<Rightarrow> object_id \<Rightarrow> entry \<Rightarrow> placement \<Rightarrow> ('b, unit) op" where
  "free_placement ops oid e (PHost block_refs) c = release_blocks block_refs c"
| "free_placement ops oid e (PAccelerator device) c =
     (case backend ops (db_backend device) c of
        Inl err \<Rightarrow> (Inl err, c)
      | Inr be \<Rightarrow>
          (case be_free ops device be of
             (Inl err, be) \<Rightarrow> (Inl err, put_backend ops (db_backend device) be c)
           | (Inr _, be) \<Rightarrow>
               let c = put_backend ops (db_backend device) be c in
               (Inr (), c\<lparr>tc_accel_used := saturating_sub (tc_accel_used c) (db_bytes device)\<rparr>)))"
| "free_placement ops oid e PPersistent c = (Inr (), remove_manifest_of oid (release_persistent (en_blocks e) c))"

definition not_resident :: "object_id \<Rightarrow> tier \<Rightarrow> error" where
  "not_resident oid t = Residency (''object '' @ oid_to_hex oid @ '' is not '' @ tier_label t @ '' resident'')"

definition remove_placement :: "'b backend_ops \<Rightarrow> object_id \<Rightarrow> tier \<Rightarrow> ('b, unit) op" where
  "remove_placement ops oid t c =
     (case tc_entries c (oid_to_hex oid) of
        None \<Rightarrow> (Inl (not_resident oid t), c)
      | Some e \<Rightarrow>
          (case position (\<lambda>p. placement_tier p = t) (en_placements e) of
             None \<Rightarrow> (Inl (not_resident oid t), c)
           | Some i \<Rightarrow>
               free_placement ops oid e (en_placements e ! i)
                 (upd_entry oid (\<lambda>e. e\<lparr>en_placements := remove_at i (en_placements e)\<rparr>) c)))"

section \<open>Reclamation under pressure\<close>

text \<open>The candidates in iteration order; each age takes its own clock reading.\<close>

fun evict_candidates :: "string list \<Rightarrow> 'b cache \<Rightarrow> evictable list \<times> 'b cache" where
  "evict_candidates [] c = ([], c)"
| "evict_candidates (key # keys) c =
     (case tc_entries c key of
        None \<Rightarrow> evict_candidates keys c
      | Some e \<Rightarrow>
          if has_tier e Host \<and> \<not> en_durable e then
            let now = tc_clock c (tc_ticks c);
                (es, c') = evict_candidates keys (c\<lparr>tc_ticks := tc_ticks c + 1\<rparr>)
            in (\<lparr>ev_object_id = key, ev_bytes = en_byte_len e, ev_reuse_count = en_reuse_count e,
                 ev_age_seconds = saturating_sub now (en_last_use_ns e) div 1000000000,
                 ev_reconstruction_cost_ns = reconstruct_cost_ns (rc_cost (tc_config c)) (en_byte_len e),
                 ev_priority = 0, ev_durable = en_durable e\<rparr> # es, c')
          else evict_candidates keys c)"

text \<open>Every placement but the persistent one; errors are dropped.\<close>

fun remove_volatile :: "'b backend_ops \<Rightarrow> object_id \<Rightarrow> tier list \<Rightarrow> 'b cache \<Rightarrow> 'b cache" where
  "remove_volatile ops oid [] c = c"
| "remove_volatile ops oid (t # ts) c =
     remove_volatile ops oid ts (if t = Persistent then c else snd (remove_placement ops oid t c))"

fun evict_loop :: "'b backend_ops \<Rightarrow> ('b cache \<Rightarrow> bool) \<Rightarrow> evictable list \<Rightarrow> ('b, unit) op" where
  "evict_loop ops enough [] c = (Inr (), c)"
| "evict_loop ops enough (e # es) c =
     (if enough c then (Inr (), c)
      else
        (case oid_from_hex (ev_object_id e) of
           Inl err \<Rightarrow> (Inl err, c)
         | Inr oid \<Rightarrow>
             let tiers = (case tc_entries c (ev_object_id e) of Some ent \<Rightarrow> placement_tiers ent | None \<Rightarrow> []) in
             evict_loop ops enough es (remove_volatile ops oid tiers c)))"

definition evict_by :: "'b backend_ops \<Rightarrow> ('b cache \<Rightarrow> bool) \<Rightarrow> ('b, unit) op" where
  "evict_by ops enough c =
     (let (cands, c) = evict_candidates (tc_iter c (tc_entries c)) c in
      evict_loop ops enough (eviction_order (rc_eviction (tc_config c)) cands) c)"

definition evict_to_free :: "'b backend_ops \<Rightarrow> u64 \<Rightarrow> ('b, unit) op" where
  "evict_to_free ops needed c =
     (if host_free c \<ge> needed then (Inr (), c) else evict_by ops (\<lambda>c. host_free c \<ge> needed) c)"

definition enforce_capacity :: "'b backend_ops \<Rightarrow> ('b, unit) op" where
  "enforce_capacity ops c =
     (let host_cap = acct_capacity KHost (tc_accounting c) in
      evict_by ops (\<lambda>c. acct_used KHost (tc_accounting c) \<le> host_cap) c)"

section \<open>Registration and lookup\<close>

definition admission_candidate_of :: "runtime_config \<Rightarrow> object_id \<Rightarrow> compat_key \<Rightarrow> u64 \<Rightarrow> admission_candidate" where
  "admission_candidate_of cfg oid k byte_len =
     (let cost = reconstruct_cost_ns (rc_cost cfg) byte_len in
      \<lparr>cd_object_id = oid_to_hex oid, cd_bytes = byte_len, cd_reconstruction_cost_ns = cost,
       cd_transfer_cost_ns = transfer_cost_ns (rc_cost cfg) Host Host byte_len, cd_reuse_value_ns = cost,
       cd_priority = 0, cd_desired_tier = KHost, cd_immutable = (ck_mutability k = Immutable)\<rparr>)"

definition make_room :: "'b backend_ops \<Rightarrow> u64 \<Rightarrow> ('b, unit) op" where
  "make_room ops new_host c =
     (if new_host > host_free c then
        st_then (evict_to_free ops new_host) (\<lambda>_ c.
          if new_host > host_free c then (Inl (AdmissionRejected ''no capacity after eviction''), c) else (Inr (), c)) c
      else (Inr (), c))"

definition insert_entry :: "object_id \<Rightarrow> entry \<Rightarrow> 'b cache \<Rightarrow> 'b cache" where
  "insert_entry oid e c =
     c\<lparr>tc_entries := (tc_entries c)(oid_to_hex oid \<mapsto> e), tc_object_count := tc_object_count c + 1\<rparr>"

definition register ::
  "'b backend_ops \<Rightarrow> string \<Rightarrow> string \<Rightarrow> u64 \<Rightarrow> compat_key \<Rightarrow> u8 list \<Rightarrow> ('b, object_id) op" where
  "register ops namespace key generation k payload c =
     (let address = address_new namespace key generation; oid = object_id address in
      st_then (Pair (shape_byte_len (ck_shape k) (byte_size (ck_dtype k)))) (\<lambda>byte_len.
      if byte_len \<noteq> of_nat (length payload)
      then Pair (Inl (Geometry (''payload length '' @ show_nat (length payload) @ '' does not match declared byte_len '' @ show_w byte_len)))
      else
      st_then (Pair (numel (ck_shape k))) (\<lambda>n.
      st_then (Pair (chunk payload (rc_block_size (tc_config c)))) (\<lambda>blocks.
      st_then (Pair (validate_block_list blocks byte_len)) (\<lambda>_ c.
      if tc_entries c (oid_to_hex oid) \<noteq> None
      then (Inl (Exists (''object '' @ oid_to_hex oid @ '' already registered'')), c)
      else
        let decision = evaluate_ignoring_capacity (rc_admission (tc_config c))
              (admission_candidate_of (tc_config c) oid k byte_len) (tc_accounting c) in
        if \<not> is_admit decision then (Inl (AdmissionRejected (reason decision)), c)
        else
          let new_host = new_host_bytes blocks c in
          st_then (make_room ops new_host) (\<lambda>_.
          st_then (acquire_host new_host payload blocks) (\<lambda>acquired.
          st_then now_ns (\<lambda>created.
          st_then now_ns (\<lambda>last_use c.
          st_then (enforce_capacity ops) (\<lambda>_. Pair (Inr oid))
            (insert_entry oid \<lparr>en_address = address, en_compat = k, en_compat_id = compat_id k, en_byte_len = byte_len,
               en_numel = n, en_blocks = blocks, en_placements = [PHost acquired], en_created_ns = created,
               en_last_use_ns = last_use, en_reuse_count = 0, en_durable = False, en_flags = move_flags_default\<rparr> c))))) c)))) c)"

record lookup_result =
  lr_hit :: bool
  lr_object_id :: object_id
  lr_generation :: u64
  lr_source_tier :: "tier option"
  lr_compat_ok :: bool
  lr_bytes :: u64
  lr_reconstruction_avoided_ns :: u64
  lr_transfer_cost_ns :: u64
  lr_rationale :: string

definition preferred_tier :: "entry \<Rightarrow> tier option" where
  "preferred_tier e =
     (let tiers = placement_tiers e in
      case List.find is_accelerator tiers of
        Some t \<Rightarrow> Some t
      | None \<Rightarrow>
          if list_ex (\<lambda>t. t = Host) tiers then Some Host
          else if list_ex (\<lambda>t. t = Persistent) tiers then Some Persistent else None)"

definition lookup ::
  "string \<Rightarrow> string \<Rightarrow> u64 \<Rightarrow> compat_key \<Rightarrow> ('b, lookup_result) op" where
  "lookup namespace key generation k c =
     (let oid = object_id (address_new namespace key generation) in
      case tc_entries c (oid_to_hex oid) of
        None \<Rightarrow> (Inl (NotFound (''object '' @ oid_to_hex oid)), c)
      | Some e \<Rightarrow>
          if en_compat_id e \<noteq> compat_id k
          then (Inl (Compatibility (''object '' @ oid_to_hex oid @ '' has incompatible compat identity (requested '' @
                  to_hex (compat_id k) @ '', stored '' @ to_hex (en_compat_id e) @ '')'')), c)
          else
            let byte_len = en_byte_len e;
                now = tc_clock c (tc_ticks c);
                c' = upd_entry oid (\<lambda>e. e\<lparr>en_reuse_count := saturating_add (en_reuse_count e) 1, en_last_use_ns := now\<rparr>)
                       (c\<lparr>tc_ticks := tc_ticks c + 1\<rparr>);
                plan = decide (rc_cost (tc_config c)) byte_len Host (placement_tiers e) False
            in (Inr \<lparr>lr_hit = True, lr_object_id = oid, lr_generation = generation, lr_source_tier = preferred_tier e,
                  lr_compat_ok = True, lr_bytes = byte_len,
                  lr_reconstruction_avoided_ns =
                    (if pl_action plan \<noteq> AReconstruct then reconstruct_cost_ns (rc_cost (tc_config c)) byte_len else 0),
                  lr_transfer_cost_ns = pl_cost_ns plan, lr_rationale = pl_rationale plan\<rparr>, c'))"

section \<open>Movement\<close>

definition restore :: "'b backend_ops \<Rightarrow> object_id \<Rightarrow> tier \<Rightarrow> ('b, u8 list) op" where
  "restore ops oid t c =
     st_then (Pair (entry_quarantined c oid)) (\<lambda>q.
     if q then Pair (Inl (Integrity ''object is quarantined''))
     else
     st_then (materialize_payload ops oid) (\<lambda>bytes c.
     st_then (Pair (entry_has_tier c oid t)) (\<lambda>has.
     st_then (if has then Pair (Inr ()) else add_placement ops oid t bytes) (\<lambda>_ c.
       (Inr bytes, snd (enforce_capacity ops c)))) c)) c"

definition promote :: "'b backend_ops \<Rightarrow> object_id \<Rightarrow> tier \<Rightarrow> ('b, unit) op" where
  "promote ops oid t c =
     st_then (Pair (entry_has_tier c oid t)) (\<lambda>has.
     if has then Pair (Inr ())
     else
     st_then (Pair (entry_quarantined c oid)) (\<lambda>q.
     if q then Pair (Inl (Integrity ''object is quarantined''))
     else
     st_then (materialize_payload ops oid) (\<lambda>bytes.
     st_then (add_placement ops oid t bytes) (\<lambda>_ c. (Inr (), snd (enforce_capacity ops c)))))) c"

fun next_lower :: "tier \<Rightarrow> tier result" where
  "next_lower (Accelerator _) = Inr Host"
| "next_lower Host = Inr Persistent"
| "next_lower Persistent = Inl (Residency ''persistent is the lowest tier'')"

definition demote :: "'b backend_ops \<Rightarrow> object_id \<Rightarrow> tier \<Rightarrow> ('b, unit) op" where
  "demote ops oid from c =
     st_then (Pair (entry_has_tier c oid from)) (\<lambda>has.
     if \<not> has then Pair (Inl (not_resident oid from))
     else
     st_then (Pair (next_lower from)) (\<lambda>target c.
     st_then (Pair (entry_has_tier c oid target)) (\<lambda>has_target.
     st_then (if has_target then Pair (Inr ())
              else st_then (materialize_payload ops oid) (add_placement ops oid target)) (\<lambda>_.
     remove_placement ops oid from)) c)) c"

definition persist :: "'b backend_ops \<Rightarrow> object_id \<Rightarrow> ('b, unit) op" where
  "persist ops oid c =
     st_then (Pair (entry_has_tier c oid Persistent)) (\<lambda>has.
     st_then (if has then Pair (Inr ())
              else st_then (materialize_payload ops oid) (add_placement ops oid Persistent)) (\<lambda>_ c.
     (Inr (), upd_entry oid (\<lambda>e. e\<lparr>en_durable := True\<rparr>) c))) c"

definition replicate_to :: "'b backend_ops \<Rightarrow> object_id \<Rightarrow> tier \<Rightarrow> ('b, unit) op" where
  "replicate_to ops oid t = promote ops oid t"

definition evict :: "'b backend_ops \<Rightarrow> object_id \<Rightarrow> ('b, unit) op" where
  "evict ops oid c =
     st_then (Pair (get_meta c oid)) (\<lambda>e.
       fold_st (remove_placement ops oid) (filter (\<lambda>t. t \<noteq> Persistent) (placement_tiers e))) c"

definition delete :: "'b backend_ops \<Rightarrow> object_id \<Rightarrow> ('b, unit) op" where
  "delete ops oid c =
     st_then (Pair (get_meta c oid)) (\<lambda>e.
     st_then (fold_st (remove_placement ops oid) (placement_tiers e)) (\<lambda>_ c.
       let c = (case tc_entries c (oid_to_hex oid) of
                  Some _ \<Rightarrow> c\<lparr>tc_entries := (tc_entries c)(oid_to_hex oid := None),
                              tc_object_count := saturating_sub (tc_object_count c) 1\<rparr>
                | None \<Rightarrow> c)
       in (Inr (), remove_manifest_of oid c))) c"

section \<open>Verification, reports and recovery\<close>

record integrity_report =
  ir_object_id :: string
  ir_checked_placements :: u64
  ir_verified_bytes :: u64
  ir_clean :: bool

fun verify_loop :: "'b backend_ops \<Rightarrow> object_id \<Rightarrow> u8 list \<Rightarrow> tier list \<Rightarrow> u64 \<Rightarrow> ('b, u64) op" where
  "verify_loop ops oid bytes [] checked c = (Inr checked, c)"
| "verify_loop ops oid bytes (t # ts) checked c =
     st_then (materialize_from ops oid t) (\<lambda>b.
     if b \<noteq> bytes then Pair (Inl (Integrity (''placement '' @ tier_label t @ '' of '' @ oid_to_hex oid @ '' disagrees'')))
     else verify_loop ops oid bytes ts (checked + 1)) c"

definition verify :: "'b backend_ops \<Rightarrow> object_id \<Rightarrow> ('b, integrity_report) op" where
  "verify ops oid =
     st_then (materialize_payload ops oid) (\<lambda>bytes c.
     st_then (Pair (get_meta c oid)) (\<lambda>e.
     if of_nat (length bytes) \<noteq> en_byte_len e
     then Pair (Inl (Integrity (''object '' @ oid_to_hex oid @ '' byte length mismatch'')))
     else
     st_then (verify_loop ops oid bytes (placement_tiers e) 0) (\<lambda>checked.
       Pair (Inr \<lparr>ir_object_id = oid_to_hex oid, ir_checked_placements = checked,
         ir_verified_bytes = en_byte_len e, ir_clean = True\<rparr>))) c)"

definition entry_compat_id :: "'b cache \<Rightarrow> object_id \<Rightarrow> digest result" where
  "entry_compat_id c oid = and_then (get_meta c oid) (\<lambda>e. Inr (en_compat_id e))"

definition entry_compat :: "'b cache \<Rightarrow> object_id \<Rightarrow> compat_key result" where
  "entry_compat c oid = and_then (get_meta c oid) (\<lambda>e. Inr (en_compat e))"

record entry_metadata =
  em_object_id :: string
  em_namespace :: string
  em_key :: string
  em_generation :: u64
  em_dtype :: dtype
  em_byte_len :: u64
  em_numel :: u64
  em_created_ns :: u64
  em_last_use_ns :: u64
  em_reuse_count :: u64
  em_durable :: bool
  em_placements :: "tier list"
  em_residency :: residency

definition metadata :: "'b cache \<Rightarrow> object_id \<Rightarrow> entry_metadata result" where
  "metadata c oid = and_then (get_meta c oid) (\<lambda>e.
     Inr \<lparr>em_object_id = oid_to_hex oid, em_namespace = ad_namespace (en_address e), em_key = ad_key (en_address e),
       em_generation = ad_generation (en_address e), em_dtype = ck_dtype (en_compat e), em_byte_len = en_byte_len e,
       em_numel = en_numel e, em_created_ns = en_created_ns e, em_last_use_ns = en_last_use_ns e,
       em_reuse_count = en_reuse_count e, em_durable = en_durable e, em_placements = placement_tiers e,
       em_residency = classify (placement_tiers e)\<rparr>)"

record resource_report =
  rr_host_used :: u64
  rr_host_capacity :: u64
  rr_host_reserved :: u64
  rr_accel_used :: u64
  rr_accel_capacity :: u64
  rr_storage_used :: u64
  rr_storage_capacity :: u64
  rr_object_count :: u64
  rr_block_count :: u64
  rr_replica_count :: u64

definition resources :: "'b cache \<Rightarrow> resource_report" where
  "resources c =
     \<lparr>rr_host_used = acct_used KHost (tc_accounting c), rr_host_capacity = acct_capacity KHost (tc_accounting c),
      rr_host_reserved = acct_reserved KHost (tc_accounting c), rr_accel_used = tc_accel_used c,
      rr_accel_capacity = acct_capacity KAccelerator (tc_accounting c), rr_storage_used = tc_storage_used c,
      rr_storage_capacity = acct_capacity KPersistent (tc_accounting c), rr_object_count = tc_object_count c,
      rr_block_count = of_nat (arena_block_count (tc_host c)),
      rr_replica_count = sum_list (map (\<lambda>k. case tc_entries c k of Some e \<Rightarrow> of_nat (length (en_placements e)) | None \<Rightarrow> 0)
        (tc_iter c (tc_entries c)))\<rparr>"

definition economics :: "'b cache \<Rightarrow> object_id \<Rightarrow> tier \<Rightarrow> plan result" where
  "economics c oid dest = and_then (get_meta c oid) (\<lambda>e.
     Inr (decide (rc_cost (tc_config c)) (en_byte_len e) dest (placement_tiers e) True))"

record recovery_report =
  rv_recovered :: u64
  rv_skipped :: u64

fun count_blocks :: "block_ref list \<Rightarrow> 'b cache \<Rightarrow> 'b cache" where
  "count_blocks [] c = c"
| "count_blocks (b # bs) c =
     count_blocks bs
       (case tc_persistent_refs c (br_content_hash b) of
          Some r \<Rightarrow> c\<lparr>tc_persistent_refs := (tc_persistent_refs c)(br_content_hash b \<mapsto> r + 1)\<rparr>
        | None \<Rightarrow> c\<lparr>tc_persistent_refs := (tc_persistent_refs c)(br_content_hash b \<mapsto> 1),
                    tc_storage_used := tc_storage_used c + br_len b\<rparr>)"

definition recover_meta :: "persist_meta \<Rightarrow> recovery_report \<times> 'b cache \<Rightarrow> recovery_report \<times> 'b cache" where
  "recover_meta m rc =
     (case rc of (rep, c) \<Rightarrow>
        (case oid_from_hex (pe_object_id m) of
           Inl _ \<Rightarrow> (rep\<lparr>rv_skipped := rv_skipped rep + 1\<rparr>, c)
         | Inr oid \<Rightarrow>
             if \<not> (case tc_persistent c of Some st \<Rightarrow> blocks_exist st (pe_blocks m) | None \<Rightarrow> False)
             then (rep\<lparr>rv_skipped := rv_skipped rep + 1\<rparr>, c)
             else
               let c = count_blocks (pe_blocks m) c;
                   now = tc_clock c (tc_ticks c);
                   e = \<lparr>en_address = address_new (pe_namespace m) (pe_key m) (pe_generation m), en_compat = pe_compat m,
                        en_compat_id = compat_id (pe_compat m), en_byte_len = pe_byte_len m, en_numel = pe_numel m,
                        en_blocks = pe_blocks m, en_placements = [PPersistent], en_created_ns = pe_created_ns m,
                        en_last_use_ns = now, en_reuse_count = 0, en_durable = True, en_flags = move_flags_default\<rparr>
               in (rep\<lparr>rv_recovered := rv_recovered rep + 1\<rparr>,
                   insert_entry oid e (c\<lparr>tc_ticks := tc_ticks c + 1\<rparr>))))"

text \<open>\<open>names\<close> is the listing of the manifest directory.\<close>

definition recover :: "string list \<Rightarrow> ('b, recovery_report) op" where
  "recover names c =
     (case tc_persistent c of
        None \<Rightarrow> (Inr \<lparr>rv_recovered = 0, rv_skipped = 0\<rparr>, c)
      | Some st \<Rightarrow>
          let (metas, st) = store_recover names st;
              (rep, c) = fold recover_meta metas (\<lparr>rv_recovered = 0, rv_skipped = 0\<rparr>, c\<lparr>tc_persistent := Some st\<rparr>)
          in (Inr rep, c))"

section \<open>Construction\<close>

text \<open>\<open>cpu\<close> builds the mandatory backend; \<open>disk\<close> is the file system under the configured path, with the
  listings of its two directories before and after the cleanup.\<close>

definition accel_capacity :: "'b backend_ops \<Rightarrow> runtime_config \<Rightarrow> 'b list \<Rightarrow> u64" where
  "accel_capacity ops cfg extra = foldl (\<lambda>cap b. saturating_add cap (be_byte_capacity ops b)) (rc_host_capacity cfg) extra"

definition initial_accounting :: "'b backend_ops \<Rightarrow> runtime_config \<Rightarrow> 'b list \<Rightarrow> accounting" where
  "initial_accounting ops cfg extra =
     set_tier_capacity KAccelerator (accel_capacity ops cfg extra)
       (set_tier_capacity KPersistent (rc_persistent_capacity cfg)
         (set_tier_capacity KHost (rc_host_capacity cfg) accounting_new))"

definition with_backends ::
  "'b backend_ops \<Rightarrow> (usize \<Rightarrow> u64 \<Rightarrow> 'b) \<Rightarrow> runtime_config \<Rightarrow> 'b list \<Rightarrow> store \<Rightarrow> string list \<Rightarrow> string list \<Rightarrow> string list \<Rightarrow>
    (nat \<Rightarrow> u64) \<Rightarrow> ((string \<rightharpoonup> entry) \<Rightarrow> string list) \<Rightarrow> 'b cache result" where
  "with_backends ops cpu cfg extra disk blocks manifests names clock iter =
     (if rc_block_size cfg = 0 then Inl (InvalidArgument ''block size must be nonzero'')
      else
        let backends = fold registry_register extra (registry_register (cpu 0 (rc_host_capacity cfg)) []);
            opened = (case rc_persistent_path cfg of
                        None \<Rightarrow> Inr None
                      | Some _ \<Rightarrow> (case store_open blocks manifests disk of (Inl e, _) \<Rightarrow> Inl e | (Inr _, st) \<Rightarrow> Inr (Some st)))
        in and_then opened (\<lambda>persistent.
          let c = \<lparr>tc_entries = Map.empty, tc_host = arena_new, tc_persistent_refs = Map.empty, tc_storage_used = 0,
                   tc_accel_used = 0, tc_accounting = initial_accounting ops cfg extra, tc_object_count = 0,
                   tc_backends = backends, tc_config = cfg, tc_persistent = persistent, tc_clock = clock, tc_ticks = 0,
                   tc_iter = iter\<rparr>;
              (r, c) = recover names c
          in and_then r (\<lambda>_. Inr c)))"

end
