(* ===== verification/Cache_Steps.thy ===== *)
theory Cache_Steps
  imports Runtime
begin

text \<open>
  What every method of the runtime keeps, whether it succeeds or fails.  The locale \<open>cache_steps\<close> reduces a
  property of all methods to its effect on the few primitive changes of state; \<open>cache_invariant\<close> is the simpler
  contract for a property that does not look at the directory or at the bytes that are copied.
\<close>

section \<open>Frames of the primitives\<close>

text \<open>Taking a placement out, or freeing what is behind it, keeps the set of objects.\<close>

lemma upd_entry_dom [simp]: "dom (tc_entries (upd_entry oid f c)) = dom (tc_entries c)"
  by (auto simp: upd_entry_def split: option.splits)

lemma upd_entry_frame [simp]:
  "tc_host (upd_entry oid f c) = tc_host c" "tc_accounting (upd_entry oid f c) = tc_accounting c"
  "tc_config (upd_entry oid f c) = tc_config c" "tc_persistent_refs (upd_entry oid f c) = tc_persistent_refs c"
  "tc_persistent (upd_entry oid f c) = tc_persistent c"
  by (simp_all add: upd_entry_def split: option.splits)

lemma release_blocks_entries: "release_blocks bs c = (r, c') \<Longrightarrow> tc_entries c' = tc_entries c \<and> tc_config c' = tc_config c"
proof (induction bs arbitrary: c)
  case (Cons b bs)
  then show ?case
    by (fastforce simp: st_then_def on_accounting_def Let_def split: prod.splits sum.splits if_splits)
qed simp

lemma release_persistent_frame [simp]:
  "tc_entries (release_persistent bs c) = tc_entries c" "tc_accounting (release_persistent bs c) = tc_accounting c"
  "tc_host (release_persistent bs c) = tc_host c" "tc_config (release_persistent bs c) = tc_config c"
  by (induction bs arbitrary: c) (auto split: option.splits)

lemma remove_manifest_of_frame [simp]:
  "tc_entries (remove_manifest_of oid c) = tc_entries c" "tc_accounting (remove_manifest_of oid c) = tc_accounting c"
  "tc_host (remove_manifest_of oid c) = tc_host c" "tc_config (remove_manifest_of oid c) = tc_config c"
  by (simp_all add: remove_manifest_of_def)

lemma put_backend_frame [simp]:
  "tc_entries (put_backend ops i b c) = tc_entries c" "tc_accounting (put_backend ops i b c) = tc_accounting c"
  "tc_host (put_backend ops i b c) = tc_host c" "tc_config (put_backend ops i b c) = tc_config c"
  by (simp_all add: put_backend_def)

lemma free_placement_entries:
  "free_placement ops oid e p c = (r, c') \<Longrightarrow> tc_entries c' = tc_entries c \<and> tc_config c' = tc_config c"
  by (cases p) (auto simp: Let_def dest: release_blocks_entries split: sum.splits prod.splits)

text \<open>The state after taking a placement out of the entry and before freeing it.\<close>

abbreviation drop_placement :: "object_id \<Rightarrow> nat \<Rightarrow> 'b cache \<Rightarrow> 'b cache" where
  "drop_placement oid i c \<equiv> upd_entry oid (\<lambda>e. e\<lparr>en_placements := remove_at i (en_placements e)\<rparr>) c"

lemma remove_placement_cases:
  assumes "remove_placement ops oid t c = (r, c')"
  obtains (refused) e where "r = Inl e" "c' = c"
  | (freed) e i where "tc_entries c (oid_to_hex oid) = Some e" "i < length (en_placements e)"
    "placement_tier (en_placements e ! i) = t"
    "free_placement ops oid e (en_placements e ! i) (drop_placement oid i c) = (r, c')"
proof (cases "tc_entries c (oid_to_hex oid)")
  case None
  with assms refused show thesis by (auto simp: remove_placement_def)
next
  case (Some e)
  have pos: "position P xs = Some i \<Longrightarrow> i < length xs \<and> P (xs ! i)" for P i and xs :: "placement list"
    by (induction xs arbitrary: i) (auto split: if_splits)
  show thesis
  proof (cases "position (\<lambda>p. placement_tier p = t) (en_placements e)")
    case None
    with Some assms refused show thesis by (auto simp: remove_placement_def)
  next
    case i: (Some i)
    with Some assms pos [OF i] freed show thesis by (auto simp: remove_placement_def)
  qed
qed

lemma remove_placement_dom:
  "dom (tc_entries (snd (remove_placement ops oid t c))) = dom (tc_entries c) \<and> tc_config (snd (remove_placement ops oid t c)) = tc_config c"
proof (cases "remove_placement ops oid t c")
  case (Pair r c')
  then show ?thesis
  proof (cases rule: remove_placement_cases)
    case (freed e i)
    have "tc_entries c' = tc_entries (drop_placement oid i c)" "tc_config c' = tc_config c"
      using free_placement_entries [OF freed(4)] by simp_all
    then show ?thesis by (simp add: Pair)
  qed (simp add: Pair)
qed

lemma remove_volatile_dom:
  "dom (tc_entries (remove_volatile ops oid ts c)) = dom (tc_entries c) \<and> tc_config (remove_volatile ops oid ts c) = tc_config c"
  by (induction ts arbitrary: c) (simp_all add: remove_placement_dom)

lemma evict_loop_dom:
  "dom (tc_entries (snd (evict_loop ops enough es c))) = dom (tc_entries c) \<and> tc_config (snd (evict_loop ops enough es c)) = tc_config c"
  by (induction es arbitrary: c) (auto simp: Let_def remove_volatile_dom split: sum.splits)

lemma evict_candidates_frame:
  "evict_candidates keys c = (es, c') \<Longrightarrow> \<exists>n. c' = c\<lparr>tc_ticks := n\<rparr>"
proof (induction keys arbitrary: c es)
  case Nil
  then show ?case by (auto intro!: exI [of _ "tc_ticks c"])
next
  case (Cons k ks)
  show ?case
  proof (cases "tc_entries c k")
    case None
    with Cons show ?thesis by simp
  next
    case (Some e)
    with Cons show ?thesis by (fastforce simp: Let_def split: prod.splits if_splits)
  qed
qed

lemma evict_by_dom:
  "dom (tc_entries (snd (evict_by ops enough c))) = dom (tc_entries c) \<and> tc_config (snd (evict_by ops enough c)) = tc_config c"
proof (cases "evict_candidates (tc_iter c (tc_entries c)) c")
  case (Pair es c1)
  then obtain n where "c1 = c\<lparr>tc_ticks := n\<rparr>" using evict_candidates_frame by blast
  with Pair show ?thesis by (simp add: evict_by_def evict_loop_dom)
qed

lemma make_room_dom:
  "dom (tc_entries (snd (make_room ops n c))) = dom (tc_entries c) \<and> tc_config (snd (make_room ops n c)) = tc_config c"
proof -
  have e: "dom (tc_entries (snd (evict_to_free ops n c))) = dom (tc_entries c) \<and> tc_config (snd (evict_to_free ops n c)) = tc_config c"
    by (simp add: evict_to_free_def evict_by_dom)
  show ?thesis
    using e by (cases "evict_to_free ops n c") (simp add: make_room_def st_then_def split: sum.splits)
qed

lemma make_room_fits: "make_room ops n c = (Inr x, u) \<Longrightarrow> n \<le> host_free u"
  by (auto simp: make_room_def not_less st_then_def split: if_splits sum.splits prod.splits)

section \<open>Commands\<close>

datatype cmd =
    CRegister string string u64 compat_key "u8 list"
  | CLookup string string u64 compat_key
  | CRestore object_id tier
  | CPromote object_id tier
  | CDemote object_id tier
  | CPersist object_id
  | CEvict object_id
  | CDelete object_id
  | CVerify object_id
  | CRecover "string list"

text \<open>The state a method leaves, whatever it returns.\<close>

fun exec :: "'b backend_ops \<Rightarrow> cmd \<Rightarrow> 'b cache \<Rightarrow> 'b cache" where
  "exec ops (CRegister namespace key generation k payload) c = snd (register ops namespace key generation k payload c)"
| "exec ops (CLookup namespace key generation k) c = snd (lookup namespace key generation k c)"
| "exec ops (CRestore oid t) c = snd (restore ops oid t c)"
| "exec ops (CPromote oid t) c = snd (promote ops oid t c)"
| "exec ops (CDemote oid t) c = snd (demote ops oid t c)"
| "exec ops (CPersist oid) c = snd (persist ops oid c)"
| "exec ops (CEvict oid) c = snd (evict ops oid c)"
| "exec ops (CDelete oid) c = snd (delete ops oid c)"
| "exec ops (CVerify oid) c = snd (verify ops oid c)"
| "exec ops (CRecover names) c = snd (recover names c)"

text \<open>The keys a caller can pass are values of the Rust type.\<close>

fun cmd_ok :: "cmd \<Rightarrow> bool" where
  "cmd_ok (CRegister _ _ _ k _) \<longleftrightarrow> rust_key k"
| "cmd_ok _ \<longleftrightarrow> True"

text \<open>What the statistics of an entry (use times, counter, durable mark) leave alone.\<close>

definition entry_core ::
  "entry \<Rightarrow> address \<times> compat_key \<times> digest \<times> u64 \<times> u64 \<times> block_ref list \<times> placement list" where
  "entry_core e = (en_address e, en_compat e, en_compat_id e, en_byte_len e, en_numel e, en_blocks e, en_placements e)"

lemma entry_core_placements: "entry_core e = entry_core e' \<Longrightarrow> en_placements e = en_placements e'"
  by (simp add: entry_core_def)

text \<open>The entry that registration makes of an address, a key, its blocks and the references it acquired.\<close>

definition fresh_entry :: "address \<Rightarrow> compat_key \<Rightarrow> u64 \<Rightarrow> block_ref list \<Rightarrow> u64 \<Rightarrow> block_ref list \<Rightarrow> entry \<Rightarrow> bool" where
  "fresh_entry address k n blocks byte_len acquired e \<longleftrightarrow>
     en_address e = address \<and> en_compat e = k \<and> en_compat_id e = compat_id k \<and> en_numel e = n \<and> en_blocks e = blocks \<and>
     en_byte_len e = byte_len \<and> en_placements e = [PHost acquired]"

text \<open>One command acquires at most \<open>BMAX\<close> block references; reference counts hold \<open>LIMIT\<close>.\<close>

definition BMAX :: nat where "BMAX = 16777216"
definition LIMIT :: nat where "LIMIT = 2 ^ 64 - 1"

lemma BMAX_eq: "unat MAX_BLOCKS_PER_TENSOR = BMAX"
  by (simp add: MAX_BLOCKS_PER_TENSOR_def BMAX_def)

text \<open>How many times \<open>BMAX\<close> references a command may add, on disk too: a recovery counts the blocks of every manifest.\<close>

fun cost :: "cmd \<Rightarrow> nat" where
  "cost (CRecover names) = length names"
| "cost _ = 1"

section \<open>Reading changes no file\<close>

lemma reconstruct_blocks_reads: "st_files (snd (reconstruct_blocks bs out st)) = st_files st"
proof (induction bs arbitrary: out st)
  case (Cons b bs)
  obtain r st1 where g: "get_block (br_content_hash b) st = (r, st1)" by fastforce
  show ?case
    using Cons.IH [of _ st1] conjunct1 [OF get_block_cases [OF g]] by (cases "reconstruct_step (\<lambda>_. r) b out") (simp_all add: g)
qed simp

lemma reconstruct_store_reads: "st_files (snd (reconstruct_store bs n st)) = st_files st"
  by (simp add: reconstruct_store_def reconstruct_blocks_reads split: sum.splits)

definition rereads :: "'b cache \<Rightarrow> 'b cache \<Rightarrow> bool" where
  "rereads c c' \<longleftrightarrow> c' = c \<or> (\<exists>st st'. tc_persistent c = Some st \<and> st_files st' = st_files st \<and> c' = c\<lparr>tc_persistent := Some st'\<rparr>)"

lemma from_persistent_frame: "tc_persistent c = Some st \<Longrightarrow> rereads c (snd (from_persistent e st c))"
  using reconstruct_store_reads [of "en_blocks e" "en_byte_len e" st]
  by (cases "reconstruct_store (en_blocks e) (en_byte_len e) st") (auto simp: rereads_def from_persistent_def)

lemma rereads_refl [simp]: "rereads c c"
  by (simp add: rereads_def)

lemma materialize_payload_frame: "rereads c (snd (materialize_payload ops oid c))"
  by (simp add: materialize_payload_def Let_def from_persistent_frame split: sum.split option.split)

lemma materialize_from_frame: "rereads c (snd (materialize_from ops oid t c))"
  by (simp add: materialize_from_def from_persistent_frame split: sum.split option.split tier.split placement.split)

lemma materialize_payload_entries: "materialize_payload ops oid c = (r, u) \<Longrightarrow> tc_entries u = tc_entries c"
  using materialize_payload_frame [of c ops oid] by (auto simp: rereads_def)

lemma store_recover_length: "store_recover names st = (ms, st') \<Longrightarrow> length ms \<le> length names"
proof (induction names arbitrary: st ms)
  case (Cons name names)
  have "length (fst (recover_entry name st)) \<le> 1" by (simp add: recover_entry_def split: prod.splits sum.splits)
  moreover obtain ms1 st1 where r: "recover_entry name st = (ms1, st1)" by fastforce
  moreover obtain ms2 st2 where "store_recover names st1 = (ms2, st2)" by fastforce
  ultimately show ?case using Cons.IH Cons.prems by fastforce
qed simp

lemma recover_meta_persistent: "tc_persistent (snd (recover_meta m (rep, c))) = tc_persistent c"
proof -
  have "tc_persistent (count_blocks bs c) = tc_persistent c" for bs and c :: "'a cache"
    by (induction bs arbitrary: c) (auto split: option.splits)
  then show ?thesis by (auto simp: recover_meta_def Let_def insert_entry_def split: sum.splits)
qed

section \<open>Invariants of the cache\<close>

text \<open>The budget \<open>n\<close> of \<open>P n\<close> bounds the block references acquired so far.  \<open>G e bytes\<close> says that \<open>bytes\<close> is what a
  read of the object with entry \<open>e\<close> may return, and \<open>ok\<close> which registrations are considered.\<close>

locale cache_steps =
  fixes ops :: "'b backend_ops"
    and P :: "nat \<Rightarrow> 'b cache \<Rightarrow> bool"
    and G :: "entry \<Rightarrow> u8 list \<Rightarrow> bool"
    and ok :: "string \<Rightarrow> string \<Rightarrow> compat_key \<Rightarrow> u8 list \<Rightarrow> bool"
  assumes mono: "P n c \<Longrightarrow> n \<le> m \<Longrightarrow> P m c"
    and tick: "P n c \<Longrightarrow> P n (c\<lparr>tc_ticks := time\<rparr>)"
    and reread: "P n c \<Longrightarrow> tc_persistent c = Some st \<Longrightarrow> st_files st' = st_files st \<Longrightarrow> P n (c\<lparr>tc_persistent := Some st'\<rparr>)"
    and reads: "P n c \<Longrightarrow> tc_entries c (oid_to_hex oid) = Some e \<Longrightarrow> materialize_payload ops oid c = (Inr bytes, c') \<Longrightarrow> G e bytes"
    and touch: "P n c \<Longrightarrow> (\<And>e. entry_core (f e) = entry_core e) \<Longrightarrow> P n (upd_entry oid f c)"
    and add: "P n c \<Longrightarrow> n + BMAX \<le> LIMIT \<Longrightarrow> tc_entries c (oid_to_hex oid) = Some e \<Longrightarrow> \<not> has_tier e t \<Longrightarrow> G e bytes \<Longrightarrow>
            P (n + BMAX) (snd (add_placement ops oid t bytes c))"
    and remove: "P n c \<Longrightarrow> P n (snd (remove_placement ops oid t c))"
    and admit: "P n c \<Longrightarrow> n + BMAX \<le> LIMIT \<Longrightarrow> oid = object_id (address_new namespace key generation) \<Longrightarrow>
            tc_entries c (oid_to_hex oid) = None \<Longrightarrow> chunk payload (rc_block_size (tc_config c)) = Inr blocks \<Longrightarrow>
            length blocks \<le> BMAX \<Longrightarrow> ok namespace key k payload \<Longrightarrow> validate_block_list blocks byte_len = Inr () \<Longrightarrow>
            shape_byte_len (ck_shape k) (byte_size (ck_dtype k)) = Inr byte_len \<Longrightarrow> byte_len = of_nat (length payload) \<Longrightarrow>
            numel (ck_shape k) = Inr numel_k \<Longrightarrow> new_host \<le> host_free c \<Longrightarrow> acquire_host new_host payload blocks c = (r, c') \<Longrightarrow>
            P (n + BMAX) c' \<and> (\<forall>acquired e time. r = Inr acquired \<longrightarrow>
              fresh_entry (address_new namespace key generation) k numel_k blocks byte_len acquired e \<longrightarrow>
              P (n + BMAX) (insert_entry oid e (c'\<lparr>tc_ticks := time\<rparr>)))"
    and forget: "P n c \<Longrightarrow> P n (c\<lparr>tc_entries := (tc_entries c)(key := None), tc_object_count := cnt\<rparr>)"
    and unlist: "P n c \<Longrightarrow> tc_entries c (oid_to_hex oid) = None \<Longrightarrow> P n (remove_manifest_of oid c)"
    and found: "P n c \<Longrightarrow> n + BMAX \<le> LIMIT \<Longrightarrow> meta_ok meta \<Longrightarrow> tc_persistent c = Some st \<Longrightarrow>
            path_extension name = Some ''manifest'' \<Longrightarrow> st_files st (ManifestsDir, name) = Some (encode_manifest meta) \<Longrightarrow>
            P (n + BMAX) (snd (recover_meta meta (rep, c)))"
begin

lemma volatile: "P n c \<Longrightarrow> P n (remove_volatile ops oid ts c)"
  by (induction ts arbitrary: c) (simp_all add: remove)

lemma loop: "P n c \<Longrightarrow> P n (snd (evict_loop ops enough es c))"
  by (induction es arbitrary: c) (auto simp: Let_def volatile split: sum.splits)

lemma by_score: "P n c \<Longrightarrow> P n (snd (evict_by ops enough c))"
proof (cases "evict_candidates (tc_iter c (tc_entries c)) c")
  case (Pair es c1)
  assume "P n c"
  then have "P n c1" using evict_candidates_frame [OF Pair] by (auto intro: tick)
  then show ?thesis by (simp add: evict_by_def Pair loop)
qed

lemma enforce: "P n c \<Longrightarrow> P n (snd (enforce_capacity ops c))"
  by (simp add: enforce_capacity_def Let_def by_score)

lemma room: "P n c \<Longrightarrow> P n (snd (make_room ops k c))"
proof -
  assume "P n c"
  then have "P n (snd (evict_to_free ops k c))" by (simp add: evict_to_free_def by_score)
  then show ?thesis
    using \<open>P n c\<close> by (cases "evict_to_free ops k c") (simp add: make_room_def st_then_def split: sum.splits)
qed

lemma materialize: "P n c \<Longrightarrow> P n (snd (materialize_payload ops oid c))"
  using materialize_payload_frame [of c ops oid] reread by (auto simp: rereads_def)

lemma materialize_at: "P n c \<Longrightarrow> P n (snd (materialize_from ops oid t c))"
  using materialize_from_frame [of c ops oid t] reread by (auto simp: rereads_def)

lemma reads_after:
  assumes "P n c" "materialize_payload ops oid c = (Inr bytes, u)"
  shows "\<exists>e. tc_entries c (oid_to_hex oid) = Some e \<and> tc_entries u (oid_to_hex oid) = Some e \<and> G e bytes"
proof -
  obtain e where e: "tc_entries c (oid_to_hex oid) = Some e"
    using assms(2) by (auto simp: materialize_payload_def get_meta_def res split: sum.splits)
  then show ?thesis using reads [OF assms(1) e assms(2)] materialize_payload_entries [OF assms(2)] by simp
qed

lemma keep_lookup: "P n c \<Longrightarrow> P n (snd (lookup namespace key generation k c))"
  by (auto simp: lookup_def Let_def entry_core_def split: option.splits intro!: touch tick)

lemma then_keep:
  assumes "P n (snd (m c))" "n \<le> k" "\<And>x u. m c = (Inr x, u) \<Longrightarrow> P n u \<Longrightarrow> P k (snd (f x u))"
  shows "P k (snd (st_then m f c))"
  using assms by (cases "m c") (auto simp: st_then_def intro: mono split: sum.splits)

lemma add_good:
  assumes "P n c" "n + BMAX \<le> LIMIT" "entry_has_tier c oid t = Inr False" "\<And>e. tc_entries c (oid_to_hex oid) = Some e \<Longrightarrow> G e bytes"
  shows "P (n + BMAX) (snd (add_placement ops oid t bytes c))"
  using assms(3,4) add [OF assms(1,2)] by (auto simp: entry_has_tier_def get_meta_def res)

lemma has_tier_after:
  assumes "materialize_payload ops oid c = (r, u)"
  shows "entry_has_tier u oid t = entry_has_tier c oid t"
  using materialize_payload_entries [OF assms] by (simp add: entry_has_tier_def get_meta_def)

lemma add_to:
  assumes "P n c" "n + BMAX \<le> LIMIT" "entry_has_tier c oid t = Inr False"
  shows "P (n + BMAX) (snd (st_then (materialize_payload ops oid) (add_placement ops oid t) c))"
proof (rule then_keep [of n])
  fix bytes u assume m: "materialize_payload ops oid c = (Inr bytes, u)" and u: "P n u"
  show "P (n + BMAX) (snd (add_placement ops oid t bytes u))"
    by (rule add_good [OF u assms(2)]) (use reads_after [OF assms(1) m] has_tier_after [OF m] assms(3) in auto)
qed (use assms(1) in \<open>auto intro: materialize\<close>)

lemma keep_restore:
  assumes "P n c" "n + BMAX \<le> LIMIT"
  shows "P (n + BMAX) (snd (restore ops oid t c))"
proof -
  have last: "P (n + BMAX) (snd (st_then (if has then Pair (Inr ()) else add_placement ops oid t bytes)
      (\<lambda>_ c. (Inr bytes, snd (enforce_capacity ops c))) u))"
    if "P n u" "entry_has_tier u oid t = Inr has" "\<And>e. tc_entries u (oid_to_hex oid) = Some e \<Longrightarrow> G e bytes" for has bytes u
  proof (rule then_keep [of "n + BMAX"])
    show "P (n + BMAX) (snd ((if has then Pair (Inr ()) else add_placement ops oid t bytes) u))"
      using that add_good [OF that(1) assms(2)] by (cases has) (auto intro: mono)
  qed (auto intro: enforce)
  have mat: "P (n + BMAX) (snd (st_then (materialize_payload ops oid) (\<lambda>bytes c.
     st_then (Pair (entry_has_tier c oid t)) (\<lambda>has.
     st_then (if has then Pair (Inr ()) else add_placement ops oid t bytes) (\<lambda>_ c.
       (Inr bytes, snd (enforce_capacity ops c)))) c) c))"
  proof (rule then_keep [of n])
    fix bytes u assume m: "materialize_payload ops oid c = (Inr bytes, u)" and u: "P n u"
    show "P (n + BMAX) (snd (st_then (Pair (entry_has_tier u oid t)) (\<lambda>has.
       st_then (if has then Pair (Inr ()) else add_placement ops oid t bytes) (\<lambda>_ c.
         (Inr bytes, snd (enforce_capacity ops c)))) u))"
    proof (rule then_keep [of n])
      fix has v assume "(entry_has_tier u oid t, u) = (Inr has, v)"
      then show "P (n + BMAX) (snd (st_then (if has then Pair (Inr ()) else add_placement ops oid t bytes)
          (\<lambda>_ c. (Inr bytes, snd (enforce_capacity ops c))) v))"
        using last [OF u, of has bytes] reads_after [OF assms(1) m] by auto
    qed (use u in auto)
  qed (use assms(1) in \<open>auto intro: materialize\<close>)
  show ?thesis
    unfolding restore_def by (rule then_keep [of n]) (use assms mat in \<open>auto intro: mono\<close>)
qed

lemma keep_promote:
  assumes "P n c" "n + BMAX \<le> LIMIT"
  shows "P (n + BMAX) (snd (promote ops oid t c))"
proof -
  have "P (n + BMAX) (snd (st_then (materialize_payload ops oid) (\<lambda>bytes.
     st_then (add_placement ops oid t bytes) (\<lambda>_ c. (Inr (), snd (enforce_capacity ops c)))) c))"
    if "entry_has_tier c oid t = Inr False"
  proof (rule then_keep [of n])
    fix bytes u assume m: "materialize_payload ops oid c = (Inr bytes, u)" and u: "P n u"
    have "P (n + BMAX) (snd (add_placement ops oid t bytes u))"
      by (rule add_good [OF u assms(2)]) (use reads_after [OF assms(1) m] has_tier_after [OF m] that in auto)
    then show "P (n + BMAX) (snd (st_then (add_placement ops oid t bytes) (\<lambda>_ c. (Inr (), snd (enforce_capacity ops c))) u))"
      by (rule then_keep [of "n + BMAX"]) (auto intro: enforce)
  qed (use assms(1) in \<open>auto intro: materialize\<close>)
  then have q: "P (n + BMAX) (snd (st_then (Pair (entry_quarantined c oid)) (\<lambda>q.
     if q then Pair (Inl (Integrity ''object is quarantined''))
     else
     st_then (materialize_payload ops oid) (\<lambda>bytes.
     st_then (add_placement ops oid t bytes) (\<lambda>_ c. (Inr (), snd (enforce_capacity ops c))))) c))"
    if "entry_has_tier c oid t = Inr False"
    by (intro then_keep [of n]) (use assms(1) that in \<open>auto intro: mono\<close>)
  show ?thesis
    unfolding promote_def by (rule then_keep [of n]) (use assms(1) q in \<open>auto intro: mono\<close>)
qed

lemma add_unless:
  assumes "P n c" "n + BMAX \<le> LIMIT" "entry_has_tier c oid t = Inr has"
  shows "P (n + BMAX) (snd ((if has then Pair (Inr ()) else st_then (materialize_payload ops oid) (add_placement ops oid t)) c))"
  using assms add_to [OF assms(1,2)] by (cases has) (auto intro: mono)

lemma keep_demote:
  assumes "P n c" "n + BMAX \<le> LIMIT"
  shows "P (n + BMAX) (snd (demote ops oid t c))"
proof -
  have last: "P (n + BMAX) (snd (st_then (if has then Pair (Inr ())
      else st_then (materialize_payload ops oid) (add_placement ops oid target)) (\<lambda>_. remove_placement ops oid t) c))"
    if "entry_has_tier c oid target = Inr has" for has target
    by (rule then_keep [of "n + BMAX"]) (use add_unless [OF assms that] in \<open>auto intro: remove\<close>)
  have mid: "P (n + BMAX) (snd (st_then (Pair (entry_has_tier c oid target)) (\<lambda>has.
     st_then (if has then Pair (Inr ()) else st_then (materialize_payload ops oid) (add_placement ops oid target)) (\<lambda>_.
     remove_placement ops oid t)) c))" for target
    by (rule then_keep [of n]) (use assms(1) last in auto)
  have low: "P (n + BMAX) (snd (st_then (Pair (next_lower t)) (\<lambda>target c.
     st_then (Pair (entry_has_tier c oid target)) (\<lambda>has.
     st_then (if has then Pair (Inr ()) else st_then (materialize_payload ops oid) (add_placement ops oid target)) (\<lambda>_.
     remove_placement ops oid t)) c) c))"
    by (rule then_keep [of n]) (use assms(1) mid in auto)
  show ?thesis
    unfolding demote_def by (rule then_keep [of n]) (use assms(1) low in \<open>auto intro: mono\<close>)
qed

lemma keep_persist:
  assumes "P n c" "n + BMAX \<le> LIMIT"
  shows "P (n + BMAX) (snd (persist ops oid c))"
proof -
  have last: "P (n + BMAX) (snd (st_then (if has then Pair (Inr ())
      else st_then (materialize_payload ops oid) (add_placement ops oid Persistent)) (\<lambda>_ c.
     (Inr (), upd_entry oid (\<lambda>e. e\<lparr>en_durable := True\<rparr>) c)) c))" if "entry_has_tier c oid Persistent = Inr has" for has
    by (rule then_keep [of "n + BMAX"]) (use add_unless [OF assms that] in \<open>auto simp: entry_core_def intro: touch\<close>)
  show ?thesis
    unfolding persist_def by (rule then_keep [of n]) (use assms(1) last in auto)
qed

lemma removes: "P n c \<Longrightarrow> P n (snd (fold_st (remove_placement ops oid) ts c))"
  by (rule fold_st_preserves) (auto intro: remove)

lemma keep_evict: "P n c \<Longrightarrow> P n (snd (evict ops oid c))"
  unfolding evict_def by (rule then_keep [of n]) (auto intro: removes)

lemma keep_delete: "P n c \<Longrightarrow> P n (snd (delete ops oid c))"
proof -
  assume c: "P n c"
  have all: "P n (snd (st_then (fold_st (remove_placement ops oid) ts) (\<lambda>_ c.
       let c = (case tc_entries c (oid_to_hex oid) of
                  Some _ \<Rightarrow> c\<lparr>tc_entries := (tc_entries c)(oid_to_hex oid := None),
                              tc_object_count := saturating_sub (tc_object_count c) 1\<rparr>
                | None \<Rightarrow> c)
       in (Inr (), remove_manifest_of oid c)) c))" for ts
    by (rule then_keep [of n])
       (use c in \<open>auto intro!: removes unlist forget simp: Let_def split: option.splits\<close>)
  show ?thesis
    unfolding delete_def by (rule then_keep [of n]) (use c all in auto)
qed

lemma keep_verify_loop: "P n c \<Longrightarrow> P n (snd (verify_loop ops oid bytes ts k c))"
proof (induction ts arbitrary: k c)
  case (Cons t ts)
  show ?case
    unfolding verify_loop.simps by (rule then_keep [of n]) (use Cons in \<open>auto intro: materialize_at\<close>)
qed simp

lemma keep_verify: "P n c \<Longrightarrow> P n (snd (verify ops oid c))"
proof -
  assume c: "P n c"
  have "P n (snd (st_then (verify_loop ops oid bytes ts 0) (\<lambda>checked. Pair (f checked)) u))" if "P n u" for bytes ts f u
    by (rule then_keep [of n]) (use that in \<open>auto intro: keep_verify_loop\<close>)
  then show ?thesis
    unfolding verify_def by (intro then_keep [of n]) (use c in \<open>auto intro: materialize then_keep [of n]\<close>)
qed

lemma keep_found:
  assumes "P n (snd rc)" "n + length ms * BMAX \<le> LIMIT" "tc_persistent (snd rc) = Some st"
    "\<forall>m \<in> set ms. meta_ok m \<and> (\<exists>name. path_extension name = Some ''manifest'' \<and> st_files st (ManifestsDir, name) = Some (encode_manifest m))"
  shows "P (n + length ms * BMAX) (snd (fold recover_meta ms rc))"
  using assms
proof (induction ms arbitrary: n rc)
  case (Cons m ms)
  obtain name where name: "path_extension name = Some ''manifest''" "st_files st (ManifestsDir, name) = Some (encode_manifest m)"
    and m: "meta_ok m" using Cons.prems(4) by auto
  have "P (n + BMAX) (snd (recover_meta m rc))"
    using found [OF Cons.prems(1) _ m Cons.prems(3) name, of "fst rc"] Cons.prems(2) by simp
  from Cons.IH [OF this] Cons.prems(2-4) recover_meta_persistent [of m "fst rc" "snd rc"] show ?case by (simp add: ac_simps)
qed simp

lemma keep_recover_names:
  assumes "P n c" "n + length names * BMAX \<le> LIMIT"
  shows "P (n + length names * BMAX) (snd (recover names c))"
proof (cases "tc_persistent c")
  case (Some st)
  obtain ms st' where r: "store_recover names st = (ms, st')" by fastforce
  have len: "length ms \<le> length names" using store_recover_length [OF r] .
  have files: "st_files st' = st_files st" using store_recover_sound [OF r] by simp
  have "P (n + length ms * BMAX) (snd (fold recover_meta ms (\<lparr>rv_recovered = 0, rv_skipped = 0\<rparr>, c\<lparr>tc_persistent := Some st'\<rparr>)))"
  proof (rule keep_found [where st = st'])
    show "n + length ms * BMAX \<le> LIMIT" using assms(2) mult_le_mono1 [OF len, of BMAX] by linarith
    show "P n (snd (\<lparr>rv_recovered = 0, rv_skipped = 0\<rparr>, c\<lparr>tc_persistent := Some st'\<rparr>))"
      using reread [OF assms(1) Some files] by simp
  qed (use store_recover_sound [OF r] in auto)
  then have "P (n + length ms * BMAX) (snd (recover names c))" by (simp add: recover_def Some r case_prod_beta)
  then show ?thesis by (rule mono) (simp add: len)
qed (use assms in \<open>simp add: recover_def mono\<close>)

lemma keep_register:
  assumes c: "P n c" and le: "n + BMAX \<le> LIMIT" and key: "ok namespace key k payload"
  shows "P (n + BMAX) (snd (register ops namespace key generation k payload c))"
proof -
  let ?oid = "object_id (address_new namespace key generation)"
  have c': "P (n + BMAX) c" using c by (rule mono) simp
  have insert: "P (n + BMAX) (snd (st_then (acquire_host new_host payload blocks) (\<lambda>acquired.
          st_then now_ns (\<lambda>created.
          st_then now_ns (\<lambda>last_use c.
          st_then (enforce_capacity ops) (\<lambda>_. Pair (Inr ?oid))
            (insert_entry ?oid (e acquired created last_use) c)))) u))"
    if u: "P n u" and new: "tc_entries u (oid_to_hex ?oid) = None"
      and ch: "chunk payload (rc_block_size (tc_config u)) = Inr blocks" and len: "length blocks \<le> BMAX"
      and v: "validate_block_list blocks byte_len = Inr ()"
      and g: "shape_byte_len (ck_shape k) (byte_size (ck_dtype k)) = Inr byte_len" "byte_len = of_nat (length payload)"
        "numel (ck_shape k) = Inr num" and fit: "new_host \<le> host_free u"
      and e: "\<And>a b l. fresh_entry (address_new namespace key generation) k num blocks byte_len a (e a b l)"
    for new_host blocks byte_len num e u
  proof (cases "acquire_host new_host payload blocks u")
    case (Pair r u')
    note ad = admit [OF u le refl new ch len key v g fit Pair]
    show ?thesis
    proof (cases r)
      case (Inl err)
      then show ?thesis using ad by (simp add: st_then_def Pair)
    next
      case (Inr acquired)
      let ?v = "insert_entry ?oid (e acquired (tc_clock u' (tc_ticks u')) (tc_clock u' (Suc (tc_ticks u'))))
        (u'\<lparr>tc_ticks := Suc (Suc (tc_ticks u'))\<rparr>)"
      have "P (n + BMAX) ?v" using ad Inr e by blast
      then have "P (n + BMAX) (snd (enforce_capacity ops ?v))" by (rule enforce)
      then show ?thesis
        by (cases "enforce_capacity ops ?v") (simp add: st_then_def Pair Inr now_ns_def split: sum.splits)
    qed
  qed
  have room': "P (n + BMAX) (snd (st_then (make_room ops new_host) (\<lambda>_.
          st_then (acquire_host new_host payload blocks) (\<lambda>acquired.
          st_then now_ns (\<lambda>created.
          st_then now_ns (\<lambda>last_use c.
          st_then (enforce_capacity ops) (\<lambda>_. Pair (Inr ?oid))
            (insert_entry ?oid (e acquired created last_use) c))))) c))"
    if new: "tc_entries c (oid_to_hex ?oid) = None"
      and ch: "chunk payload (rc_block_size (tc_config c)) = Inr blocks" and len: "length blocks \<le> BMAX"
      and v: "validate_block_list blocks byte_len = Inr ()"
      and g: "shape_byte_len (ck_shape k) (byte_size (ck_dtype k)) = Inr byte_len" "byte_len = of_nat (length payload)"
        "numel (ck_shape k) = Inr num"
      and e: "\<And>a b l. fresh_entry (address_new namespace key generation) k num blocks byte_len a (e a b l)"
    for new_host blocks byte_len num e
  proof (rule then_keep [of n])
    fix x u assume mr: "make_room ops new_host c = (Inr x, u)" and u: "P n u"
    have d: "dom (tc_entries u) = dom (tc_entries c)" "tc_config u = tc_config c" using make_room_dom [of ops new_host c] mr by simp_all
    from d(1) new have "tc_entries u (oid_to_hex ?oid) = None" by (metis domIff)
    from insert [OF u this _ len v g make_room_fits [OF mr] e] ch d(2) show "P (n + BMAX) (snd (st_then (acquire_host new_host payload blocks) (\<lambda>acquired.
          st_then now_ns (\<lambda>created.
          st_then now_ns (\<lambda>last_use c.
          st_then (enforce_capacity ops) (\<lambda>_. Pair (Inr ?oid))
            (insert_entry ?oid (e acquired created last_use) c)))) u))" by simp
  qed (use c room in auto)
  have len: "length blocks \<le> BMAX" if "chunk payload bs = Inr blocks" for bs blocks
    using chunk_length [OF that] by (simp add: BMAX_eq)
  show ?thesis
    unfolding register_def Let_def
    by (auto simp: c' len room' [where byte_len = "of_nat (length payload)"] fresh_entry_def
        split: if_splits intro!: then_keep [of "n + BMAX" _ c "n + BMAX"])
qed

text \<open>Every command, and so every sequence of commands that stays within the reference budget.\<close>

lemma keep_cmd:
  assumes "P n c" "n + cost cmd * BMAX \<le> LIMIT"
    "case cmd of CRegister namespace key _ k payload \<Rightarrow> ok namespace key k payload | _ \<Rightarrow> True"
  shows "P (n + cost cmd * BMAX) (exec ops cmd c)"
  using assms
  by (cases cmd)
     (auto simp: keep_register keep_restore keep_promote keep_demote keep_persist keep_recover_names
       intro: mono [of n _ "n + BMAX"] keep_lookup keep_evict keep_delete keep_verify)

end

text \<open>A property of entries, arena and budgets only.\<close>

locale cache_invariant =
  fixes ops :: "'b backend_ops"
    and P :: "nat \<Rightarrow> 'b cache \<Rightarrow> bool"
  assumes mono: "P n c \<Longrightarrow> n \<le> m \<Longrightarrow> P m c"
    and tick: "P n c \<Longrightarrow> P n (c\<lparr>tc_ticks := time\<rparr>)"
    and disk: "P n c \<Longrightarrow> P n (c\<lparr>tc_persistent := s\<rparr>)"
    and touch: "P n c \<Longrightarrow> (\<And>e. entry_core (f e) = entry_core e) \<Longrightarrow> P n (upd_entry oid f c)"
    and add: "P n c \<Longrightarrow> n + BMAX \<le> LIMIT \<Longrightarrow> P (n + BMAX) (snd (add_placement ops oid t bytes c))"
    and remove: "P n c \<Longrightarrow> P n (snd (remove_placement ops oid t c))"
    and admit: "P n c \<Longrightarrow> n + BMAX \<le> LIMIT \<Longrightarrow> length blocks \<le> BMAX \<Longrightarrow>
            rust_key k \<Longrightarrow> validate_block_list blocks byte_len = Inr () \<Longrightarrow>
            shape_byte_len (ck_shape k) (byte_size (ck_dtype k)) = Inr byte_len \<Longrightarrow> numel (ck_shape k) = Inr num \<Longrightarrow> new_host \<le> host_free c \<Longrightarrow>
            acquire_host new_host payload blocks c = (r, c') \<Longrightarrow>
            P (n + BMAX) c' \<and> (\<forall>acquired e time. r = Inr acquired \<longrightarrow> fresh_entry address k num blocks byte_len acquired e \<longrightarrow>
              P (n + BMAX) (insert_entry oid e (c'\<lparr>tc_ticks := time\<rparr>)))"
    and forget: "P n c \<Longrightarrow> P n (c\<lparr>tc_entries := (tc_entries c)(key := None), tc_object_count := cnt\<rparr>)"
    and recovered: "P n c \<Longrightarrow> meta_ok meta \<Longrightarrow> P n (snd (recover_meta meta (rep, c)))"

sublocale cache_invariant \<subseteq> every: cache_steps ops P "\<lambda>_ _. True" "\<lambda>_ _ k _. rust_key k"
proof
  fix n c oid and r :: "block_ref list result" and c' namespace key generation k num blocks byte_len new_host payload
  assume "P n c" "n + BMAX \<le> LIMIT" "length blocks \<le> BMAX" "rust_key k"
    "validate_block_list blocks byte_len = Inr ()" "shape_byte_len (ck_shape k) (byte_size (ck_dtype k)) = Inr byte_len"
    "numel (ck_shape k) = Inr num" "new_host \<le> host_free c" "acquire_host new_host payload blocks c = (r, c')"
  then show "P (n + BMAX) c' \<and> (\<forall>acquired e time. r = Inr acquired \<longrightarrow>
      fresh_entry (address_new namespace key generation) k num blocks byte_len acquired e \<longrightarrow>
      P (n + BMAX) (insert_entry oid e (c'\<lparr>tc_ticks := time\<rparr>)))"
    by (rule admit)
next
  fix n c meta rep assume "P n c" "meta_ok meta"
  then show "P (n + BMAX) (snd (recover_meta meta (rep, c)))" by (rule mono [OF recovered]) simp
qed (auto simp: mono tick disk touch add remove forget remove_manifest_of_def)

context cache_invariant
begin

lemma keep_metas: "P n (snd rc) \<Longrightarrow> \<forall>m \<in> set ms. meta_ok m \<Longrightarrow> P n (snd (fold recover_meta ms rc))"
proof (induction ms arbitrary: rc)
  case (Cons m ms)
  have "P n (snd (recover_meta m rc))" using Cons.prems recovered [of n "snd rc" m "fst rc"] by simp
  with Cons show ?case by simp
qed simp

lemma keep_recover: "P n c \<Longrightarrow> P n (snd (recover names c))"
proof -
  assume c: "P n c"
  show ?thesis
  proof (cases "tc_persistent c")
    case (Some st)
    obtain ms st' where r: "store_recover names st = (ms, st')" by fastforce
    have "P n (snd (fold recover_meta ms (\<lparr>rv_recovered = 0, rv_skipped = 0\<rparr>, c\<lparr>tc_persistent := Some st'\<rparr>)))"
      by (rule keep_metas) (use c store_recover_sound [OF r] in \<open>auto simp: disk\<close>)
    then show ?thesis by (simp add: recover_def Some r case_prod_beta)
  qed (use c in \<open>simp add: recover_def\<close>)
qed

text \<open>Every command, and so every sequence of commands that stays within the reference budget.\<close>

lemma keep_exec: "P n c \<Longrightarrow> n + BMAX \<le> LIMIT \<Longrightarrow> cmd_ok cmd \<Longrightarrow> P (n + BMAX) (exec ops cmd c)"
  by (cases cmd)
     (auto simp: every.keep_register every.keep_restore every.keep_promote every.keep_demote every.keep_persist
       intro: mono [of n _ "n + BMAX"] every.keep_lookup every.keep_evict every.keep_delete every.keep_verify keep_recover)

lemma keep_run:
  "P n c \<Longrightarrow> n + length cmds * BMAX \<le> LIMIT \<Longrightarrow> list_all cmd_ok cmds \<Longrightarrow> P (n + length cmds * BMAX) (fold (exec ops) cmds c)"
proof (induction cmds arbitrary: n c)
  case (Cons cmd cmds)
  have "P (n + BMAX) (exec ops cmd c)" by (rule keep_exec) (use Cons.prems in auto)
  from Cons.IH [OF this] Cons.prems(2,3) show ?case by (simp add: ac_simps)
qed simp

end

end
