(* ===== verification/Cache_Safety.thy ===== *)
theory Cache_Safety
  imports Cache_Steps
begin

text \<open>
  The byte budgets and the host block references, kept by every method: two interpretations of \<open>cache_invariant\<close>.
\<close>

section \<open>The byte budgets\<close>

text \<open>The counters of every tier are within its capacity, the capacities of host memory and of the directory are the
  configured ones, and nothing is ever charged to the accelerators.\<close>

definition budgets_for :: "runtime_config \<Rightarrow> accounting \<Rightarrow> bool" where
  "budgets_for cfg a \<longleftrightarrow> accounting_inv a \<and> bu_capacity (ac_host a) = rc_host_capacity cfg \<and>
     bu_capacity (ac_storage a) = rc_persistent_capacity cfg \<and> bu_used (ac_accel a) = 0 \<and> bu_reserved (ac_accel a) = 0"

definition budgets_ok :: "'b cache \<Rightarrow> bool" where
  "budgets_ok c \<longleftrightarrow> budgets_for (tc_config c) (tc_accounting c)"

lemma budgets_ok_inv: "budgets_ok c \<Longrightarrow> accounting_inv (tc_accounting c)"
  by (simp add: budgets_ok_def budgets_for_def)

lemma budget_op_capacity:
  "bu_capacity (snd (budget_reserve n b)) = bu_capacity b" "bu_capacity (snd (budget_commit n b)) = bu_capacity b"
  "bu_capacity (snd (sub_used n b)) = bu_capacity b"
  by (simp_all add: budget_reserve_def budget_commit_def add_used_def sub_used_def split: option.split)

lemma budgets_for_step:
  assumes "budgets_for cfg a" "k \<noteq> KAccelerator" "accounting_inv (snd (on_tier k f a))" "\<And>b. bu_capacity (snd (f b)) = bu_capacity b"
  shows "budgets_for cfg (snd (on_tier k f a))"
  using assms(1-3) assms(4) [of "budget_of k a"]
  by (cases "f (budget_of k a)"; cases k) (simp_all add: budgets_for_def on_tier_def)

lemma on_accounting_frame:
  "on_accounting f c = (r, c') \<Longrightarrow> c' = c\<lparr>tc_accounting := snd (f (tc_accounting c))\<rparr> \<and> r = fst (f (tc_accounting c))"
  by (auto simp: on_accounting_def split: prod.splits)

lemma on_accounting_ok:
  assumes "budgets_ok c" "k \<noteq> KAccelerator"
  shows "n \<le> acct_free k (tc_accounting c) \<Longrightarrow> budgets_ok (snd (on_accounting (acct_reserve k n) c))"
    "budgets_ok (snd (on_accounting (commit_reserve k n) c))"
    "budgets_ok (snd (on_accounting (sub_bytes k n) c))"
proof -
  note inv = budgets_ok_inv [OF assms(1)]
  have frame: "budgets_ok (snd (on_accounting f c)) \<longleftrightarrow> budgets_for (tc_config c) (snd (f (tc_accounting c)))" for f
    by (cases "f (tc_accounting c)") (simp add: budgets_ok_def on_accounting_def)
  note step = budgets_for_step [OF assms(1) [unfolded budgets_ok_def] assms(2)]
  show "budgets_ok (snd (on_accounting (acct_reserve k n) c))" if "n \<le> acct_free k (tc_accounting c)"
    unfolding frame using acct_reserve_inv [OF inv that] by (simp add: acct_reserve_def step budget_op_capacity)
  show "budgets_ok (snd (on_accounting (commit_reserve k n) c))"
    unfolding frame using commit_reserve_inv [OF inv, of k n] by (simp add: commit_reserve_def step budget_op_capacity)
  show "budgets_ok (snd (on_accounting (sub_bytes k n) c))"
    unfolding frame using sub_bytes_inv [OF inv, of k n] by (simp add: sub_bytes_def step budget_op_capacity)
qed

lemma budgets_then:
  "budgets_ok (snd (m c)) \<Longrightarrow> (\<And>x u. budgets_ok u \<Longrightarrow> budgets_ok (snd (f x u))) \<Longrightarrow> budgets_ok (snd (st_then m f c))"
  by (rule st_then_preserves)

lemma acquire_blocks_frame: "acquire_blocks bytes bs c = (r, c') \<Longrightarrow> \<exists>a. c' = c\<lparr>tc_host := a\<rparr>"
proof (induction bs arbitrary: c r c')
  case Nil
  then show ?case by (auto intro!: exI [of _ "tc_host c"])
next
  case (Cons b bs)
  then show ?case
    by (fastforce simp: st_then_def Let_def intro: exI [of _ "tc_host c"] split: prod.splits sum.splits)
qed

lemma acquire_host_budgets:
  assumes c: "budgets_ok c" and fit: "n \<le> host_free c"
  shows "budgets_ok (snd (acquire_host n bytes blocks c))"
proof -
  have ab: "budgets_ok (snd (acquire_blocks bytes blocks u))" if "budgets_ok u" for u :: "'a cache"
    using that acquire_blocks_frame [of bytes blocks u] by (cases "acquire_blocks bytes blocks u") (auto simp: budgets_ok_def)
  show ?thesis
    unfolding acquire_host_def by (intro budgets_then) (use fit in \<open>simp_all add: c ab on_accounting_ok host_free_def\<close>)
qed

lemma push_placement_frame [simp]:
  "tc_host (push_placement oid p c) = tc_host c" "tc_accounting (push_placement oid p c) = tc_accounting c"
  "tc_config (push_placement oid p c) = tc_config c"
  by (simp_all add: push_placement_def)

lemma put_blocks_frame:
  "put_blocks bytes bs c = (r, c') \<Longrightarrow>
     tc_accounting c' = tc_accounting c \<and> tc_host c' = tc_host c \<and> tc_entries c' = tc_entries c \<and> tc_config c' = tc_config c"
proof (induction bs arbitrary: c)
  case (Cons b bs)
  show ?case
  proof (cases "tc_persistent_refs c (br_content_hash b)")
    case (Some x)
    then show ?thesis using Cons.IH Cons.prems by fastforce
  next
    case None
    then show ?thesis
      using Cons.prems by (auto split: sum.splits option.splits prod.splits dest!: Cons.IH)
  qed
qed simp

lemma on_store_frame: "on_store f c = (r, c') \<Longrightarrow> \<exists>s. c' = c\<lparr>tc_persistent := s\<rparr>"
  by (auto simp: on_store_def split: option.splits prod.splits intro: exI [of _ "tc_persistent c"])

lemma release_blocks_budgets: "budgets_ok c \<Longrightarrow> budgets_ok (snd (release_blocks bs c))"
proof (induction bs arbitrary: c)
  case (Cons b bs)
  obtain freed a where r: "release (br_content_hash b) (tc_host c) = (freed, a)" by fastforce
  let ?c = "c\<lparr>tc_host := a\<rparr>"
  have c: "budgets_ok ?c" using Cons.prems by (simp add: budgets_ok_def)
  have "budgets_ok (snd (st_then (on_accounting (sub_bytes KHost (br_len b))) (\<lambda>_. release_blocks bs) ?c))"
    by (rule st_then_preserves) (use c on_accounting_ok(3) Cons.IH in auto)
  then show ?case using r c Cons.IH by (simp add: Let_def)
qed simp

lemma add_accelerator_frame:
  "add_accelerator ops oid i bytes c = (r, c') \<Longrightarrow>
     tc_accounting c' = tc_accounting c \<and> tc_host c' = tc_host c \<and> tc_config c' = tc_config c"
  by (auto simp: add_accelerator_def Let_def split: sum.splits prod.splits)

lemma count_blocks_frame [simp]:
  "tc_accounting (count_blocks bs c) = tc_accounting c" "tc_host (count_blocks bs c) = tc_host c"
  "tc_entries (count_blocks bs c) = tc_entries c" "tc_config (count_blocks bs c) = tc_config c"
  by (induction bs arbitrary: c) (auto split: option.splits)

lemma insert_entry_frame [simp]:
  "tc_accounting (insert_entry oid e c) = tc_accounting c" "tc_host (insert_entry oid e c) = tc_host c"
  "tc_config (insert_entry oid e c) = tc_config c"
  by (simp_all add: insert_entry_def)

lemma add_host_budgets: "budgets_ok c \<Longrightarrow> budgets_ok (snd (add_host oid bytes byte_len c))"
proof -
  assume c: "budgets_ok c"
  have "budgets_ok (snd (st_then (acquire_host n bytes blocks) (\<lambda>acquired c. (Inr (), push_placement oid (PHost acquired) c)) c))"
    if "n \<le> host_free c" for n blocks
    by (rule st_then_preserves) (use c acquire_host_budgets [OF c that] in \<open>auto simp: budgets_ok_def\<close>)
  with c show ?thesis
    unfolding add_host_def Let_def by (auto intro!: st_then_preserves [where P = budgets_ok])
qed

text \<open>Writing to the persistent tier keeps what its four kinds of step keep.\<close>

lemma add_persistent_keeps:
  fixes c :: "'b cache"
  assumes c: "P c"
    and reserve: "\<And>n (u :: 'b cache). P u \<Longrightarrow> n \<le> acct_free KPersistent (tc_accounting u) \<Longrightarrow>
        P (snd (on_accounting (acct_reserve KPersistent n) u))"
    and commit: "\<And>n (u :: 'b cache). P u \<Longrightarrow> P (snd (on_accounting (commit_reserve KPersistent n) u))"
    and files: "\<And>(u :: 'b cache) u'. P u \<Longrightarrow> tc_entries u' = tc_entries u \<Longrightarrow> tc_host u' = tc_host u \<Longrightarrow>
        tc_accounting u' = tc_accounting u \<Longrightarrow> tc_config u' = tc_config u \<Longrightarrow> P u'"
    and push: "\<And>u :: 'b cache. P u \<Longrightarrow> P (push_placement oid PPersistent u)"
  shows "P (snd (add_persistent oid bytes e c))"
proof -
  have put: "P (snd (put_blocks bytes blocks u))" if "P u" for blocks u
  proof (cases "put_blocks bytes blocks u")
    case (Pair r u')
    with files [OF that] put_blocks_frame [OF Pair] show ?thesis by simp
  qed
  have sto: "P (snd (on_store f u))" if "P u" for f :: "store \<Rightarrow> unit result \<times> store" and u
  proof (cases "on_store f u")
    case (Pair r u')
    with on_store_frame [OF Pair] files [OF that, of u'] show ?thesis by auto
  qed
  have tail: "P (snd (st_then (on_accounting (acct_reserve KPersistent n)) (\<lambda>_.
            st_then (put_blocks bytes blocks) (\<lambda>_.
            st_then (on_accounting (commit_reserve KPersistent n)) (\<lambda>_.
            st_then (Pair (numel (ck_shape (en_compat e)))) (\<lambda>n.
            st_then (on_store (w n)) (\<lambda>_ c. (Inr (), push_placement oid PPersistent c)))))) u))"
    if "P u" "n \<le> acct_free KPersistent (tc_accounting u)" for n blocks u and w :: "u64 \<Rightarrow> store \<Rightarrow> unit result \<times> store"
    by (intro st_then_preserves [where P = P]) (simp_all add: that put sto push reserve commit)
  show ?thesis
  proof (cases "tc_persistent c = None")
    case False
    show ?thesis
    proof (cases "chunk bytes (rc_block_size (tc_config c))")
      case (Inr blocks)
      show ?thesis
      proof (cases "validate_block_list blocks (en_byte_len e)")
        case v: (Inr u)
        show ?thesis
          unfolding add_persistent_def Let_def Inr st_then_Pair v using False c tail [OF c] by (simp add: not_less)
      qed (use False c Inr in \<open>simp add: add_persistent_def\<close>)
    qed (use False c in \<open>simp add: add_persistent_def\<close>)
  qed (use c in \<open>simp add: add_persistent_def\<close>)
qed

lemma add_persistent_budgets: "budgets_ok c \<Longrightarrow> budgets_ok (snd (add_persistent oid bytes e c))"
  by (rule add_persistent_keeps) (auto simp: on_accounting_ok, simp_all add: budgets_ok_def)

interpretation acct: cache_invariant ops "\<lambda>_. budgets_ok" for ops
proof
  fix n :: nat and c :: "'a cache" and oid t bytes assume c: "budgets_ok c"
  show "budgets_ok (snd (add_placement ops oid t bytes c))"
    using c add_accelerator_frame [of ops oid _ bytes c]
    by (auto simp: add_placement_def add_host_budgets add_persistent_budgets split: sum.splits tier.splits)
       (metis add_accelerator_frame budgets_ok_def prod.collapse)
  show "budgets_ok (snd (remove_placement ops oid t c))"
  proof (cases "remove_placement ops oid t c")
    case (Pair r c')
    then show ?thesis
    proof (cases rule: remove_placement_cases)
      case (freed e i)
      have "budgets_ok (drop_placement oid i c)" using c by (simp add: budgets_ok_def)
      then have "budgets_ok c'"
      proof (cases "en_placements e ! i")
        case (PHost refs)
        then show ?thesis
          using freed(4) release_blocks_budgets [OF \<open>budgets_ok (drop_placement oid i c)\<close>, of refs] by simp
      qed (use freed(4) c in \<open>auto simp: Let_def budgets_ok_def split: sum.splits prod.splits\<close>)
      then show ?thesis by (simp add: Pair)
    qed (use c Pair in auto)
  qed
next
  fix n :: nat and c c' :: "'a cache" and oid new_host payload r address k num byte_len and blocks :: "block_ref list"
  assume "budgets_ok c" "new_host \<le> host_free c" "acquire_host new_host payload blocks c = (r, c')"
  then show "budgets_ok c' \<and> (\<forall>acquired e t. r = Inr acquired \<longrightarrow> fresh_entry address k num blocks byte_len acquired e \<longrightarrow>
      budgets_ok (insert_entry oid e (c'\<lparr>tc_ticks := t\<rparr>)))"
    using acquire_host_budgets [of c new_host payload blocks] by (simp add: budgets_ok_def)
qed (auto simp: budgets_ok_def recover_meta_def Let_def split: sum.splits)

section \<open>Host block references\<close>

text \<open>The blocks that the placements of the cache refer to, with multiplicity.\<close>

fun placement_refs :: "placement \<Rightarrow> digest list" where
  "placement_refs (PHost refs) = map br_content_hash refs"
| "placement_refs _ = []"

definition host_refs :: "entry \<Rightarrow> digest multiset" where
  "host_refs e = mset (concat (map placement_refs (en_placements e)))"

text \<open>The references that the entries of a map hold together, for one kind of reference.\<close>

definition refs_by :: "(entry \<Rightarrow> digest multiset) \<Rightarrow> (string \<rightharpoonup> entry) \<Rightarrow> digest multiset" where
  "refs_by f m = (\<Sum>k \<in> dom m. f (the (m k)))"

abbreviation all_refs :: "(string \<rightharpoonup> entry) \<Rightarrow> digest multiset" where
  "all_refs \<equiv> refs_by host_refs"

text \<open>Every referenced block is in the arena, at least as often as it is referenced.\<close>

definition refs_ok :: "nat \<Rightarrow> 'b cache \<Rightarrow> bool" where
  "refs_ok n c \<longleftrightarrow> finite (dom (tc_entries c)) \<and> arena_inv (tc_host c) \<and> size (arena_abs (tc_host c)) \<le> n \<and>
     all_refs (tc_entries c) \<subseteq># arena_abs (tc_host c)"

lemma refs_by_None: "finite (dom m) \<Longrightarrow> m k = None \<Longrightarrow> refs_by f (m(k \<mapsto> e)) = f e + refs_by f m"
proof -
  assume *: "finite (dom m)" "m k = None"
  then have k: "k \<notin> dom m" by auto
  have "refs_by f (m(k \<mapsto> e)) = f e + (\<Sum>j \<in> dom m. f (the ((m(k \<mapsto> e)) j)))"
    using * k by (simp add: refs_by_def)
  also have "(\<Sum>j \<in> dom m. f (the ((m(k \<mapsto> e)) j))) = refs_by f m"
    unfolding refs_by_def by (rule sum.cong) (use k in auto)
  finally show ?thesis .
qed

lemma refs_by_remove: "finite (dom m) \<Longrightarrow> m k = Some e \<Longrightarrow> refs_by f m = f e + refs_by f (m(k := None))"
  using refs_by_None [of "m(k := None)" k f e] by (simp add: map_upd_triv)

lemma refs_by_update:
  "finite (dom m) \<Longrightarrow> m k = Some e \<Longrightarrow> refs_by f (m(k \<mapsto> e')) + f e = refs_by f m + f e'"
  using refs_by_remove [of m k e f] refs_by_None [of "m(k := None)" k f e'] by simp

lemma refs_by_delete: "finite (dom m) \<Longrightarrow> refs_by f (m(k := None)) \<subseteq># refs_by f m"
proof (cases "m k")
  case None
  then show ?thesis by (simp add: fun_upd_idem)
next
  case (Some e)
  assume "finite (dom m)"
  with Some show ?thesis by (simp add: refs_by_remove)
qed

lemma refs_by_mono:
  assumes "finite (dom m)" "finite (dom m')"
    "\<And>k e'. m' k = Some e' \<Longrightarrow> f e' = {#} \<or> (\<exists>e. m k = Some e \<and> f e' \<subseteq># f e)"
  shows "refs_by f m' \<subseteq># refs_by f m"
proof (rule mset_subset_eqI)
  fix h
  let ?D = "{k \<in> dom m'. f (the (m' k)) \<noteq> {#}}"
  have sub: "?D \<subseteq> dom m" using assms(3) by fastforce
  have "count (refs_by f m') h = (\<Sum>k \<in> dom m'. count (f (the (m' k))) h)" by (simp add: refs_by_def count_sum)
  also have "\<dots> = (\<Sum>k \<in> ?D. count (f (the (m' k))) h)"
    by (rule sum.mono_neutral_right) (use assms(2) in auto)
  also have "\<dots> \<le> (\<Sum>k \<in> ?D. count (f (the (m k))) h)"
  proof (rule sum_mono)
    fix k assume "k \<in> ?D"
    then obtain e' where e': "m' k = Some e'" "f e' \<noteq> {#}" by auto
    with assms(3) [OF e'(1)] show "count (f (the (m' k))) h \<le> count (f (the (m k))) h" by (auto intro: mset_subset_eq_count)
  qed
  also have "\<dots> \<le> (\<Sum>k \<in> dom m. count (f (the (m k))) h)"
    by (rule sum_mono2) (use assms(1) sub in auto)
  finally show "count (refs_by f m') h \<le> count (refs_by f m) h" by (simp add: refs_by_def count_sum)
qed

text \<open>Acquiring: the arena gains exactly the references that are handed out.\<close>

lemma acquire_at_abs:
  assumes "arena_inv a" "size (arena_abs a) < LIMIT" "acquire_at data off a = (r, a')"
  shows "\<exists>ref. r = Inr ref \<and> br_content_hash ref = hash data \<and> arena_inv a' \<and> arena_abs a' = add_mset (hash data) (arena_abs a)"
proof -
  obtain r1 a1 where q: "acquire data a = (r1, a1)" by fastforce
  have "count (arena_abs a) (hash data) < 2 ^ 64 - 1"
    using assms(2) count_le_size [of "arena_abs a" "hash data"] by (simp add: LIMIT_def)
  then have "arena_inv a1" "arena_abs a1 = add_mset (hash data) (arena_abs a)"
    using arena.acq_inv [OF assms(1), of data] arena.acq_abs [OF assms(1), of data] q by (simp_all add: arena_acq_def)
  moreover have "r1 = Inr \<lparr>br_content_hash = hash data, br_offset = 0, br_len = of_nat (length data), br_crc = crc32c data\<rparr>"
    by (rule acquire_ok(1) [OF assms(1) q])
  ultimately show ?thesis
    using assms(3) q by (auto simp: acquire_at_def)
qed

lemma acquire_blocks_abs:
  assumes "arena_inv (tc_host c)" "size (arena_abs (tc_host c)) + length bs \<le> LIMIT"
    "acquire_blocks bytes bs c = (r, c')"
  shows "arena_inv (tc_host c') \<and> arena_abs (tc_host c) \<subseteq># arena_abs (tc_host c') \<and>
    size (arena_abs (tc_host c')) \<le> size (arena_abs (tc_host c)) + length bs \<and>
    (\<forall>refs. r = Inr refs \<longrightarrow> arena_abs (tc_host c') = arena_abs (tc_host c) + mset (map br_content_hash refs))"
  using assms
proof (induction bs arbitrary: c r c')
  case (Cons b bs)
  show ?case
  proof (cases "slice bytes (unat (br_offset b)) (unat (br_offset b + br_len b))")
    case (Inl e)
    then show ?thesis using Cons.prems by auto
  next
    case (Inr data)
    obtain r1 a1 where q: "acquire_at data (br_offset b) (tc_host c) = (r1, a1)" by fastforce
    from acquire_at_abs [OF Cons.prems(1) _ q] Cons.prems(2) obtain ref where ref: "r1 = Inr ref"
      "br_content_hash ref = hash data" "arena_inv a1" "arena_abs a1 = add_mset (hash data) (arena_abs (tc_host c))" by auto
    obtain r2 c2 where rest: "acquire_blocks bytes bs (c\<lparr>tc_host := a1\<rparr>) = (r2, c2)" by fastforce
    have "r = (case r2 of Inl e \<Rightarrow> Inl e | Inr refs \<Rightarrow> Inr (ref # refs))" "c' = c2"
      using Cons.prems(3) Inr q ref(1) rest by (auto simp: st_then_def split: sum.splits)
    moreover have "arena_inv (tc_host c2) \<and> arena_abs a1 \<subseteq># arena_abs (tc_host c2) \<and>
        size (arena_abs (tc_host c2)) \<le> size (arena_abs a1) + length bs \<and>
        (\<forall>refs. r2 = Inr refs \<longrightarrow> arena_abs (tc_host c2) = arena_abs a1 + mset (map br_content_hash refs))"
      using Cons.IH [OF _ _ rest] ref(3,4) Cons.prems(2) by simp
    moreover have "arena_abs (tc_host c) \<subseteq># arena_abs (tc_host c2)"
      by (rule subset_mset.order_trans [of _ "arena_abs a1"]) (use calculation(3) in \<open>simp_all add: ref(4)\<close>)
    ultimately show ?thesis
      using ref(2,4) by (auto split: sum.splits)
  qed
qed auto

text \<open>Releasing gives back at most the references listed, also when it stops half way.\<close>

lemma release_blocks_abs:
  assumes "arena_inv (tc_host c)" "release_blocks bs c = (r, c')"
  shows "arena_inv (tc_host c') \<and> arena_abs (tc_host c) - mset (map br_content_hash bs) \<subseteq># arena_abs (tc_host c') \<and>
    size (arena_abs (tc_host c')) \<le> size (arena_abs (tc_host c)) \<and>
    (r = Inr () \<longrightarrow> arena_abs (tc_host c') = arena_abs (tc_host c) - mset (map br_content_hash bs))"
  using assms
proof (induction bs arbitrary: c r c')
  case (Cons b bs)
  let ?h = "br_content_hash b"
  obtain freed a where q: "release ?h (tc_host c) = (freed, a)" by fastforce
  have a: "arena_inv a" "arena_abs a = arena_abs (tc_host c) - {#?h#}"
    using arena.rel_inv [OF Cons.prems(1), of ?h] arena.rel_abs [OF Cons.prems(1), of ?h] q by (simp_all add: arena_rel_def)
  have size: "size (arena_abs a) \<le> size (arena_abs (tc_host c))" by (simp add: a(2) size_mset_mono)
  have diff: "arena_abs (tc_host c) - mset (map br_content_hash (b # bs)) = arena_abs a - mset (map br_content_hash bs)"
    by (simp add: a(2))
  have rest: "arena_inv (tc_host u') \<and> arena_abs a - mset (map br_content_hash bs) \<subseteq># arena_abs (tc_host u') \<and>
      size (arena_abs (tc_host u')) \<le> size (arena_abs a) \<and>
      (s = Inr () \<longrightarrow> arena_abs (tc_host u') = arena_abs a - mset (map br_content_hash bs))"
    if "release_blocks bs u = (s, u')" "tc_host u = a" for s and u u' :: "'a cache"
    using Cons.IH [OF _ that(1)] a(1) that(2) by simp
  show ?case
  proof (cases freed)
    case False
    then have "release_blocks bs (c\<lparr>tc_host := a\<rparr>) = (r, c')" using Cons.prems(2) q by (simp add: Let_def)
    from rest [OF this] size diff show ?thesis by auto
  next
    case True
    obtain s u where m: "on_accounting (sub_bytes KHost (br_len b)) (c\<lparr>tc_host := a\<rparr>) = (s, u)" by fastforce
    have hu: "tc_host u = a" using on_accounting_frame [OF m] by simp
    show ?thesis
    proof (cases s)
      case (Inl e)
      then have "r = Inl e" "c' = u" using Cons.prems(2) q True m by (simp_all add: st_then_def)
      then show ?thesis using a(1) hu size diff by simp
    next
      case (Inr x)
      then have "release_blocks bs u = (r, c')" using Cons.prems(2) q True m by (simp add: st_then_def)
      from rest [OF this hu] size diff show ?thesis by auto
    qed
  qed
qed simp

lemma host_refs_push: "host_refs (e\<lparr>en_placements := en_placements e @ [p]\<rparr>) = host_refs e + mset (placement_refs p)"
  by (simp add: host_refs_def)

lemma host_refs_remove_at:
  "i < length (en_placements e) \<Longrightarrow>
     host_refs e = host_refs (e\<lparr>en_placements := remove_at i (en_placements e)\<rparr>) + mset (placement_refs (en_placements e ! i))"
proof -
  assume "i < length (en_placements e)"
  then have "en_placements e = take i (en_placements e) @ en_placements e ! i # drop (Suc i) (en_placements e)"
    by (rule id_take_nth_drop)
  then have "concat (map placement_refs (en_placements e)) =
      concat (map placement_refs (take i (en_placements e))) @ placement_refs (en_placements e ! i) @
      concat (map placement_refs (drop (Suc i) (en_placements e)))"
    by (metis concat.simps(2) concat_append list.simps(9) map_append)
  then show ?thesis by (simp add: host_refs_def remove_at_def)
qed

lemma all_refs_upd_entry:
  assumes "finite (dom (tc_entries c))" "tc_entries c (oid_to_hex oid) = Some e"
  shows "all_refs (tc_entries (upd_entry oid f c)) + host_refs e = all_refs (tc_entries c) + host_refs (f e)"
  using refs_by_update [OF assms, of host_refs] assms(2) by (simp add: upd_entry_def)

lemma acquire_host_refs:
  assumes c: "refs_ok n c" and len: "length blocks \<le> BMAX" and le: "n + BMAX \<le> LIMIT"
    and run: "acquire_host new_host bytes blocks c = (r, c')"
  shows "refs_ok (n + BMAX) c' \<and> tc_entries c' = tc_entries c \<and>
    (\<forall>acq. r = Inr acq \<longrightarrow> all_refs (tc_entries c) + mset (map br_content_hash acq) \<subseteq># arena_abs (tc_host c'))"
proof -
  obtain r1 c1 where res: "on_accounting (acct_reserve KHost new_host) c = (r1, c1)" by fastforce
  have c1: "tc_host c1 = tc_host c" "tc_entries c1 = tc_entries c" using on_accounting_frame [OF res] by simp_all
  show ?thesis
  proof (cases r1)
    case (Inl e)
    then show ?thesis using run c c1 by (auto simp: acquire_host_def st_then_def res refs_ok_def)
  next
    case (Inr x)
    obtain r2 c2 where acq: "acquire_blocks bytes blocks c1 = (r2, c2)" by fastforce
    obtain r3 c3 where com: "on_accounting (commit_reserve KHost new_host) c2 = (r3, c3)" by fastforce
    have c2: "tc_entries c2 = tc_entries c" using acquire_blocks_frame [OF acq] c1 by auto
    have c3: "tc_host c3 = tc_host c2" "tc_entries c3 = tc_entries c2" using on_accounting_frame [OF com] by simp_all
    have c': "tc_host c' = tc_host c2" "tc_entries c' = tc_entries c" and r: "\<And>a. r = Inr a \<Longrightarrow> r2 = Inr a"
      using run res Inr acq com c2 c3 by (auto simp: acquire_host_def st_then_def split: sum.splits)
    note abs = acquire_blocks_abs [OF _ _ acq, unfolded c1]
    have "arena_inv (tc_host c2)" "arena_abs (tc_host c) \<subseteq># arena_abs (tc_host c2)"
      "size (arena_abs (tc_host c2)) \<le> n + BMAX"
      "\<forall>refs. r2 = Inr refs \<longrightarrow> arena_abs (tc_host c2) = arena_abs (tc_host c) + mset (map br_content_hash refs)"
      using abs c len le by (auto simp: refs_ok_def)
    with c c' r show ?thesis
      by (auto simp: refs_ok_def intro: subset_mset.order_trans subset_mset.add_right_mono)
  qed
qed

lemma refs_ok_upd_entry:
  assumes c: "refs_ok n c" and f: "\<And>e. tc_entries c (oid_to_hex oid) = Some e \<Longrightarrow> host_refs (f e) \<subseteq># host_refs e"
  shows "refs_ok n (upd_entry oid f c)"
proof (cases "tc_entries c (oid_to_hex oid)")
  case None
  then show ?thesis using c by (simp add: upd_entry_def)
next
  case (Some e)
  have "all_refs (tc_entries (upd_entry oid f c)) + host_refs e \<subseteq># all_refs (tc_entries c) + host_refs e"
    using all_refs_upd_entry [of c oid e f] c Some f [OF Some] by (simp add: refs_ok_def)
  then show ?thesis using c by (auto simp: refs_ok_def intro: subset_mset.order_trans)
qed

lemma refs_ok_push:
  assumes c: "refs_ok n c" and room: "all_refs (tc_entries c) + mset (placement_refs p) \<subseteq># arena_abs (tc_host c)"
  shows "refs_ok n (push_placement oid p c)"
proof (cases "tc_entries c (oid_to_hex oid)")
  case None
  then show ?thesis using c by (simp add: push_placement_def upd_entry_def)
next
  case (Some e)
  have "all_refs (tc_entries (push_placement oid p c)) = all_refs (tc_entries c) + mset (placement_refs p)"
    using all_refs_upd_entry [of c oid e "\<lambda>e. e\<lparr>en_placements := en_placements e @ [p]\<rparr>"] c Some
    by (simp add: refs_ok_def push_placement_def host_refs_push)
  then show ?thesis using c room by (simp add: refs_ok_def) (simp add: push_placement_def)
qed

lemma refs_ok_cong:
  "refs_ok n c \<Longrightarrow> tc_entries c' = tc_entries c \<Longrightarrow> tc_host c' = tc_host c \<Longrightarrow> refs_ok n c'"
  by (simp add: refs_ok_def)

lemma refs_ok_mono: "refs_ok n c \<Longrightarrow> n \<le> m \<Longrightarrow> refs_ok m c"
  by (simp add: refs_ok_def)

text \<open>Each kind of placement.\<close>

lemma add_host_refs:
  assumes c: "refs_ok n c" and le: "n + BMAX \<le> LIMIT"
  shows "refs_ok (n + BMAX) (snd (add_host oid bytes byte_len c))"
proof -
  have c': "refs_ok (n + BMAX) c" using c by (rule refs_ok_mono) simp
  have acq: "refs_ok (n + BMAX) (snd (st_then (acquire_host k bytes blocks)
      (\<lambda>acquired c. (Inr (), push_placement oid (PHost acquired) c)) c))" if "length blocks \<le> BMAX" for k blocks
  proof (cases "acquire_host k bytes blocks c")
    case (Pair r u)
    then show ?thesis
      using acquire_host_refs [OF c that le Pair] by (auto simp: st_then_def intro: refs_ok_push split: sum.splits)
  qed
  show ?thesis
  proof (cases "chunk bytes (rc_block_size (tc_config c))")
    case (Inr blocks)
    have "length blocks \<le> BMAX" using chunk_length [OF Inr] by (simp add: BMAX_eq)
    then show ?thesis
      using c' acq [of blocks] by (cases "validate_block_list blocks byte_len") (simp_all add: add_host_def Inr Let_def)
  qed (simp add: add_host_def c')
qed

lemma add_accelerator_refs:
  assumes "refs_ok n c" shows "refs_ok n (snd (add_accelerator ops oid i bytes c))"
proof -
  have "refs_ok n (push_placement oid (PAccelerator d) (u\<lparr>tc_accel_used := k\<rparr>))" if "refs_ok n u" for d u k
    by (rule refs_ok_push) (use that in \<open>auto simp: refs_ok_def\<close>)
  moreover have "refs_ok n (put_backend ops i b c)" for b by (rule refs_ok_cong [OF assms]) simp_all
  ultimately show ?thesis
    using assms by (auto simp: add_accelerator_def Let_def split: sum.splits prod.splits)
qed

lemma add_persistent_refs: "refs_ok n c \<Longrightarrow> refs_ok n (snd (add_persistent oid bytes e c))"
proof (rule add_persistent_keeps)
  fix k and u :: "'a cache" assume "refs_ok n u"
  then show "refs_ok n (snd (on_accounting (acct_reserve KPersistent k) u))"
    "refs_ok n (snd (on_accounting (commit_reserve KPersistent k) u))"
    by (auto simp: on_accounting_def intro: refs_ok_cong split: prod.splits)
next
  fix u :: "'a cache" assume "refs_ok n u"
  then show "refs_ok n (push_placement oid PPersistent u)" by (intro refs_ok_push) (simp_all add: refs_ok_def)
qed (auto intro: refs_ok_cong)

lemma multiset_le_diff: "A + B = C \<Longrightarrow> C \<subseteq># D \<Longrightarrow> A \<subseteq># D - B"
proof (rule mset_subset_eqI)
  fix a assume *: "A + B = C" "C \<subseteq># D"
  then have "count A a + count B a \<le> count D a" by (metis count_union mset_subset_eq_count)
  then show "count A a \<le> count (D - B) a" by simp
qed

lemma remove_placement_refs: "refs_ok n c \<Longrightarrow> refs_ok n (snd (remove_placement ops oid t c))"
proof (cases "remove_placement ops oid t c")
  case (Pair r c')
  assume c: "refs_ok n c"
  from Pair have "refs_ok n c'"
  proof (cases rule: remove_placement_cases)
    case (freed e i)
    let ?d = "drop_placement oid i c" and ?p = "en_placements e ! i"
    have fin: "finite (dom (tc_entries c))" using c by (simp add: refs_ok_def)
    have less: "all_refs (tc_entries ?d) + mset (placement_refs ?p) = all_refs (tc_entries c)"
      using all_refs_upd_entry [OF fin freed(1), of "\<lambda>e. e\<lparr>en_placements := remove_at i (en_placements e)\<rparr>"]
        host_refs_remove_at [OF freed(2)] by (simp add: ac_simps)
    have "all_refs (tc_entries ?d) \<subseteq># all_refs (tc_entries c)" by (simp flip: less)
    then have "all_refs (tc_entries ?d) \<subseteq># arena_abs (tc_host c)"
      using c unfolding refs_ok_def by (blast intro: subset_mset.order_trans)
    then have d: "refs_ok n ?d" using c by (simp add: refs_ok_def)
    show ?thesis
    proof (cases ?p)
      case (PHost refs)
      have rel: "release_blocks refs ?d = (r, c')" using freed(4) PHost by simp
      have "all_refs (tc_entries ?d) \<subseteq># arena_abs (tc_host c) - mset (map br_content_hash refs)"
        using multiset_le_diff [OF less] c PHost by (simp add: refs_ok_def)
      then show ?thesis
        using release_blocks_abs [OF _ rel] release_blocks_entries [OF rel] d
        by (auto simp: refs_ok_def intro: subset_mset.order_trans)
    qed (use freed(4) d in \<open>auto simp: Let_def intro: refs_ok_cong split: sum.splits prod.splits\<close>)
  qed (use c in simp)
  then show ?thesis by (simp add: Pair)
qed

lemma refs_ok_insert:
  assumes c: "refs_ok n c" and room: "all_refs (tc_entries c) + host_refs e \<subseteq># arena_abs (tc_host c)"
  shows "refs_ok n (insert_entry oid e c)"
proof -
  let ?k = "oid_to_hex oid" and ?m = "tc_entries c"
  have fin: "finite (dom ?m)" using c by (simp add: refs_ok_def)
  have "all_refs (?m(?k \<mapsto> e)) = host_refs e + all_refs (?m(?k := None))"
    using refs_by_None [of "?m(?k := None)" ?k host_refs e] fin by simp
  also have "\<dots> \<subseteq># host_refs e + all_refs ?m" using refs_by_delete [OF fin] by simp
  finally show ?thesis
    using c room by (auto simp: refs_ok_def insert_entry_def add.commute intro: subset_mset.order_trans)
qed

interpretation refs: cache_invariant ops refs_ok for ops
proof
  fix n :: nat and c :: "'a cache" and oid t bytes assume c: "refs_ok n c" and le: "n + BMAX \<le> LIMIT"
  have "refs_ok (n + BMAX) c" using c by (rule refs_ok_mono) simp
  then show "refs_ok (n + BMAX) (snd (add_placement ops oid t bytes c))"
    using add_host_refs [OF c le] add_accelerator_refs add_persistent_refs
    by (auto simp: add_placement_def split: sum.splits tier.splits)
next
  fix n :: nat and c :: "'a cache" and f :: "entry \<Rightarrow> entry" and oid assume c: "refs_ok n c" "\<And>e. entry_core (f e) = entry_core e"
  show "refs_ok n (upd_entry oid f c)"
    by (rule refs_ok_upd_entry) (use c in \<open>simp_all add: host_refs_def entry_core_placements [OF c(2)]\<close>)
next
  fix n :: nat and c c' :: "'a cache" and oid r new_host payload address k num byte_len and blocks :: "block_ref list"
  assume *: "refs_ok n c" "n + BMAX \<le> LIMIT" "length blocks \<le> BMAX" "acquire_host new_host payload blocks c = (r, c')"
  note acquire_host_refs [OF *(1,3,2,4)]
  then show "refs_ok (n + BMAX) c' \<and> (\<forall>acquired e t. r = Inr acquired \<longrightarrow> fresh_entry address k num blocks byte_len acquired e \<longrightarrow>
      refs_ok (n + BMAX) (insert_entry oid e (c'\<lparr>tc_ticks := t\<rparr>)))"
    by (auto intro!: refs_ok_insert simp: host_refs_def fresh_entry_def) (auto simp: refs_ok_def)
next
  fix n :: nat and c :: "'a cache" and key cnt assume "refs_ok n c"
  then show "refs_ok n (c\<lparr>tc_entries := (tc_entries c)(key := None), tc_object_count := cnt\<rparr>)"
    using refs_by_delete [of "tc_entries c" host_refs key] by (auto simp: refs_ok_def intro: subset_mset.order_trans)
next
  fix n :: nat and c :: "'a cache" and meta rep assume c: "refs_ok n c"
  have "refs_ok n (insert_entry oid e (count_blocks bs c\<lparr>tc_ticks := k\<rparr>))" if "en_placements e = [PPersistent]" for oid e bs k
    by (rule refs_ok_insert) (use c that in \<open>auto simp: refs_ok_def host_refs_def\<close>)
  then show "refs_ok n (snd (recover_meta meta (rep, c)))"
    using c by (auto simp: recover_meta_def Let_def split: sum.splits)
qed (auto simp: remove_placement_refs intro: refs_ok_mono refs_ok_cong)

end
