(* ===== verification/Cache_Correct.thy ===== *)
theory Cache_Correct
  imports Cache_Safety
begin

text \<open>
  What the methods of the runtime return: lookups respect the compatibility gate, a registered or
  persisted payload is returned unchanged, demotion never loses an object, and eviction never touches
  durable objects.
\<close>

section \<open>Descriptions of objects\<close>

text \<open>Everything about an entry that is fixed when it is created.\<close>

definition entry_meta :: "entry \<Rightarrow> address \<times> compat_key \<times> digest \<times> u64 \<times> u64 \<times> block_ref list" where
  "entry_meta e = (en_address e, en_compat e, en_compat_id e, en_byte_len e, en_numel e, en_blocks e)"

definition metas :: "'b cache \<Rightarrow> string \<rightharpoonup> address \<times> compat_key \<times> digest \<times> u64 \<times> u64 \<times> block_ref list" where
  "metas c = map_option entry_meta \<circ> tc_entries c"

lemma metas_cong: "tc_entries c' = tc_entries c \<Longrightarrow> metas c' = metas c"
  by (simp add: metas_def)

lemma upd_entry_metas: "(\<And>e. entry_meta (f e) = entry_meta e) \<Longrightarrow> metas (upd_entry oid f c) = metas c"
  by (auto simp: metas_def upd_entry_def fun_eq_iff split: option.splits)

lemma push_placement_metas [simp]: "metas (push_placement oid p c) = metas c"
  unfolding push_placement_def by (rule upd_entry_metas) (simp add: entry_meta_def)

lemma on_accounting_entries [simp]: "tc_entries (snd (on_accounting f c)) = tc_entries c"
  by (simp add: on_accounting_def case_prod_beta)

lemma acquire_host_entries: "tc_entries (snd (acquire_host n bytes blocks c)) = tc_entries c"
proof -
  have ab: "tc_entries (snd (acquire_blocks bytes blocks u)) = tc_entries u" for u :: "'a cache"
    using acquire_blocks_frame [of bytes blocks u] by (cases "acquire_blocks bytes blocks u") auto
  show ?thesis
    unfolding acquire_host_def by (intro st_then_preserves [where P = "\<lambda>u. tc_entries u = tc_entries c"]) (simp_all add: ab)
qed

lemma add_placement_metas: "metas (snd (add_placement ops oid t bytes c)) = metas c"
proof -
  have host: "metas (snd (add_host oid bytes l c)) = metas c" for l
    unfolding add_host_def Let_def
    by (auto intro!: st_then_preserves [where P = "\<lambda>u. metas u = metas c"] simp: metas_cong [OF acquire_host_entries])
  have pers: "metas (snd (add_persistent oid bytes e c)) = metas c" for e
    by (rule add_persistent_keeps [where P = "\<lambda>u. metas u = metas c"])
       (auto dest!: metas_cong simp: metas_cong [OF on_accounting_entries])
  have acc: "metas (snd (add_accelerator ops oid i bytes c)) = metas c" for i
  proof -
    have "metas (put_backend ops i b c) = metas c" "metas (put_backend ops i b c\<lparr>tc_accel_used := k\<rparr>) = metas c" for b k
      by (simp_all add: metas_def)
    then show ?thesis by (auto simp: add_accelerator_def Let_def split: sum.splits prod.splits)
  qed
  show ?thesis
    by (auto simp: add_placement_def host pers acc split: sum.splits tier.splits)
qed

lemma remove_placement_metas: "metas (snd (remove_placement ops oid t c)) = metas c"
proof (cases "remove_placement ops oid t c")
  case (Pair r c')
  then show ?thesis
  proof (cases rule: remove_placement_cases)
    case (freed e i)
    have "metas c' = metas (drop_placement oid i c)"
      using free_placement_entries [OF freed(4)] by (intro metas_cong) simp
    then show ?thesis by (simp add: Pair upd_entry_metas entry_meta_def)
  qed (simp add: Pair)
qed

text \<open>Objects are stored under the rendering of an object id; the compatibility identity stored with an
  object is that of its key, and its block list is a valid partition of its payload.\<close>

definition described :: "entry \<Rightarrow> bool" where
  "described e \<longleftrightarrow> rust_key (en_compat e) \<and> en_compat_id e = compat_id (en_compat e) \<and>
     shape_byte_len (ck_shape (en_compat e)) (byte_size (ck_dtype (en_compat e))) = Inr (en_byte_len e) \<and>
     numel (ck_shape (en_compat e)) = Inr (en_numel e) \<and> validate_block_list (en_blocks e) (en_byte_len e) = Inr ()"

definition entries_ok :: "'b cache \<Rightarrow> bool" where
  "entries_ok c \<longleftrightarrow> (\<forall>key e. tc_entries c key = Some e \<longrightarrow> described e \<and> key \<in> range oid_to_hex)"

lemma metas_entry: "metas c' = metas c \<Longrightarrow> tc_entries c' key = Some e' \<Longrightarrow> \<exists>e. tc_entries c key = Some e \<and> entry_meta e' = entry_meta e"
  unfolding metas_def fun_eq_iff by (drule spec [of _ key]) (cases "tc_entries c key"; simp)

lemma entries_ok_cong: "entries_ok c \<Longrightarrow> metas c' = metas c \<Longrightarrow> entries_ok c'"
  unfolding entries_ok_def by (auto dest!: metas_entry simp: entry_meta_def described_def)

lemma entries_ok_insert: "entries_ok c \<Longrightarrow> described e \<Longrightarrow> entries_ok (insert_entry oid e c)"
  by (simp add: entries_ok_def insert_entry_def)

interpretation desc: cache_invariant ops "\<lambda>_. entries_ok" for ops
proof
  fix n :: nat and c :: "'a cache" and oid t bytes assume c: "entries_ok c"
  show "entries_ok (snd (add_placement ops oid t bytes c))" "entries_ok (snd (remove_placement ops oid t c))"
    by (rule entries_ok_cong [OF c]; simp add: add_placement_metas remove_placement_metas)+
next
  fix n :: nat and c :: "'a cache" and f :: "entry \<Rightarrow> entry" and oid
  assume c: "entries_ok c" and f: "\<And>e. entry_core (f e) = entry_core e"
  show "entries_ok (upd_entry oid f c)"
    by (rule entries_ok_cong [OF c upd_entry_metas]) (use f in \<open>simp add: entry_core_def entry_meta_def\<close>)
next
  fix n :: nat and c c' :: "'a cache" and oid r new_host payload address k num byte_len and blocks :: "block_ref list"
  assume *: "entries_ok c" "rust_key k" "validate_block_list blocks byte_len = Inr ()"
    "acquire_host new_host payload blocks c = (r, c')" "shape_byte_len (ck_shape k) (byte_size (ck_dtype k)) = Inr byte_len"
    "numel (ck_shape k) = Inr num"
  have c': "entries_ok c'"
    by (rule entries_ok_cong [OF *(1) metas_cong]) (use acquire_host_entries [of new_host payload blocks c] *(4) in simp)
  then have "entries_ok (insert_entry oid e (c'\<lparr>tc_ticks := t\<rparr>))" if "fresh_entry address k num blocks byte_len acquired e" for acquired e t
    by (intro entries_ok_insert) (use that *(2,3,5,6) in \<open>simp_all add: fresh_entry_def described_def entries_ok_def\<close>)
  with c' show "entries_ok c' \<and> (\<forall>acquired e t. r = Inr acquired \<longrightarrow> fresh_entry address k num blocks byte_len acquired e \<longrightarrow>
      entries_ok (insert_entry oid e (c'\<lparr>tc_ticks := t\<rparr>)))" by blast
next
  fix n :: nat and c :: "'a cache" and key cnt assume "entries_ok c"
  then show "entries_ok (c\<lparr>tc_entries := (tc_entries c)(key := None), tc_object_count := cnt\<rparr>)"
    by (simp add: entries_ok_def)
next
  fix n :: nat and c :: "'a cache" and m rep assume c: "entries_ok c" and m: "meta_ok m"
  have "entries_ok (insert_entry oid e (count_blocks bs c\<lparr>tc_ticks := t\<rparr>))" if "described e" for oid e bs t
    by (rule entries_ok_insert) (use c that in \<open>simp_all add: entries_ok_def\<close>)
  then show "entries_ok (snd (recover_meta m (rep, c)))"
    using c m by (auto simp: recover_meta_def Let_def described_def meta_ok_def body_ok_def valid_key_def
        split: sum.splits)
qed (simp_all add: entries_ok_def)

section \<open>The compatibility gate\<close>

text \<open>A lookup succeeds exactly for a stored object of the same compatibility identity; it changes nothing
  but the use statistics of that object.\<close>

lemma lookup_cases:
  fixes c :: "'b cache"
  assumes "oid = object_id (address_new namespace key generation)" "lookup namespace key generation k c = (r, c')"
  obtains (absent) "tc_entries c (oid_to_hex oid) = None" "r = Inl (NotFound (''object '' @ oid_to_hex oid))" "c' = c"
  | (incompatible) e m where "tc_entries c (oid_to_hex oid) = Some e" "en_compat_id e \<noteq> compat_id k"
      "r = Inl (Compatibility m)" "c' = c"
  | (hit) e res where "tc_entries c (oid_to_hex oid) = Some e" "en_compat_id e = compat_id k" "r = Inr res"
      "lr_object_id res = oid" "lr_bytes res = en_byte_len e" "lr_source_tier res = preferred_tier e"
      "c' = upd_entry oid (\<lambda>e. e\<lparr>en_reuse_count := saturating_add (en_reuse_count e) 1, en_last_use_ns := tc_clock c (tc_ticks c)\<rparr>)
              (c\<lparr>tc_ticks := tc_ticks c + 1\<rparr>)"
proof (cases "tc_entries c (oid_to_hex oid)")
  case None
  show thesis
    by (rule absent) (use assms(2) None in \<open>simp_all add: lookup_def Let_def assms(1) [symmetric]\<close>)
next
  case (Some e)
  show thesis
  proof (cases "en_compat_id e = compat_id k")
    case True
    have "\<exists>res. r = Inr res \<and> lr_object_id res = oid \<and> lr_bytes res = en_byte_len e \<and> lr_source_tier res = preferred_tier e \<and>
        c' = upd_entry oid (\<lambda>e. e\<lparr>en_reuse_count := saturating_add (en_reuse_count e) 1, en_last_use_ns := tc_clock c (tc_ticks c)\<rparr>)
              (c\<lparr>tc_ticks := tc_ticks c + 1\<rparr>)"
      using assms(2) Some True unfolding lookup_def Let_def assms(1) [symmetric] by force
    then show thesis using hit [OF Some True] by blast
  next
    case False
    have "\<exists>m. r = Inl (Compatibility m) \<and> c' = c"
      using assms(2) Some False unfolding lookup_def Let_def assms(1) [symmetric] by force
    then show thesis using incompatible [OF Some False] by blast
  qed
qed

section \<open>Capacity enforcement\<close>

text \<open>While the budgets hold, the pass that follows a registration or a restore evicts nothing.\<close>

lemma enforce_noop:
  assumes "budgets_ok c"
  obtains t where "enforce_capacity ops c = (Inr (), c\<lparr>tc_ticks := t\<rparr>)"
proof -
  obtain es c1 where ec: "evict_candidates (tc_iter c (tc_entries c)) c = (es, c1)" by fastforce
  then obtain t where t: "c1 = c\<lparr>tc_ticks := t\<rparr>" using evict_candidates_frame by blast
  have "acct_used KHost (tc_accounting c) \<le> acct_capacity KHost (tc_accounting c)"
    using budgets_ok_inv [OF assms] by (simp add: accounting_inv_def budget_inv_def acct_used_def acct_capacity_def word_le_nat_alt)
  then have "evict_loop ops (\<lambda>c'. acct_used KHost (tc_accounting c') \<le> acct_capacity KHost (tc_accounting c)) os c1 = (Inr (), c1)" for os
    by (cases os) (simp_all add: t)
  then show thesis using that [of t] ec t by (simp add: enforce_capacity_def evict_by_def Let_def)
qed

section \<open>The host arena under eviction and registration\<close>

text \<open>Eviction only takes blocks away.\<close>

definition host_le :: "'b cache \<Rightarrow> 'b cache \<Rightarrow> bool" where
  "host_le c' c \<longleftrightarrow> ar_blocks (tc_host c') \<subseteq>\<^sub>m ar_blocks (tc_host c) \<and> tc_config c' = tc_config c"

lemma host_le_refl [simp]: "host_le c c"
  by (simp add: host_le_def)

lemma host_le_trans [trans]: "host_le a b \<Longrightarrow> host_le b c \<Longrightarrow> host_le a c"
  by (auto simp: host_le_def intro: map_le_trans)

lemma release_blocks_Cons:
  assumes "release_blocks (b # bs) c = (r, c')" "release (br_content_hash b) (tc_host c) = (freed, a)"
  obtains (stop) "tc_host c' = a" "tc_config c' = tc_config c"
  | (go) u where "tc_host u = a" "tc_config u = tc_config c" "release_blocks bs u = (r, c')"
proof (cases freed)
  case True
  obtain s u where m: "on_accounting (sub_bytes KHost (br_len b)) (c\<lparr>tc_host := a\<rparr>) = (s, u)" by fastforce
  have u: "tc_host u = a" "tc_config u = tc_config c" using on_accounting_frame [OF m] by simp_all
  show thesis
    using assms True m u stop go [OF u] by (cases s) (auto simp: st_then_def Let_def)
next
  case False
  then show thesis using assms go [of "c\<lparr>tc_host := a\<rparr>"] by (simp add: Let_def)
qed

lemma release_blocks_le: "release_blocks bs c = (r, c') \<Longrightarrow> host_le c' c"
proof (induction bs arbitrary: c)
  case (Cons b bs)
  obtain freed a where rel: "release (br_content_hash b) (tc_host c) = (freed, a)" by fastforce
  have le: "ar_blocks a \<subseteq>\<^sub>m ar_blocks (tc_host c)"
    using rel by (auto simp: release_def map_le_def split: option.splits if_splits)
  have u: "host_le u c" if "tc_host u = a" "tc_config u = tc_config c" for u
    using that le by (simp add: host_le_def)
  from Cons.prems rel show ?case
  proof (cases rule: release_blocks_Cons)
    case (go v)
    then show ?thesis using host_le_trans [OF Cons.IH u] by blast
  qed (use u in blast)
qed simp

lemma remove_placement_le: "host_le (snd (remove_placement ops oid t c)) c"
proof (cases "remove_placement ops oid t c")
  case (Pair r c')
  then have "host_le c' c"
  proof (cases rule: remove_placement_cases)
    case (freed e i)
    have "host_le c' (drop_placement oid i c)"
      using freed(4) by (cases "en_placements e ! i")
        (auto simp: Let_def host_le_def dest: release_blocks_le split: sum.splits prod.splits)
    then show ?thesis by (simp add: host_le_def)
  qed simp
  then show ?thesis by (simp add: Pair)
qed

lemma remove_volatile_le: "host_le (remove_volatile ops oid ts c) c"
  by (induction ts arbitrary: c) (auto intro: host_le_trans remove_placement_le)

lemma evict_loop_le: "host_le (snd (evict_loop ops enough es c)) c"
  by (induction es arbitrary: c) (auto simp: Let_def intro: host_le_trans remove_volatile_le split: sum.splits)

lemma make_room_le: "host_le (snd (make_room ops n c)) c"
proof -
  have "host_le (snd (evict_to_free ops n c)) c"
  proof (cases "evict_candidates (tc_iter c (tc_entries c)) c")
    case (Pair es c1)
    then obtain t where "c1 = c\<lparr>tc_ticks := t\<rparr>" using evict_candidates_frame by blast
    then have "host_le c1 c" by (simp add: host_le_def)
    then show ?thesis using Pair by (auto simp: evict_to_free_def evict_by_def intro: host_le_trans evict_loop_le)
  qed
  then show ?thesis by (cases "evict_to_free ops n c") (simp add: make_room_def st_then_def split: sum.splits)
qed

text \<open>Acquiring adds nothing but slices of the payload, under their own digests.\<close>

abbreviation block_slice :: "u8 list \<Rightarrow> block_ref \<Rightarrow> u8 list result" where
  "block_slice bytes b \<equiv> slice bytes (unat (br_offset b)) (unat (br_offset b + br_len b))"

lemma acquire_ran: "ran (ar_blocks (snd (acquire data a))) \<subseteq> insert data (ran (ar_blocks a))"
  by (auto simp: acquire_def Let_def ran_def split: option.splits if_splits)

lemma acquire_blocks_ran:
  "acquire_blocks bytes bs c = (r, c') \<Longrightarrow>
     ran (ar_blocks (tc_host c')) \<subseteq> ran (ar_blocks (tc_host c)) \<union> {data. \<exists>b \<in> set bs. block_slice bytes b = Inr data}"
proof (induction bs arbitrary: c r c')
  case (Cons b bs)
  show ?case
  proof (cases "block_slice bytes b")
    case (Inr data)
    obtain r1 a1 where q: "acquire_at data (br_offset b) (tc_host c) = (r1, a1)" by fastforce
    have a1: "ran (ar_blocks a1) \<subseteq> insert data (ran (ar_blocks (tc_host c)))"
      using q acquire_ran [of data "tc_host c"] by (cases "acquire data (tc_host c)") (auto simp: acquire_at_def st_then_def split: sum.splits)
    obtain r2 c2 where rest: "acquire_blocks bytes bs (c\<lparr>tc_host := a1\<rparr>) = (r2, c2)" by fastforce
    have "c' = c\<lparr>tc_host := a1\<rparr> \<or> c' = c2"
      using Cons.prems Inr q rest by (auto simp: st_then_def Let_def split: sum.splits)
    with Cons.IH [OF rest] a1 Inr show ?thesis by auto
  qed (use Cons.prems in auto)
qed auto

lemma acquire_blocks_hashes:
  assumes "arena_inv (tc_host c)" "size (arena_abs (tc_host c)) + length bs \<le> LIMIT" "acquire_blocks bytes bs c = (Inr refs, c')"
  shows "list_all2 (\<lambda>b ref. \<exists>data. block_slice bytes b = Inr data \<and> br_content_hash ref = hash data) bs refs"
  using assms
proof (induction bs arbitrary: c refs)
  case (Cons b bs)
  obtain data where d: "block_slice bytes b = Inr data" using Cons.prems(3) by (auto split: sum.splits)
  obtain r1 a1 where q: "acquire_at data (br_offset b) (tc_host c) = (r1, a1)" by fastforce
  from acquire_at_abs [OF Cons.prems(1) _ q] Cons.prems(2) obtain ref where ref: "r1 = Inr ref"
    "br_content_hash ref = hash data" "arena_inv a1" "arena_abs a1 = add_mset (hash data) (arena_abs (tc_host c))" by auto
  obtain refs' where "refs = ref # refs'" and rest: "acquire_blocks bytes bs (c\<lparr>tc_host := a1\<rparr>) = (Inr refs', c')"
    using Cons.prems(3) d q ref(1) by (auto simp: st_then_def Let_def split: sum.splits prod.splits)
  with Cons.IH [OF _ _ rest] ref Cons.prems(2) d show ?case by simp
qed simp

lemma slices_refs_of:
  assumes "off + flat_len ps \<le> length bytes" "length bytes < 2 ^ 64" "take (flat_len ps) (drop off bytes) = concat ps"
  shows "list_all2 (\<lambda>b p. block_slice bytes b = Inr p \<and> br_content_hash b = hash p) (refs_of off ps) ps"
  using assms
proof (induction ps arbitrary: off)
  case (Cons p ps)
  have u: "unat (of_nat off :: u64) = off" "unat (of_nat off + of_nat (length p) :: u64) = off + length p"
    using Cons.prems(1,2) by (simp_all add: word_nat flip: of_nat_add)
  have eq: "take (length p + flat_len ps) (drop off bytes) = p @ concat ps" using Cons.prems(3) by simp
  then have p: "take (length p) (drop off bytes) = p"
    by (metis append_eq_conv_conj take_take min.absorb1 le_add1)
  have "take (flat_len ps) (drop (off + length p) bytes) = concat ps"
    using arg_cong [OF eq, of "drop (length p)"] by (simp add: drop_take add.commute)
  with Cons.IH [of "off + length p"] Cons.prems(1,2) u p show ?case
    by (simp add: ref_of_def slice_def)
qed simp

lemma chunk_slices:
  assumes "chunk bytes n = Inr blocks" "length bytes < 2 ^ 64"
  shows "list_all2 (\<lambda>b p. block_slice bytes b = Inr p \<and> br_content_hash b = hash p) blocks (pieces (unat n) bytes)"
proof -
  have n: "n \<noteq> 0" "blocks = refs_of 0 (pieces (unat n) bytes)" using chunk_Inr [OF assms] by auto
  then have "concat (pieces (unat n) bytes) = bytes" by (simp add: concat_pieces unat_gt_0)
  then show ?thesis
    using slices_refs_of [of 0 "pieces (unat n) bytes" bytes] assms(2) n(2) by (simp flip: length_concat)
qed

lemma list_all2_set1: "list_all2 R xs ys \<Longrightarrow> x \<in> set xs \<Longrightarrow> \<exists>y \<in> set ys. R x y"
  by (induction rule: list_all2_induct) auto

lemma list_all2_set2: "list_all2 R xs ys \<Longrightarrow> y \<in> set ys \<Longrightarrow> \<exists>x \<in> set xs. R x y"
  by (induction rule: list_all2_induct) auto

text \<open>After acquiring the blocks of a payload the arena returns each of them, if no digest collides.\<close>

lemma acquire_host_readable:
  assumes c: "refs_ok n c" and le: "n + BMAX \<le> LIMIT" and ch: "chunk bytes bs = Inr blocks" and len: "length bytes < 2 ^ 64"
    and run: "acquire_host new_host bytes blocks c = (Inr acquired, c')"
    and inj: "inj_on hash (set (pieces (unat bs) bytes) \<union> ran (ar_blocks (tc_host c)))"
    and p: "p \<in> set (pieces (unat bs) bytes)"
  shows "arena_get (tc_host c') (hash p) = Inr p"
proof -
  have bl: "length blocks \<le> BMAX" using chunk_length [OF ch] by (simp add: BMAX_eq)
  obtain r1 c1 where res: "on_accounting (acct_reserve KHost new_host) c = (r1, c1)" by fastforce
  have c1: "tc_host c1 = tc_host c" using on_accounting_frame [OF res] by simp
  obtain c2 where acq: "acquire_blocks bytes blocks c1 = (Inr acquired, c2)" and c2: "tc_host c' = tc_host c2"
    using run res by (fastforce simp: acquire_host_def st_then_def on_accounting_def split: sum.splits prod.splits)
  have inv: "arena_inv (tc_host c1)" "size (arena_abs (tc_host c1)) + length blocks \<le> LIMIT"
    using c le bl by (simp_all add: refs_ok_def c1)
  note slices = chunk_slices [OF ch len]
  obtain b where b: "b \<in> set blocks" "block_slice bytes b = Inr p"
    using list_all2_set2 [OF slices p] by blast
  then obtain ref where ref: "ref \<in> set acquired" "br_content_hash ref = hash p"
    using list_all2_set1 [OF acquire_blocks_hashes [OF inv acq]] by force
  have abs: "arena_inv (tc_host c2)" "arena_abs (tc_host c2) = arena_abs (tc_host c1) + mset (map br_content_hash acquired)"
    using acquire_blocks_abs [OF inv acq] by auto
  then have "hash p \<in># arena_abs (tc_host c2)" using ref by (force simp: image_iff)
  then obtain q where q: "ar_blocks (tc_host c2) (hash p) = Some q" "hash q = hash p"
    using arena.fetch_iff [OF abs(1)] arena.fetch_key [OF abs(1)] by (metis not_Some_eq)
  have "q \<in> set (pieces (unat bs) bytes) \<union> ran (ar_blocks (tc_host c))"
  proof -
    have "q \<in> ran (ar_blocks (tc_host c2))" using q(1) by (rule ranI)
    then have "q \<in> ran (ar_blocks (tc_host c)) \<or> (\<exists>b \<in> set blocks. block_slice bytes b = Inr q)"
      using acquire_blocks_ran [OF acq] by (auto simp: c1)
    moreover have "q \<in> set (pieces (unat bs) bytes)" if "b \<in> set blocks" "block_slice bytes b = Inr q" for b
      using list_all2_set1 [OF slices that(1)] that(2) by auto
    ultimately show ?thesis by blast
  qed
  with inj p q(2) have "q = p" by (auto dest: inj_onD)
  then show ?thesis by (simp add: arena_get_def c2 q(1))
qed

section \<open>Registration\<close>

lemma register_Inr:
  assumes "register ops namespace key generation k payload c = (Inr oid, c')"
  obtains n blocks new_host c1 acquired c2 e t where
    "oid = object_id (address_new namespace key generation)" "tc_entries c (oid_to_hex oid) = None"
    "shape_byte_len (ck_shape k) (byte_size (ck_dtype k)) = Inr (of_nat (length payload))"
    "numel (ck_shape k) = Inr n" "chunk payload (rc_block_size (tc_config c)) = Inr blocks"
    "validate_block_list blocks (of_nat (length payload)) = Inr ()"
    "make_room ops new_host c = (Inr (), c1)" "acquire_host new_host payload blocks c1 = (Inr acquired, c2)"
    "fresh_entry (address_new namespace key generation) k n blocks (of_nat (length payload)) acquired e" "en_address e = address_new namespace key generation"
    "en_numel e = n" "\<not> en_durable e" "\<not> is_quarantined e"
    "enforce_capacity ops (insert_entry oid e (c2\<lparr>tc_ticks := t\<rparr>)) = (Inr (), c')" "new_host = new_host_bytes blocks c"
proof -
  let ?oid = "object_id (address_new namespace key generation)"
  from assms obtain n blocks where g: "shape_byte_len (ck_shape k) (byte_size (ck_dtype k)) = Inr (of_nat (length payload))"
    "numel (ck_shape k) = Inr n" "chunk payload (rc_block_size (tc_config c)) = Inr blocks"
    "validate_block_list blocks (of_nat (length payload)) = Inr ()" "tc_entries c (oid_to_hex ?oid) = None"
    by (auto simp: register_def Let_def res split: if_splits)
  let ?new = "new_host_bytes blocks c"
  let ?e = "\<lambda>acquired u. \<lparr>en_address = address_new namespace key generation, en_compat = k, en_compat_id = compat_id k,
    en_byte_len = of_nat (length payload), en_numel = n, en_blocks = blocks, en_placements = [PHost acquired],
    en_created_ns = tc_clock u (tc_ticks u), en_last_use_ns = tc_clock u (Suc (tc_ticks u)), en_reuse_count = 0,
    en_durable = False, en_flags = move_flags_default\<rparr>"
  from assms g obtain c1 acquired c2 where r: "make_room ops ?new c = (Inr (), c1)"
    "acquire_host ?new payload blocks c1 = (Inr acquired, c2)" "oid = ?oid"
    "enforce_capacity ops (insert_entry ?oid (?e acquired c2) (c2\<lparr>tc_ticks := Suc (Suc (tc_ticks c2))\<rparr>)) = (Inr (), c')"
    by (auto simp: register_def Let_def st_then_Inr_iff now_ns_def split: if_splits)
  show thesis
    by (rule that [OF r(3) _ g(1-4) r(1,2), of "?e acquired c2" "Suc (Suc (tc_ticks c2))"])
       (use r(3,4) g(5) in \<open>simp_all add: fresh_entry_def is_quarantined_def move_flags_default_def\<close>)
qed

lemma materialize_host:
  assumes "tc_entries c (oid_to_hex oid) = Some e" "list_ex (\<lambda>t. t = Host) (placement_tiers e)"
    "chunk payload bs = Inr (en_blocks e)" "en_byte_len e = of_nat (length payload)" "length payload < 2 ^ 63"
    "\<And>p. p \<in> set (pieces (unat bs) payload) \<Longrightarrow> arena_get (tc_host c) (hash p) = Inr p"
  shows "materialize_payload ops oid c = (Inr payload, c)"
  using assms reconstruct_chunk [OF assms(3,5), of "arena_get (tc_host c)"]
  by (simp add: materialize_payload_def get_meta_def)

lemma register_materialize:
  assumes reg: "register ops namespace key generation k payload c = (Inr oid, c')"
    and c: "budgets_ok c" "refs_ok n c" "n + BMAX \<le> LIMIT" and len: "length payload < 2 ^ 63"
    and inj: "inj_on hash (set (pieces (unat (rc_block_size (tc_config c))) payload) \<union> ran (ar_blocks (tc_host c)))"
  shows "materialize_payload ops oid c' = (Inr payload, c')"
  using reg
proof (cases rule: register_Inr)
  case (1 m blocks new_host c1 acquired c2 e t)
  have c1: "budgets_ok c1" "refs_ok n c1" using acct.every.room [OF c(1), of ops new_host] refs.every.room [OF c(2), of ops new_host] 1(7) by simp_all
  have le: "host_le c1 c" using make_room_le [of ops new_host c] 1(7) by simp
  then have "ran (ar_blocks (tc_host c1)) \<subseteq> ran (ar_blocks (tc_host c))"
    by (auto simp: host_le_def map_le_def ran_def dom_def) (metis option.distinct(1))
  then have inj1: "inj_on hash (set (pieces (unat (rc_block_size (tc_config c))) payload) \<union> ran (ar_blocks (tc_host c1)))"
    using inj by (meson Un_mono inj_on_subset order_refl)
  note get = acquire_host_readable [OF c1(2) c(3) 1(5) _ 1(8) inj1]
  let ?u = "insert_entry oid e (c2\<lparr>tc_ticks := t\<rparr>)"
  have "budgets_ok ?u"
    using acquire_host_budgets [OF c1(1) make_room_fits [OF 1(7)], of payload blocks] 1(8) by (simp add: budgets_ok_def)
  then obtain t' where c': "c' = ?u\<lparr>tc_ticks := t'\<rparr>" using enforce_noop [of ?u ops] 1(14) by auto
  show ?thesis
  proof (rule materialize_host)
    show "tc_entries c' (oid_to_hex oid) = Some e" by (simp add: c' insert_entry_def)
    show "list_ex (\<lambda>t. t = Host) (placement_tiers e)" using 1(9) by (simp add: fresh_entry_def placement_tiers_def)
    show "chunk payload (rc_block_size (tc_config c)) = Inr (en_blocks e)" "en_byte_len e = of_nat (length payload)"
      using 1(5,9) by (simp_all add: fresh_entry_def)
    show "arena_get (tc_host c') (hash p) = Inr p" if "p \<in> set (pieces (unat (rc_block_size (tc_config c))) payload)" for p
      using get [OF _ that] len by (simp add: c')
  qed (rule len)
qed

text \<open>Registration succeeds when the object is new, described correctly, admitted, and fits.\<close>

lemma acquire_blocks_total:
  assumes "arena_inv (tc_host c)" "size (arena_abs (tc_host c)) + length bs \<le> LIMIT"
    "\<forall>b \<in> set bs. \<exists>data. block_slice bytes b = Inr data"
  shows "\<exists>refs a. acquire_blocks bytes bs c = (Inr refs, c\<lparr>tc_host := a\<rparr>)"
  using assms
proof (induction bs arbitrary: c)
  case Nil
  then show ?case by (auto intro: exI [of _ "tc_host c"])
next
  case (Cons b bs)
  obtain data where d: "block_slice bytes b = Inr data" using Cons.prems(3) by auto
  obtain r1 a1 where q: "acquire_at data (br_offset b) (tc_host c) = (r1, a1)" by fastforce
  from acquire_at_abs [OF Cons.prems(1) _ q] Cons.prems(2) obtain ref where ref: "r1 = Inr ref"
    "arena_inv a1" "arena_abs a1 = add_mset (hash data) (arena_abs (tc_host c))" by auto
  from Cons.IH [of "c\<lparr>tc_host := a1\<rparr>"] ref(2,3) Cons.prems(2,3) obtain refs a where
    "acquire_blocks bytes bs (c\<lparr>tc_host := a1\<rparr>) = (Inr refs, c\<lparr>tc_host := a\<rparr>)" by auto
  with d q ref(1) show ?case by (auto simp: st_then_def Let_def)
qed

lemma reserve_commit:
  assumes "budget_inv b" "n \<le> budget_free b"
  shows "\<exists>b1 b2. budget_reserve n b = (Inr (), b1) \<and> budget_commit n b1 = (Inr (), b2)"
proof -
  obtain b1 where r: "budget_reserve n b = (Inr (), b1)" and b1: "budget_inv b1" "unat (bu_reserved b1) = unat (bu_reserved b) + unat n"
    using assms by (rule reserve_free)
  have "\<not> bu_reserved b1 < n" using b1(2) by (simp add: word_less_nat_alt)
  then obtain b2 where "budget_commit n b1 = (Inr (), b2)"
    using commit_refused [OF b1(1), of n] by (cases "budget_commit n b1"; cases "fst (budget_commit n b1)") auto
  with r show ?thesis by blast
qed

lemma acquire_host_total:
  assumes c: "budgets_ok c" "refs_ok n c" "n + BMAX \<le> LIMIT" and ch: "chunk bytes bs = Inr blocks" "length bytes < 2 ^ 64"
    and room: "new_host \<le> host_free c"
  shows "\<exists>acquired c'. acquire_host new_host bytes blocks c = (Inr acquired, c')"
proof -
  let ?a = "tc_accounting c"
  have "budget_inv (ac_host ?a)" "new_host \<le> budget_free (ac_host ?a)"
    using budgets_ok_inv [OF c(1)] room by (simp_all add: accounting_inv_def host_free_def acct_free_def)
  from reserve_commit [OF this] obtain b1 b2 where
    b: "budget_reserve new_host (ac_host ?a) = (Inr (), b1)" "budget_commit new_host b1 = (Inr (), b2)" by blast
  let ?c1 = "c\<lparr>tc_accounting := ?a\<lparr>ac_host := b1\<rparr>\<rparr>"
  have r: "on_accounting (acct_reserve KHost new_host) c = (Inr (), ?c1)"
    using b(1) by (simp add: on_accounting_def acct_reserve_def on_tier_def)
  have "length blocks \<le> BMAX" using chunk_length [OF ch(1)] by (simp add: BMAX_eq)
  then have inv: "arena_inv (tc_host ?c1)" "size (arena_abs (tc_host ?c1)) + length blocks \<le> LIMIT"
    using c by (simp_all add: refs_ok_def)
  have "\<forall>b \<in> set blocks. \<exists>data. block_slice bytes b = Inr data"
    using list_all2_set1 [OF chunk_slices [OF ch]] by fast
  from acquire_blocks_total [OF inv this] obtain refs a where
    q: "acquire_blocks bytes blocks ?c1 = (Inr refs, ?c1\<lparr>tc_host := a\<rparr>)" by blast
  have "on_accounting (commit_reserve KHost new_host) (?c1\<lparr>tc_host := a\<rparr>) =
      (Inr (), ?c1\<lparr>tc_host := a, tc_accounting := ?a\<lparr>ac_host := b2\<rparr>\<rparr>)"
    using b(2) by (simp add: on_accounting_def commit_reserve_def on_tier_def)
  then show ?thesis by (simp add: acquire_host_def st_then_def r q)
qed

lemma register_total:
  assumes c: "budgets_ok c" "refs_ok n c" "n + BMAX \<le> LIMIT"
    and oid: "oid = object_id (address_new namespace key generation)" "tc_entries c (oid_to_hex oid) = None"
    and geo: "shape_byte_len (ck_shape k) (byte_size (ck_dtype k)) = Inr (of_nat (length payload))" "length payload < 2 ^ 63"
    and ch: "chunk payload (rc_block_size (tc_config c)) = Inr blocks" "new_host_bytes blocks c \<le> host_free c"
    and ad: "is_admit (evaluate_ignoring_capacity (rc_admission (tc_config c))
      (admission_candidate_of (tc_config c) oid k (of_nat (length payload))) (tc_accounting c))"
  shows "\<exists>c'. register ops namespace key generation k payload c = (Inr oid, c')"
proof -
  have len: "length payload < 2 ^ 64" using geo(2) by simp
  obtain m where m: "numel (ck_shape k) = Inr m" using geo(1) by (auto simp: shape_byte_len_def res split: if_splits)
  have v: "validate_block_list blocks (of_nat (length payload)) = Inr ()" by (rule chunk_valid [OF ch(1) len])
  from acquire_host_total [OF c ch(1) len ch(2)] obtain acquired c2 where
    q: "acquire_host (new_host_bytes blocks c) payload blocks c = (Inr acquired, c2)" by blast
  have "budgets_ok (insert_entry oid e (c2\<lparr>tc_ticks := t\<rparr>))" for e t
    using acquire_host_budgets [OF c(1) ch(2), of payload blocks] q by (simp add: budgets_ok_def)
  then have "fst (enforce_capacity ops (insert_entry oid e (c2\<lparr>tc_ticks := t\<rparr>))) = Inr ()" for e t
    using enforce_noop [of "insert_entry oid e (c2\<lparr>tc_ticks := t\<rparr>)" ops] by (metis fst_conv)
  then have enf: "st_then (enforce_capacity ops) (\<lambda>_. Pair (Inr oid)) (insert_entry oid e (c2\<lparr>tc_ticks := t\<rparr>)) =
      (Inr oid, snd (enforce_capacity ops (insert_entry oid e (c2\<lparr>tc_ticks := t\<rparr>))))" for e t
    by (metis (no_types, lifting) prod.collapse st_then_simps(2))
  have room: "make_room ops (new_host_bytes blocks c) c = (Inr (), c)" using ch(2) by (simp add: make_room_def not_less)
  show ?thesis
    using m by (simp add: register_def Let_def oid(1) [symmetric] oid(2) geo(1) ch(1) v ad room q now_ns_def st_then_def [of now_ns] enf)
qed

section \<open>Verified reads\<close>

text \<open>The blocks of a payload, each with the digest, length and CRC of its reference.\<close>

definition verified :: "block_ref list \<Rightarrow> u8 list \<Rightarrow> bool" where
  "verified blocks bytes \<longleftrightarrow> (\<exists>ps. bytes = concat ps \<and>
     list_all2 (\<lambda>b p. hash p = br_content_hash b \<and> br_len b = of_nat (length p) \<and> br_crc b = crc32c p) blocks ps)"

lemma reconstruct_verifies:
  assumes "reconstruct blocks byte_len get = Inr out" "\<And>b p. b \<in> set blocks \<Longrightarrow> get (br_content_hash b) = Inr p \<Longrightarrow> hash p = br_content_hash b"
  shows "length out = unat byte_len \<and> verified blocks out"
proof -
  obtain ps where ps: "list_all2 (block_matches get) blocks ps" "out = concat ps" and len: "length out = unat byte_len"
    using reconstruct_sound [OF assms(1)] by blast
  from ps(1) have "list_all2 (\<lambda>b p. hash p = br_content_hash b \<and> br_len b = of_nat (length p) \<and> br_crc b = crc32c p) blocks ps"
    by (auto simp: list_all2_conv_all_nth block_matches_def intro: assms(2) nth_mem)
  with ps(2) len show ?thesis by (auto simp: verified_def)
qed

text \<open>Reading the block files one by one is reassembly from the files, with every file checked.\<close>

abbreviation file_get :: "store \<Rightarrow> digest \<Rightarrow> u8 list result" where
  "file_get st h \<equiv> ok_or (st_files st (BlocksDir, to_hex h)) (Reconstruct [])"

lemma reconstruct_blocks_files:
  "reconstruct_blocks bs out st = (Inr out', st') \<Longrightarrow>
     st_files st' = st_files st \<and> fold_r (reconstruct_step (file_get st)) bs out = Inr out' \<and>
     (\<forall>b \<in> set bs. \<forall>p. file_get st (br_content_hash b) = Inr p \<longrightarrow> hash p = br_content_hash b)"
proof (induction bs arbitrary: out st)
  case (Cons b bs)
  obtain r st1 where g: "get_block (br_content_hash b) st = (r, st1)" by fastforce
  have st1: "st_files st1 = st_files st" and gd: "\<And>bytes. r = Inr bytes \<Longrightarrow> hash bytes = br_content_hash b \<and>
      st_files st (BlocksDir, to_hex (br_content_hash b)) = Some bytes"
    using get_block_cases [OF g] by auto
  obtain out1 where o1: "reconstruct_step (\<lambda>_. r) b out = Inr out1" and rest: "reconstruct_blocks bs out1 st1 = (Inr out', st')"
    using Cons.prems g by (auto split: sum.splits)
  obtain bytes where r: "r = Inr bytes" using o1 by (auto simp: reconstruct_step_def res)
  have "reconstruct_step (file_get st) b out = Inr out1"
    using o1 gd [OF r] by (simp add: reconstruct_step_def r)
  with Cons.IH [OF rest] st1 gd [OF r] show ?case by auto
qed simp

lemma reconstruct_store_verifies:
  assumes "reconstruct_store blocks byte_len st = (Inr out, st')"
  shows "length out = unat byte_len \<and> verified blocks out \<and> st_files st' = st_files st \<and> covers 0 blocks (unat byte_len)"
proof -
  obtain buf where v: "validate_block_list blocks byte_len = Inr ()" "vec_zeroed (unat byte_len) = Inr buf"
    and run: "reconstruct_blocks blocks buf st = (Inr out, st')"
    using assms by (auto simp: reconstruct_store_def res split: sum.splits)
  have "reconstruct blocks byte_len (file_get st) = Inr out"
    using reconstruct_blocks_files [OF run] v by (simp add: reconstruct_def)
  then show ?thesis using reconstruct_verifies reconstruct_covers reconstruct_blocks_files [OF run] by blast
qed

text \<open>Payloads served from memory or disk are verified; only a device copy is trusted.\<close>

lemma arena_get_hash: "arena_inv a \<Longrightarrow> arena_get a h = Inr p \<Longrightarrow> hash p = h"
  using arena.fetch_key by (auto simp: arena_get_def res)

lemma materialize_from_verified:
  assumes "arena_inv (tc_host c)" "tc_entries c (oid_to_hex oid) = Some e" "\<not> is_accelerator t"
    "materialize_from ops oid t c = (Inr bytes, c')"
  shows "length bytes = unat (en_byte_len e) \<and> verified (en_blocks e) bytes \<and> covers 0 (en_blocks e) (unat (en_byte_len e))"
proof (cases t)
  case Host
  then show ?thesis
    using assms reconstruct_verifies [of "en_blocks e" "en_byte_len e" "arena_get (tc_host c)" bytes] arena_get_hash reconstruct_covers
    by (auto simp: materialize_from_def get_meta_def)
next
  case Persistent
  then obtain st where "tc_persistent c = Some st" "fst (reconstruct_store (en_blocks e) (en_byte_len e) st) = Inr bytes"
    using assms by (auto simp: materialize_from_def get_meta_def from_persistent_def split: option.splits prod.splits)
  then show ?thesis using reconstruct_store_verifies by (metis prod.collapse)
qed (use assms(3) in simp)

lemma materialize_payload_verified:
  assumes "arena_inv (tc_host c)" "tc_entries c (oid_to_hex oid) = Some e"
    "has_tier e Host \<or> first_device (en_placements e) = None" "materialize_payload ops oid c = (Inr bytes, c')"
  shows "length bytes = unat (en_byte_len e) \<and> verified (en_blocks e) bytes \<and> covers 0 (en_blocks e) (unat (en_byte_len e))"
proof -
  have "\<exists>t. \<not> is_accelerator t \<and> materialize_from ops oid t c = (Inr bytes, c')"
  proof (cases "list_ex (\<lambda>t. t = Host) (placement_tiers e)")
    case True
    then show ?thesis
      using assms(2,4) by (intro exI [of _ Host]) (auto simp: materialize_payload_def materialize_from_def get_meta_def)
  next
    case False
    then have "\<not> has_tier e Host" by (force simp: has_tier_def placement_tiers_def list_ex_iff)
    with False assms(2-4) show ?thesis
      by (intro exI [of _ Persistent])
         (auto simp: materialize_payload_def materialize_from_def get_meta_def Let_def split: if_splits option.splits)
  qed
  then show ?thesis using materialize_from_verified [OF assms(1,2)] by blast
qed

section \<open>Verification of an object\<close>

text \<open>On a disk that answers, reading changes nothing of the cache.\<close>

definition quiet :: "'b cache \<Rightarrow> bool" where
  "quiet c \<longleftrightarrow> (\<forall>st. tc_persistent c = Some st \<longrightarrow> st_faults st = [])"

lemma get_block_quiet: "st_faults st = [] \<Longrightarrow> snd (get_block h st) = st"
  by (auto simp: get_block_def fs_read_def st_then_def split: sum.splits prod.splits)

lemma reconstruct_blocks_state: "st_faults st = [] \<Longrightarrow> snd (reconstruct_blocks bs out st) = st"
proof (induction bs arbitrary: out)
  case (Cons b bs)
  then show ?case
    using get_block_quiet [of st "br_content_hash b"]
    by (cases "get_block (br_content_hash b) st") (auto split: sum.splits)
qed simp

lemma from_persistent_state:
  assumes "quiet c" "tc_persistent c = Some st"
  shows "snd (from_persistent e st c) = c"
proof -
  have "snd (reconstruct_store (en_blocks e) (en_byte_len e) st) = st"
    using assms reconstruct_blocks_state by (auto simp: quiet_def reconstruct_store_def split: sum.splits)
  then show ?thesis using assms(2) by (simp add: from_persistent_def case_prod_beta)
qed

lemma materialize_state:
  assumes "quiet c"
  shows "snd (materialize_payload ops oid c) = c" "snd (materialize_from ops oid t c) = c"
  using from_persistent_state [OF assms]
  by (auto simp: materialize_payload_def materialize_from_def Let_def split: sum.splits option.splits placement.splits tier.splits)

lemma verify_loop_exact:
  assumes "quiet c"
  shows "verify_loop ops oid bytes ts n c = (Inr m, c') \<longleftrightarrow>
    c' = c \<and> m = n + of_nat (length ts) \<and> (\<forall>t \<in> set ts. materialize_from ops oid t c = (Inr bytes, c))"
proof (induction ts arbitrary: n)
  case (Cons t ts)
  obtain r where r: "materialize_from ops oid t c = (r, c)"
    using materialize_state(2) [OF assms, of ops oid t] by (metis prod.collapse)
  with Cons show ?case by (cases r) (auto simp: algebra_simps)
qed auto

lemma verify_iff:
  assumes "quiet c" "tc_entries c (oid_to_hex oid) = Some e"
  shows "verify ops oid c = (Inr rep, c') \<longleftrightarrow> c' = c \<and> (\<exists>bytes. materialize_payload ops oid c = (Inr bytes, c) \<and>
    of_nat (length bytes) = en_byte_len e \<and> (\<forall>t \<in> set (placement_tiers e). materialize_from ops oid t c = (Inr bytes, c)) \<and>
    rep = \<lparr>ir_object_id = oid_to_hex oid, ir_checked_placements = of_nat (length (placement_tiers e)),
      ir_verified_bytes = en_byte_len e, ir_clean = True\<rparr>)"
proof -
  obtain r where r: "materialize_payload ops oid c = (r, c)"
    using materialize_state(1) [OF assms(1), of ops oid] by (metis prod.collapse)
  show ?thesis
    by (cases r) (auto simp: verify_def r get_meta_def assms(2) st_then_Inr_iff verify_loop_exact [OF assms(1)])
qed

section \<open>Which entries a method touches\<close>

lemma upd_entry_entries: "tc_entries c (oid_to_hex oid) = Some e \<Longrightarrow> tc_entries (upd_entry oid f c) = (tc_entries c)(oid_to_hex oid \<mapsto> f e)"
  by (simp add: upd_entry_def)

text \<open>Adding a placement appends one to the entry of the object, or changes no entry at all.\<close>

definition appended :: "object_id \<Rightarrow> tier \<Rightarrow> entry \<Rightarrow> unit result \<Rightarrow> 'b cache \<Rightarrow> 'b cache \<Rightarrow> bool" where
  "appended oid t e r c c' \<longleftrightarrow> tc_entries c (oid_to_hex oid) = Some e \<and>
     (r \<noteq> Inr () \<and> tc_entries c' = tc_entries c \<or>
      r = Inr () \<and> (\<exists>p. (is_accelerator t \<or> placement_tier p = t) \<and>
        tc_entries c' = (tc_entries c)(oid_to_hex oid \<mapsto> e\<lparr>en_placements := en_placements e @ [p]\<rparr>)))"

lemma appended_push:
  "tc_entries c (oid_to_hex oid) = Some e \<Longrightarrow> tc_entries u = tc_entries c \<Longrightarrow> is_accelerator t \<or> placement_tier p = t \<Longrightarrow>
     appended oid t e (Inr ()) c (push_placement oid p u)"
  by (auto simp: appended_def push_placement_def upd_entry_entries)

lemma appended_err: "tc_entries c (oid_to_hex oid) = Some e \<Longrightarrow> tc_entries u = tc_entries c \<Longrightarrow> appended oid t e (Inl x) c u"
  by (simp add: appended_def)

lemma appended_then:
  assumes "tc_entries (snd (m u)) = tc_entries u" "tc_entries u = tc_entries c" "tc_entries c (oid_to_hex oid) = Some e"
    "\<And>x v. tc_entries v = tc_entries c \<Longrightarrow> appended oid t e (fst (f x v)) c (snd (f x v))"
  shows "appended oid t e (fst (st_then m f u)) c (snd (st_then m f u))"
  using assms by (cases "m u") (auto simp: st_then_def intro: appended_err split: sum.splits)

lemma put_blocks_entries: "tc_entries (snd (put_blocks bytes bs c)) = tc_entries c"
  using put_blocks_frame [of bytes bs c] by (cases "put_blocks bytes bs c") auto

lemma on_store_entries: "tc_entries (snd (on_store f c)) = tc_entries c"
  using on_store_frame [of f c] by (cases "on_store f c") auto

lemma add_placement_appends:
  assumes "tc_entries c (oid_to_hex oid) = Some e"
  shows "appended oid t e (fst (add_placement ops oid t bytes c)) c (snd (add_placement ops oid t bytes c))"
proof (cases t)
  case Host
  have "appended oid Host e (fst (add_host oid bytes l c)) c (snd (add_host oid bytes l c))" for l
    unfolding add_host_def Let_def
    by (rule appended_then; (rule refl assms)?; simp?)
       (rule appended_then; (rule refl assms)?; auto intro!: appended_then appended_push appended_err simp: assms acquire_host_entries)
  then show ?thesis using assms Host by (simp add: add_placement_def get_meta_def appended_err)
next
  case Persistent
  have "appended oid Persistent e (fst (add_persistent oid bytes e c)) c (snd (add_persistent oid bytes e c))"
    unfolding add_persistent_def Let_def
    by (auto intro!: appended_then appended_push appended_err simp: assms put_blocks_entries on_store_entries)
  then show ?thesis using assms Persistent by (simp add: add_placement_def get_meta_def appended_err)
next
  case (Accelerator i)
  have "appended oid (Accelerator i) e (fst (add_accelerator ops oid i bytes c)) c (snd (add_accelerator ops oid i bytes c))"
    by (auto simp: add_accelerator_def Let_def assms intro!: appended_push appended_err split: sum.splits prod.splits)
  then show ?thesis using assms Accelerator by (simp add: add_placement_def get_meta_def appended_err)
qed

text \<open>Removing a placement touches the entry of the object only, and there one placement of that tier.\<close>

lemma remove_placement_entry:
  assumes "remove_placement ops oid t c = (r, c')"
  shows "tc_entries c' = tc_entries c \<and> r \<noteq> Inr () \<or> (\<exists>e i. tc_entries c (oid_to_hex oid) = Some e \<and> i < length (en_placements e) \<and>
    placement_tier (en_placements e ! i) = t \<and>
    tc_entries c' = (tc_entries c)(oid_to_hex oid \<mapsto> e\<lparr>en_placements := remove_at i (en_placements e)\<rparr>))"
  using assms
proof (cases rule: remove_placement_cases)
  case (freed e i)
  then show ?thesis using free_placement_entries [OF freed(4)] upd_entry_entries [OF freed(1)] by auto
qed simp

lemma set_remove_at: "set xs \<subseteq> insert (xs ! i) (set (remove_at i xs))"
proof (cases "i < length xs")
  case True
  then have "set xs = insert (xs ! i) (set (take i xs) \<union> set (drop (Suc i) xs))"
    by (metis id_take_nth_drop list.simps(15) set_append Un_insert_right)
  then show ?thesis by (simp add: remove_at_def)
qed (auto simp: remove_at_def)

lemma remove_placement_keeps_tier:
  assumes "tc_entries c key = Some e" "has_tier e t'" "t' \<noteq> t"
  shows "\<exists>e'. tc_entries (snd (remove_placement ops oid t c)) key = Some e' \<and> has_tier e' t' \<and> en_durable e' = en_durable e"
proof (cases "remove_placement ops oid t c")
  case (Pair r c')
  have "has_tier (e\<lparr>en_placements := remove_at i (en_placements e)\<rparr>) t'" if "placement_tier (en_placements e ! i) = t" for i
    using assms(2,3) that set_remove_at [of "en_placements e" i] by (auto simp: has_tier_def list_ex_iff)
  with remove_placement_entry [OF Pair] assms(1,2) show ?thesis by (auto simp: Pair)
qed

section \<open>Demotion\<close>

lemma materialize_entries: "tc_entries (snd (materialize_payload ops oid c)) = tc_entries c"
  by (auto simp: materialize_payload_def from_persistent_def Let_def split: sum.splits option.splits prod.splits)

lemma has_tier_append: "has_tier e t \<Longrightarrow> has_tier (e\<lparr>en_placements := en_placements e @ ps\<rparr>) t"
  by (simp add: has_tier_def)

text \<open>Copying to the lower tier first: the copy is there before anything is removed.\<close>

lemma copy_to_keeps:
  assumes e: "tc_entries c (oid_to_hex oid) = Some e" "has_tier e t'"
    and run: "(if has then Pair (Inr ()) else st_then (materialize_payload ops oid) (add_placement ops oid t)) c = (r, c')"
    and has: "has \<longleftrightarrow> has_tier e t" and t: "\<not> is_accelerator t"
  shows "\<exists>e'. tc_entries c' (oid_to_hex oid) = Some e' \<and> has_tier e' t' \<and> (r = Inr () \<longrightarrow> has_tier e' t)"
proof (cases has)
  case False
  obtain r1 c1 where m: "materialize_payload ops oid c = (r1, c1)" by fastforce
  have c1: "tc_entries c1 = tc_entries c" using materialize_entries [of ops oid c] m by simp
  show ?thesis
  proof (cases r1)
    case (Inl x)
    then show ?thesis using run m False c1 e by (auto simp: st_then_def)
  next
    case (Inr bytes)
    have add: "add_placement ops oid t bytes c1 = (r, c')" using run m False Inr by (simp add: st_then_def)
    have e1: "tc_entries c1 (oid_to_hex oid) = Some e" using e(1) c1 by simp
    from add_placement_appends [OF e1, of t ops bytes] add have "appended oid t e r c1 c'" by simp
    then show ?thesis using e(2) t by (auto simp: appended_def e1 has_tier_def)
  qed
qed (use run e has in auto)

lemma demote_keeps:
  assumes run: "demote ops oid src c = (r, c')" and e: "tc_entries c (oid_to_hex oid) = Some e" "has_tier e src"
    and low: "next_lower src = Inr target"
  shows "\<exists>e'. tc_entries c' (oid_to_hex oid) = Some e' \<and> (has_tier e' src \<or> has_tier e' target) \<and>
    (r = Inr () \<longrightarrow> has_tier e' target)"
proof -
  have t: "\<not> is_accelerator target" "target \<noteq> src" using low by (cases src; auto)+
  let ?copy = "if has_tier e target then Pair (Inr ()) else st_then (materialize_payload ops oid) (add_placement ops oid target)"
  obtain r1 c1 where cp: "?copy c = (r1, c1)" by fastforce
  obtain e1 where e1: "tc_entries c1 (oid_to_hex oid) = Some e1" "has_tier e1 src" "r1 = Inr () \<longrightarrow> has_tier e1 target"
    using copy_to_keeps [OF e cp refl t(1)] by blast
  have dem: "demote ops oid src c = st_then ?copy (\<lambda>_. remove_placement ops oid src) c"
    using e low by (simp add: demote_def entry_has_tier_def get_meta_def)
  show ?thesis
  proof (cases r1)
    case (Inl x)
    then show ?thesis using run e1 by (simp add: dem st_then_def cp)
  next
    case (Inr u)
    then have rm: "remove_placement ops oid src c1 = (r, c')" using run by (simp add: dem st_then_def cp)
    have "has_tier e1 target" using e1(3) Inr by simp
    from remove_placement_keeps_tier [OF e1(1) this t(2), of ops oid] rm show ?thesis by auto
  qed
qed

section \<open>Deletion\<close>

lemma removes_entries:
  "fold_st (remove_placement ops oid) ts c = (r, c') \<Longrightarrow> (tc_entries c')(oid_to_hex oid := None) = (tc_entries c)(oid_to_hex oid := None)"
proof (induction ts arbitrary: c)
  case (Cons t ts)
  obtain r1 c1 where m: "remove_placement ops oid t c = (r1, c1)" by fastforce
  have c1: "(tc_entries c1)(oid_to_hex oid := None) = (tc_entries c)(oid_to_hex oid := None)"
    using remove_placement_entry [OF m] by auto
  show ?case
  proof (cases r1)
    case (Inl x)
    then have "c' = c1" using Cons.prems m by (simp add: st_then_def)
    with c1 show ?thesis by simp
  next
    case (Inr x)
    then have "fold_st (remove_placement ops oid) ts c1 = (r, c')" using Cons.prems m by (simp add: st_then_def)
    from Cons.IH [OF this] c1 show ?thesis by (rule trans)
  qed
qed simp

lemma delete_entries:
  assumes "delete ops oid c = (Inr (), c')"
  shows "tc_entries c' = (tc_entries c)(oid_to_hex oid := None)"
proof -
  obtain e where e: "tc_entries c (oid_to_hex oid) = Some e" using assms by (auto simp: delete_def get_meta_def res)
  obtain r c1 where f: "fold_st (remove_placement ops oid) (placement_tiers e) c = (r, c1)" by fastforce
  have "tc_entries c' = (tc_entries c1)(oid_to_hex oid := None)"
    using assms e f by (auto simp: delete_def get_meta_def st_then_def Let_def fun_upd_idem split: sum.splits option.splits)
  then show ?thesis using removes_entries [OF f] by simp
qed

section \<open>Eviction protects durable objects\<close>

lemma remove_volatile_other:
  "key \<noteq> oid_to_hex oid \<Longrightarrow> tc_entries (remove_volatile ops oid ts c) key = tc_entries c key"
proof (induction ts arbitrary: c)
  case (Cons t ts)
  have "tc_entries (snd (remove_placement ops oid t c)) key = tc_entries c key"
    using remove_placement_entry [of ops oid t c] Cons.prems by (cases "remove_placement ops oid t c") auto
  with Cons show ?case by simp
qed simp

lemma oid_from_hex_key: "key \<in> range oid_to_hex \<Longrightarrow> oid_from_hex key = Inr oid \<Longrightarrow> oid_to_hex oid = key"
  by (auto simp: oid_from_hex_def oid_to_hex_def to_hex_def res split: if_splits)

lemma evict_loop_other:
  assumes "\<forall>x \<in> set es. ev_object_id x \<noteq> key \<and> ev_object_id x \<in> range oid_to_hex"
  shows "tc_entries (snd (evict_loop ops enough es c)) key = tc_entries c key"
  using assms
proof (induction es arbitrary: c)
  case (Cons x es)
  have "tc_entries (remove_volatile ops oid ts c) key = tc_entries c key" if "oid_from_hex (ev_object_id x) = Inr oid" for oid ts
    using Cons.prems oid_from_hex_key [OF _ that] by (intro remove_volatile_other) auto
  with Cons show ?case by (auto simp: Let_def split: sum.splits)
qed simp

lemma evict_candidates_ids:
  "evict_candidates keys c = (es, c') \<Longrightarrow> x \<in> set es \<Longrightarrow>
     \<exists>e. tc_entries c (ev_object_id x) = Some e \<and> \<not> en_durable e \<and> has_tier e Host"
proof (induction keys arbitrary: c es)
  case (Cons k ks)
  show ?case
  proof (cases "tc_entries c k")
    case None
    with Cons show ?thesis by simp
  next
    case (Some e)
    with Cons show ?thesis by (fastforce simp: Let_def split: prod.splits if_splits)
  qed
qed simp

lemma evict_by_durable:
  assumes "entries_ok c" "tc_entries c key = Some e" "en_durable e"
  shows "tc_entries (snd (evict_by ops enough c)) key = Some e"
proof -
  obtain es c1 where ec: "evict_candidates (tc_iter c (tc_entries c)) c = (es, c1)" by fastforce
  obtain t where t: "c1 = c\<lparr>tc_ticks := t\<rparr>" using evict_candidates_frame [OF ec] by blast
  have "ev_object_id x \<noteq> key \<and> ev_object_id x \<in> range oid_to_hex" if "x \<in> set es" for x
    using evict_candidates_ids [OF ec that] assms by (auto simp: entries_ok_def)
  moreover have "set (eviction_order policy es) = set es" for policy
    using eviction_order_perm [of policy es] by (metis set_mset_mset)
  ultimately show ?thesis
    using evict_loop_other [of "eviction_order (rc_eviction (tc_config c1)) es" key ops enough c1] assms(2) t ec
    by (simp add: evict_by_def)
qed

lemma make_room_durable:
  assumes "entries_ok c" "tc_entries c key = Some e" "en_durable e"
  shows "tc_entries (snd (make_room ops n c)) key = Some e"
proof -
  have "tc_entries (snd (evict_to_free ops n c)) key = Some e"
    using evict_by_durable [OF assms] assms(2) by (simp add: evict_to_free_def)
  then show ?thesis
    using assms(2) by (cases "evict_to_free ops n c") (simp add: make_room_def st_then_def split: sum.splits)
qed

lemma enforce_durable:
  "entries_ok c \<Longrightarrow> tc_entries c key = Some e \<Longrightarrow> en_durable e \<Longrightarrow> tc_entries (snd (enforce_capacity ops c)) key = Some e"
  by (simp add: enforce_capacity_def Let_def evict_by_durable)

lemma register_durable:
  assumes c: "entries_ok c" and k: "rust_key k" and e: "tc_entries c key = Some e" "en_durable e"
  shows "tc_entries (snd (register ops namespace name generation k payload c)) key = Some e"
proof (cases "register ops namespace name generation k payload c")
  case (Pair r c')
  let ?oid = "object_id (address_new namespace name generation)"
  let ?P = "\<lambda>u. entries_ok u \<and> tc_entries u key = Some e \<and> tc_entries u (oid_to_hex ?oid) = None"
  have last: "tc_entries (snd (st_then (enforce_capacity ops) (\<lambda>_. Pair (Inr ?oid)) (insert_entry ?oid e' u))) key = Some e"
    if "?P u" "described e'" for u e'
  proof -
    have ok: "entries_ok (insert_entry ?oid e' u)" using that by (simp add: entries_ok_insert)
    have here: "tc_entries (insert_entry ?oid e' u) key = Some e" using that by (auto simp: insert_entry_def)
    from enforce_durable [OF ok here e(2), of ops] show ?thesis
      by (cases "enforce_capacity ops (insert_entry ?oid e' u)") (auto simp: st_then_def split: sum.splits)
  qed
  have mid: "tc_entries (snd (st_then (acquire_host new_host payload blocks) (\<lambda>acquired.
          st_then now_ns (\<lambda>created.
          st_then now_ns (\<lambda>last_use c.
          st_then (enforce_capacity ops) (\<lambda>_. Pair (Inr ?oid))
            (insert_entry ?oid (f acquired created last_use) c)))) u)) key = Some e"
    if u: "?P u" and f: "\<And>a b l. described (f a b l)" for new_host blocks f u
  proof (cases "acquire_host new_host payload blocks u")
    case (Pair r1 u1)
    then have u1: "tc_entries u1 = tc_entries u" using acquire_host_entries [of new_host payload blocks u] by simp
    have "?P (u1\<lparr>tc_ticks := t\<rparr>)" for t using u u1 by (simp add: entries_ok_def)
    then show ?thesis
      using u u1 last f by (cases r1) (simp_all add: st_then_def [of "acquire_host new_host payload blocks"] Pair now_ns_def)
  qed
  show ?thesis
  proof (cases "tc_entries c (oid_to_hex ?oid)")
    case None
    have room: "tc_entries (snd (st_then (make_room ops new_host) (\<lambda>_.
          st_then (acquire_host new_host payload blocks) (\<lambda>acquired.
          st_then now_ns (\<lambda>created.
          st_then now_ns (\<lambda>last_use c.
          st_then (enforce_capacity ops) (\<lambda>_. Pair (Inr ?oid))
            (insert_entry ?oid (f acquired created last_use) c))))) c)) key = Some e"
      if f: "\<And>a b l. described (f a b l)" for new_host blocks f
    proof (cases "make_room ops new_host c")
      case (Pair r1 u)
      have "dom (tc_entries u) = dom (tc_entries c)" using make_room_dom [of ops new_host c] Pair by simp
      then have "tc_entries u (oid_to_hex ?oid) = None" using None by (metis domIff)
      then have "?P u"
        using make_room_durable [OF c e, of ops new_host] desc.every.room [OF c, of ops new_host] Pair by simp
      then show ?thesis using mid f by (cases r1) (simp_all add: st_then_def [of "make_room ops new_host"] Pair)
    qed
    show ?thesis
      unfolding register_def Let_def
      by (auto simp: e room described_def k split: if_splits intro!: st_then_preserves [where P = "\<lambda>u. tc_entries u key = Some e"])
  next
    case (Some x)
    then show ?thesis
      unfolding register_def Let_def
      by (auto simp: e split: if_splits intro!: st_then_preserves [where P = "\<lambda>u. tc_entries u key = Some e"])
  qed
qed

section \<open>Accelerator copies\<close>

lemma registry_get_put: "registry_get ops i reg = Some b \<Longrightarrow> be_id ops b' = i \<Longrightarrow> registry_get ops i (registry_put ops i b' reg) = Some b'"
  by (induction reg) (auto split: if_splits)

lemma registry_get_id: "registry_get ops i reg = Some b \<Longrightarrow> be_id ops b = i"
  by (induction reg) (auto split: if_splits)

lemma find_append_new: "\<not> has_tier e t \<Longrightarrow> placement_tier p = t \<Longrightarrow> entry_tier (e\<lparr>en_placements := en_placements e @ [p]\<rparr>) t = Some p"
proof -
  have "\<not> list_ex P xs \<Longrightarrow> P x \<Longrightarrow> List.find P (xs @ [x]) = Some x" for P and x :: placement and xs
    by (induction xs) auto
  then show "\<not> has_tier e t \<Longrightarrow> placement_tier p = t \<Longrightarrow> ?thesis" by (simp add: has_tier_def entry_tier_def)
qed

context device_backend
begin

text \<open>On any backend that keeps the contract, a new accelerator placement holds the payload.\<close>

lemma accelerator_copy:
  assumes be: "registry_get ops i (tc_backends c) = Some b" "inv b"
    and e: "tc_entries c (oid_to_hex oid) = Some e" "\<not> has_tier e (Accelerator i)" "en_byte_len e = of_nat (length bytes)"
    and len: "length bytes < 2 ^ 63" and run: "add_placement ops oid (Accelerator i) bytes c = (Inr (), c')"
  shows "materialize_from ops oid (Accelerator i) c' = (Inr bytes, c')"
proof -
  have i: "be_id ops b = i" by (rule registry_get_id [OF be(1)])
  have n: "unat (of_nat (length bytes) :: u64) = length bytes" using len by (simp add: word_nat)
  have add: "add_accelerator ops oid i bytes c = (Inr (), c')"
    using run e by (simp add: add_placement_def get_meta_def)
  obtain dev b1 where al: "be_allocate ops (of_nat (length bytes)) b = (Inr dev, b1)"
    using add be(1) by (auto simp: add_accelerator_def backend_def split: prod.splits sum.splits)
  from alloc_ok [OF be(2) al] n i obtain old where a: "inv b1" "holds b1 dev old" "be_id ops b1 = i" "db_backend dev = i" "length bytes = length old"
    by auto
  from to_device_ok [OF a(1,2,5)] obtain dev' b2 where
    td: "be_to_device ops bytes dev b1 = ((Inr (), dev'), b2)" "inv b2" "holds b2 dev' bytes" "be_id ops b2 = i" "db_backend dev' = i"
    using a(3,4) by auto
  let ?c = "put_backend ops i b2 c\<lparr>tc_accel_used := tc_accel_used (put_backend ops i b2 c) + of_nat (length bytes)\<rparr>"
  let ?e = "e\<lparr>en_placements := en_placements e @ [PAccelerator dev']\<rparr>"
  have c': "c' = push_placement oid (PAccelerator dev') ?c"
    using add be(1) al td(1) by (simp add: add_accelerator_def backend_def Let_def)
  have "tc_entries ?c (oid_to_hex oid) = Some e" using e(1) by simp
  from upd_entry_entries [OF this] have "tc_entries c' (oid_to_hex oid) = Some ?e"
    unfolding c' push_placement_def by simp
  moreover have "entry_tier ?e (Accelerator i) = Some (PAccelerator dev')"
    using e(2) td(5) by (intro find_append_new) simp_all
  moreover have "registry_get ops i (tc_backends c') = Some b2"
    using registry_get_put [OF be(1) td(4)]
    by (simp add: c' push_placement_def upd_entry_def put_backend_def split: option.splits)
  moreover have "be_device_to_host ops dev' (replicate (length bytes) 0) b2 = Inr bytes"
    by (rule to_host_ok [OF td(2,3)]) simp
  ultimately show ?thesis
    using len e(3) n by (simp add: materialize_from_def get_meta_def from_device_def backend_def vec_zeroed_def)
qed

end

section \<open>Reachable caches\<close>

text \<open>A cache is opened on some directory and then runs commands.\<close>

inductive reachable :: "'b backend_ops \<Rightarrow> nat \<Rightarrow> 'b cache \<Rightarrow> bool" for ops where
  opened: "with_backends ops cpu cfg extra disk blocks manifests names clock iter = Inr c \<Longrightarrow> reachable ops 0 c"
| command: "reachable ops n c \<Longrightarrow> cmd_ok cmd \<Longrightarrow> reachable ops (Suc n) (exec ops cmd c)"

lemma initial_budgets: "budgets_for cfg (initial_accounting ops cfg extra)"
  using accounting_new_inv [of "accel_capacity ops cfg extra" "rc_persistent_capacity cfg" "rc_host_capacity cfg"]
  by (simp add: budgets_for_def initial_accounting_def)
     (simp add: set_tier_capacity_def set_capacity_def accounting_new_def budget_default_def)

definition sound :: "nat \<Rightarrow> 'b cache \<Rightarrow> bool" where
  "sound n c \<longleftrightarrow> budgets_ok c \<and> refs_ok n c \<and> entries_ok c"

text \<open>The cache before it recovers its directory.\<close>

definition blank ::
  "'b backend_ops \<Rightarrow> (usize \<Rightarrow> u64 \<Rightarrow> 'b) \<Rightarrow> runtime_config \<Rightarrow> 'b list \<Rightarrow> (nat \<Rightarrow> u64) \<Rightarrow>
    ((string \<rightharpoonup> entry) \<Rightarrow> string list) \<Rightarrow> store option \<Rightarrow> 'b cache" where
  "blank ops cpu cfg extra clock iter persistent =
     \<lparr>tc_entries = Map.empty, tc_host = arena_new, tc_persistent_refs = Map.empty, tc_storage_used = 0,
      tc_accel_used = 0, tc_accounting = initial_accounting ops cfg extra, tc_object_count = 0,
      tc_backends = fold registry_register extra (registry_register (cpu 0 (rc_host_capacity cfg)) []), tc_config = cfg,
      tc_persistent = persistent, tc_clock = clock, tc_ticks = 0, tc_iter = iter\<rparr>"

lemma recover_Inr: "\<exists>rep. fst (recover names c) = Inr rep"
  by (cases "tc_persistent c") (simp_all add: recover_def case_prod_beta)

lemma with_backends_cases:
  assumes "with_backends ops cpu cfg extra disk blocks manifests names clock iter = Inr c"
  obtains p where "c = snd (recover names (blank ops cpu cfg extra clock iter p))"
    "p = (if rc_persistent_path cfg = None then None else Some (snd (store_open blocks manifests disk)))"
proof -
  let ?o = "case rc_persistent_path cfg of None \<Rightarrow> Inr None
    | Some _ \<Rightarrow> (case store_open blocks manifests disk of (Inl e, _) \<Rightarrow> Inl e | (Inr _, st) \<Rightarrow> Inr (Some st))"
  obtain p where p: "?o = Inr p" "and_then (fst (recover names (blank ops cpu cfg extra clock iter p)))
      (\<lambda>_. Inr (snd (recover names (blank ops cpu cfg extra clock iter p)))) = Inr c"
    using assms by (auto simp: with_backends_def blank_def Let_def case_prod_beta and_then_Inr_iff split: if_splits)
  have "p = (if rc_persistent_path cfg = None then None else Some (snd (store_open blocks manifests disk)))"
    using p(1) by (auto split: option.splits prod.splits sum.splits)
  with p(2) show thesis by (intro that) (auto simp: res)
qed

lemma with_backends_opens:
  assumes "rc_block_size cfg \<noteq> 0" "rc_persistent_path cfg \<noteq> None" "store_open blocks manifests disk = (Inr (), st)"
  shows "with_backends ops cpu cfg extra disk blocks manifests names clock iter =
    Inr (snd (recover names (blank ops cpu cfg extra clock iter (Some st))))"
proof -
  obtain rep where "fst (recover names (blank ops cpu cfg extra clock iter (Some st))) = Inr rep" using recover_Inr by blast
  then show ?thesis using assms by (auto simp: with_backends_def blank_def Let_def case_prod_beta)
qed

lemma opened_sound:
  assumes "with_backends ops cpu cfg extra disk blocks manifests names clock iter = Inr c"
  shows "sound 0 c"
proof -
  obtain p where c: "c = snd (recover names (blank ops cpu cfg extra clock iter p))" using with_backends_cases [OF assms] by blast
  have "sound 0 (blank ops cpu cfg extra clock iter p)"
    using initial_budgets [of cfg ops extra]
    by (simp add: blank_def sound_def budgets_ok_def refs_ok_def refs_by_def entries_ok_def)
  then show ?thesis
    unfolding sound_def c by (blast intro: acct.keep_recover refs.keep_recover desc.keep_recover)
qed

lemma reachable_sound: "reachable ops n c \<Longrightarrow> n * BMAX \<le> LIMIT \<Longrightarrow> sound (n * BMAX) c"
proof (induction rule: reachable.induct)
  case (opened cpu cfg extra disk blocks manifests names clock iter c)
  then show ?case using opened_sound by simp
next
  case (command n c cmd)
  then have "sound (n * BMAX) c" and le: "n * BMAX + BMAX \<le> LIMIT" by simp_all
  then show ?case
    using acct.keep_exec [of c "n * BMAX" cmd ops] refs.keep_exec [of "n * BMAX" c cmd ops] desc.keep_exec [of c "n * BMAX" cmd ops]
      command(2) by (simp add: sound_def add.commute)
qed

text \<open>What the invariants mean for a reader of the state.\<close>

lemma refs_ok_readable:
  assumes "refs_ok n c" "tc_entries c key = Some e" "PHost refs \<in> set (en_placements e)" "b \<in> set refs"
  shows "\<exists>data. arena_get (tc_host c) (br_content_hash b) = Inr data \<and> hash data = br_content_hash b"
proof -
  have fin: "finite (dom (tc_entries c))" and inv: "arena_inv (tc_host c)" and sub: "all_refs (tc_entries c) \<subseteq># arena_abs (tc_host c)"
    using assms(1) by (simp_all add: refs_ok_def)
  have "br_content_hash b \<in># host_refs e" using assms(3,4) by (force simp: host_refs_def)
  then have "br_content_hash b \<in># all_refs (tc_entries c)" using refs_by_remove [OF fin assms(2), of host_refs] by simp
  then have "br_content_hash b \<in># arena_abs (tc_host c)" using sub by (rule mset_subset_eqD [rotated])
  then obtain data where "ar_blocks (tc_host c) (br_content_hash b) = Some data"
    using arena.fetch_iff [OF inv] by (metis not_Some_eq)
  then show ?thesis using arena.fetch_key [OF inv] by (simp add: arena_get_def)
qed

lemma budgets_ok_bound:
  "budgets_ok c \<Longrightarrow> unat (acct_used k (tc_accounting c)) + unat (acct_reserved k (tc_accounting c)) \<le> unat (acct_capacity k (tc_accounting c))"
  by (drule budgets_ok_inv, cases k) (simp_all add: accounting_inv_def budget_inv_def acct_used_def acct_reserved_def acct_capacity_def)

end
