(* ===== verification/Node.thy ===== *)
theory Node
  imports Coordinator Cache_Correct
begin

text \<open>
  \<^verbatim>\<open>node.rs\<close>: a storage node, that is a cache with a coordinator and peers behind TCP connections.
  What the network does is an argument: a record of the calls the node makes on a state of its own, so
  that a theorem can let it do anything.  A method works on the node and the network together.
\<close>

section \<open>Connections\<close>

text \<open>\<open>nt_connect\<close> is \<open>parse\<close> and \<open>connect_timeout\<close>, \<open>nt_write\<close> is \<open>write_all\<close> and \<open>flush\<close>; both fail with the
  text of an I/O error.  \<open>nt_inbound\<close> is what reads on the connection will deliver and \<open>nt_consume\<close> leaves the rest.\<close>

record 'w net =
  nt_connect :: "string \<Rightarrow> 'w \<Rightarrow> (string + nat) \<times> 'w"
  nt_write :: "nat \<Rightarrow> u8 list \<Rightarrow> 'w \<Rightarrow> (string + unit) \<times> 'w"
  nt_inbound :: "nat \<Rightarrow> 'w \<Rightarrow> stream"
  nt_consume :: "nat \<Rightarrow> stream \<Rightarrow> 'w \<Rightarrow> 'w"

definition io_result :: "(string + 'a) \<times> 'w \<Rightarrow> 'a result \<times> 'w" where
  "io_result rw = (case rw of (Inl m, w) \<Rightarrow> (Inl (Io m), w) | (Inr x, w) \<Rightarrow> (Inr x, w))"

definition connect :: "'w net \<Rightarrow> string \<Rightarrow> 'w \<Rightarrow> nat result \<times> 'w" where
  "connect net addr w = io_result (nt_connect net addr w)"

definition send_frame :: "'w net \<Rightarrow> nat \<Rightarrow> message \<Rightarrow> 'w \<Rightarrow> unit result \<times> 'w" where
  "send_frame net cn msg w = io_result (nt_write net cn (msg_encode_frame msg) w)"

definition recv_frame :: "'w net \<Rightarrow> nat \<Rightarrow> 'w \<Rightarrow> (msg_type \<times> u8 list) option result \<times> 'w" where
  "recv_frame net cn w = (let (r, es) = read_frame (nt_inbound net cn w) in (r, nt_consume net cn es w))"

text \<open>A reply: a missing frame is the error \<open>closed\<close>.\<close>

definition recv_reply :: "'w net \<Rightarrow> nat \<Rightarrow> string \<Rightarrow> 'w \<Rightarrow> message result \<times> 'w" where
  "recv_reply net cn closed =
     st_then (recv_frame net cn) (\<lambda>f. case f of
         None \<Rightarrow> Pair (Inl (Protocol closed))
       | Some (t, payload) \<Rightarrow> Pair (msg_decode t payload))"

section \<open>The node\<close>

record 'b node =
  nd_id :: string
  nd_addr :: string
  nd_coordinator_addr :: string
  nd_tc :: "'b cache"
  nd_lease_ns :: u64

type_synonym ('b, 'w, 'a) nop = "'b node \<times> 'w \<Rightarrow> 'a result \<times> 'b node \<times> 'w"

definition on_tc :: "('b, 'a) op \<Rightarrow> ('b, 'w, 'a) nop" where
  "on_tc f = (\<lambda>(n, w). let (r, c) = f (nd_tc n) in (r, n\<lparr>nd_tc := c\<rparr>, w))"

definition on_net :: "('b node \<Rightarrow> 'w \<Rightarrow> 'a result \<times> 'w) \<Rightarrow> ('b, 'w, 'a) nop" where
  "on_net f = (\<lambda>(n, w). let (r, w) = f n w in (r, n, w))"

definition with_tc :: "('b cache \<Rightarrow> 'a result) \<Rightarrow> ('b, 'w, 'a) nop" where
  "with_tc f = (\<lambda>(n, w). (f (nd_tc n), n, w))"

definition coordinator_roundtrip :: "'w net \<Rightarrow> message \<Rightarrow> ('b, 'w, message) nop" where
  "coordinator_roundtrip net req =
     on_net (\<lambda>n.
       st_then (connect net (nd_coordinator_addr n)) (\<lambda>cn.
       st_then (send_frame net cn req) (\<lambda>_.
       recv_reply net cn ''coordinator closed connection'')))"

definition node_register :: "'w net \<Rightarrow> ('b, 'w, message) nop" where
  "node_register net = (\<lambda>(n, w). coordinator_roundtrip net (Register (nd_id n) (nd_addr n)) (n, w))"

fun msg_debug :: "msg_type \<Rightarrow> string" where
  "msg_debug TRegister = ''Register''"
| "msg_debug THello = ''Hello''"
| "msg_debug TLookup = ''Lookup''"
| "msg_debug TLookupResult = ''LookupResult''"
| "msg_debug TCreate = ''Create''"
| "msg_debug TCreateAck = ''CreateAck''"
| "msg_debug TLeaseRenew = ''LeaseRenew''"
| "msg_debug TLeaseGrant = ''LeaseGrant''"
| "msg_debug TFetch = ''Fetch''"
| "msg_debug TFetchReply = ''FetchReply''"
| "msg_debug TStore = ''Store''"
| "msg_debug TStoreAck = ''StoreAck''"
| "msg_debug TMigrate = ''Migrate''"
| "msg_debug TMigrateAck = ''MigrateAck''"
| "msg_debug THeartbeat = ''Heartbeat''"
| "msg_debug TError = ''Error''"

definition unexpected :: "string \<Rightarrow> message \<Rightarrow> error" where
  "unexpected what other = Protocol (''unexpected '' @ what @ '' reply '' @ msg_debug (msg_type_of other))"

definition fetch_from :: "'w net \<Rightarrow> string \<Rightarrow> string \<Rightarrow> u8 list \<Rightarrow> ('b, 'w, u8 list) nop" where
  "fetch_from net owner_addr obj cpt =
     on_net (\<lambda>n.
       st_then (connect net owner_addr) (\<lambda>cn.
       st_then (send_frame net cn (Fetch obj cpt)) (\<lambda>_.
       st_then (recv_reply net cn ''owner closed connection'') (\<lambda>reply.
       case reply of
         FetchReply _ data crc \<Rightarrow>
           if crc32c data \<noteq> crc then Pair (Inl (Integrity ''fetch payload CRC mismatch'')) else Pair (Inr data)
       | ErrorMsg _ m \<Rightarrow> Pair (Inl (Protocol m))
       | other \<Rightarrow> Pair (Inl (unexpected ''fetch'' other))))))"

definition store_to :: "'w net \<Rightarrow> string \<Rightarrow> string \<Rightarrow> string \<Rightarrow> u64 \<Rightarrow> u8 list \<Rightarrow> u8 list \<Rightarrow> ('b, 'w, unit) nop" where
  "store_to net peer_addr namespace key generation cpt data =
     on_net (\<lambda>n.
       st_then (connect net peer_addr) (\<lambda>cn.
       st_then (send_frame net cn (Store namespace key generation data (crc32c data) cpt (nd_id n))) (\<lambda>_.
       st_then (recv_reply net cn ''peer closed connection'') (\<lambda>reply.
       case reply of
         StoreAck _ \<Rightarrow> Pair (Inr ())
       | ErrorMsg _ m \<Rightarrow> Pair (Inl (Protocol (''store rejected by peer: '' @ m)))
       | other \<Rightarrow> Pair (Inl (unexpected ''store'' other))))))"

definition migrate ::
  "'b backend_ops \<Rightarrow> 'w net \<Rightarrow> string \<Rightarrow> string \<Rightarrow> string \<Rightarrow> u64 \<Rightarrow> ('b, 'w, unit) nop" where
  "migrate ops net obj new_owner new_owner_addr fence =
     st_then (on_net (\<lambda>n. connect net (nd_coordinator_addr n))) (\<lambda>cn.
     st_then (on_net (\<lambda>_. send_frame net cn (Migrate obj new_owner new_owner_addr fence))) (\<lambda>_.
     st_then (on_net (\<lambda>_. recv_reply net cn ''coordinator closed during migration'')) (\<lambda>instr.
     case instr of
       Migrate obj new_owner _ fence \<Rightarrow>
         st_then (Pair (oid_from_hex obj)) (\<lambda>oid.
         st_then (with_tc (\<lambda>c. metadata c oid)) (\<lambda>meta.
         st_then (with_tc (\<lambda>c. entry_compat c oid)) (\<lambda>cpt.
         st_then (on_tc (restore ops oid Host)) (\<lambda>data.
         st_then (store_to net new_owner_addr (em_namespace meta) (em_key meta) (em_generation meta) (compat_encode cpt) data) (\<lambda>_.
         on_net (\<lambda>_. send_frame net cn (MigrateAck obj new_owner fence)))))))
     | ErrorMsg _ m \<Rightarrow> Pair (Inl (Protocol m))
     | other \<Rightarrow> Pair (Inl (unexpected ''migrate'' other)))))"

section \<open>Serving peers\<close>

text \<open>Registration of a stored object; an object that is already here has to be the same.\<close>

definition store_local ::
  "'b backend_ops \<Rightarrow> string \<Rightarrow> string \<Rightarrow> u64 \<Rightarrow> compat_key \<Rightarrow> u8 list \<Rightarrow> ('b, 'w, unit) nop" where
  "store_local ops namespace key generation k data s =
     (let oid = object_id (address_new namespace key generation) in
      case on_tc (register ops namespace key generation k data) s of
        (Inr _, s) \<Rightarrow> (Inr (), s)
      | (Inl (Exists _), s) \<Rightarrow>
          st_then (with_tc (\<lambda>c. entry_compat_id c oid)) (\<lambda>stored.
          if stored \<noteq> compat_id k
          then Pair (Inl (Compatibility ''store conflicts with an existing incompatible object''))
          else
            st_then (on_tc (restore ops oid Host)) (\<lambda>existing.
            if existing \<noteq> data
            then Pair (Inl (Integrity ''store payload differs from the existing object''))
            else Pair (Inr ()))) s
      | (Inl e, s) \<Rightarrow> (Inl e, s))"

definition peer_store ::
  "'b backend_ops \<Rightarrow> 'w net \<Rightarrow> string \<Rightarrow> string \<Rightarrow> u64 \<Rightarrow> u8 list \<Rightarrow> u32 \<Rightarrow> u8 list \<Rightarrow> ('b, 'w, message list) nop" where
  "peer_store ops net namespace key generation data crc cpt =
     (if crc \<noteq> crc32c data then Pair (Inl (Integrity ''Store payload CRC mismatch''))
      else
        st_then (Pair (compat_decode cpt)) (\<lambda>k.
        st_then (store_local ops namespace key generation k data) (\<lambda>_.
        st_then (coordinator_roundtrip net (Lookup namespace key generation cpt)) (\<lambda>lk.
        st_then (case lk of
            LookupResult False _ _ _ \<Rightarrow> (\<lambda>(n, w).
              st_then (coordinator_roundtrip net (Create namespace key generation (of_nat (length data)) cpt (nd_id n)))
                (\<lambda>_. Pair (Inr ())) (n, w))
          | _ \<Rightarrow> Pair (Inr ())) (\<lambda>_.
        Pair (Inr [StoreAck (oid_to_hex (object_id (address_new namespace key generation)))]))))))"

definition peer_fetch :: "'b backend_ops \<Rightarrow> string \<Rightarrow> u8 list \<Rightarrow> ('b, 'w, message list) nop" where
  "peer_fetch ops obj cpt =
     st_then (Pair (oid_from_hex obj)) (\<lambda>oid.
     st_then (with_tc (\<lambda>c. entry_compat_id c oid)) (\<lambda>stored.
     st_then (Pair (compat_decode cpt)) (\<lambda>k.
     if stored \<noteq> compat_id k
     then Pair (Inl (Compatibility (''object '' @ oid_to_hex oid @ '' is not compatible with request'')))
     else
       st_then (on_tc (restore ops oid Host)) (\<lambda>bytes.
       Pair (Inr [FetchReply obj bytes (crc32c bytes)])))))"

text \<open>A lookup that the coordinator answers with another owner fetches a replica; an error of its registration
  is dropped.\<close>

definition peer_lookup ::
  "'b backend_ops \<Rightarrow> 'w net \<Rightarrow> string \<Rightarrow> string \<Rightarrow> u64 \<Rightarrow> u8 list \<Rightarrow> ('b, 'w, message list) nop" where
  "peer_lookup ops net namespace key generation cpt =
     st_then (coordinator_roundtrip net (Lookup namespace key generation cpt)) (\<lambda>lk.
     case lk of
       LookupResult True owner owner_addr generation \<Rightarrow> (\<lambda>(n, w).
         (if owner = Some (nd_id n) then Pair (Inr [LookupResult True owner (Some (nd_addr n)) generation])
          else
            (case owner_addr of
               Some addr \<Rightarrow>
                 st_then (fetch_from net addr (oid_to_hex (object_id (address_new namespace key generation))) cpt) (\<lambda>data.
                 st_then (Pair (compat_decode cpt)) (\<lambda>k s.
                 case on_tc (register ops namespace key generation k data) s of
                   (Inl (Panic m), s) \<Rightarrow> (Inl (Panic m), s)
                 | (_, s) \<Rightarrow> (Inr [LookupResult True owner (Some addr) generation], s)))
             | None \<Rightarrow> Pair (Inr [LookupResult True owner None generation]))) (n, w))
     | LookupResult False _ _ generation \<Rightarrow> Pair (Inr [LookupResult False None None generation])
     | other \<Rightarrow> Pair (Inl (unexpected ''coordinator'' other)))"

fun handle_peer :: "'b backend_ops \<Rightarrow> 'w net \<Rightarrow> message \<Rightarrow> ('b, 'w, message list) nop" where
  "handle_peer ops net (Register _ _) = Pair (Inl (Protocol ''nodes do not serve Register''))"
| "handle_peer ops net (Store namespace key generation data crc cpt source) =
     peer_store ops net namespace key generation data crc cpt"
| "handle_peer ops net (Fetch obj cpt) = peer_fetch ops obj cpt"
| "handle_peer ops net (Lookup namespace key generation cpt) = peer_lookup ops net namespace key generation cpt"
| "handle_peer ops net (CreateAck obj epoch fence owner) = Pair (Inr [CreateAck obj epoch fence owner])"
| "handle_peer ops net (Migrate obj new_owner new_owner_addr fence) =
     st_then (migrate ops net obj new_owner new_owner_addr fence) (\<lambda>_.
     Pair (Inr [MigrateAck obj new_owner fence]))"
| "handle_peer ops net msg =
     Pair (Inr [ErrorMsg ''unsupported'' (''node does not handle '' @ show_w (msg_tag (msg_type_of msg)))])"

text \<open>\<open>split_once('@')\<close>.\<close>

fun split_once :: "char \<Rightarrow> string \<Rightarrow> (string \<times> string) option" where
  "split_once c [] = None"
| "split_once c (x # xs) = (if x = c then Some ([], xs) else map_option (\<lambda>(a, b). (x # a, b)) (split_once c xs))"

definition parse_node_ref :: "string \<Rightarrow> (string \<times> string) result" where
  "parse_node_ref s = ok_or (split_once (CHR ''@'') s) (InvalidArgument ''node reference must be id@addr'')"

section \<open>Every message keeps the cache reachable\<close>

text \<open>A method that runs at most \<open>k\<close> commands on the cache, whatever the network does.\<close>

definition commands :: "'b backend_ops \<Rightarrow> nat \<Rightarrow> ('b, 'w, 'a) nop \<Rightarrow> bool" where
  "commands ops k f \<longleftrightarrow> (\<forall>n nd w r nd' w'. f (nd, w) = (r, nd', w') \<longrightarrow> reachable ops n (nd_tc nd) \<longrightarrow>
     (\<exists>m \<le> n + k. reachable ops m (nd_tc nd')) \<and> nd' = nd\<lparr>nd_tc := nd_tc nd'\<rparr>)"

named_theorems commands

lemma reachable_within: "reachable ops n c \<Longrightarrow> n \<le> j \<Longrightarrow> \<exists>m \<le> j. reachable ops m c"
  by blast

lemma only_cache_trans: "nd1 = nd\<lparr>nd_tc := x\<rparr> \<Longrightarrow> nd' = nd1\<lparr>nd_tc := y\<rparr> \<Longrightarrow> nd' = nd\<lparr>nd_tc := y\<rparr>"
  by simp

lemma commands_Pair [commands]: "commands ops k (Pair r)"
  by (auto simp: commands_def intro: reachable_within)

lemma commands_on_net [commands]: "commands ops k (on_net f)"
  by (auto simp: commands_def on_net_def Let_def intro: reachable_within split: prod.splits)

lemma commands_with_tc [commands]: "commands ops k (with_tc f)"
  by (auto simp: commands_def with_tc_def intro: reachable_within)

lemma commands_cmd:
  assumes "cmd_ok cmd" "\<And>c. exec ops cmd c = snd (f c)"
  shows "commands ops (Suc k) (on_tc f)"
proof -
  have "\<exists>m \<le> n + Suc k. reachable ops m (snd (f c))" if "reachable ops n c" for n c
    using reachable.command [OF that assms(1)] by (intro reachable_within [of ops "Suc n"]) (simp_all add: assms(2))
  then show ?thesis
    by (auto simp: commands_def on_tc_def Let_def split: prod.splits) (metis snd_conv)
qed

lemma commands_restore [commands]: "commands ops (Suc k) (on_tc (restore ops oid t))"
  by (rule commands_cmd [of "CRestore oid t"]) simp_all

lemma commands_register: "rust_key k \<Longrightarrow> commands ops 1 (on_tc (register ops namespace key generation k data))"
  unfolding One_nat_def by (rule commands_cmd [of "CRegister namespace key generation k data"]) simp_all

lemma commands_then:
  assumes "commands ops a f" "\<And>x. commands ops b (g x)" "a + b \<le> k"
  shows "commands ops k (st_then f g)"
  unfolding commands_def
proof (intro allI impI)
  fix n nd w r nd' w'
  assume run: "st_then f g (nd, w) = (r, nd', w')" and n: "reachable ops n (nd_tc nd)"
  obtain r1 nd1 w1 where f: "f (nd, w) = (r1, nd1, w1)" by (metis prod_cases3)
  obtain m where m: "m \<le> n + a" "reachable ops m (nd_tc nd1)" "nd1 = nd\<lparr>nd_tc := nd_tc nd1\<rparr>"
    using assms(1) f n unfolding commands_def by blast
  show "(\<exists>m \<le> n + k. reachable ops m (nd_tc nd')) \<and> nd' = nd\<lparr>nd_tc := nd_tc nd'\<rparr>"
  proof (cases r1)
    case (Inl e)
    then show ?thesis using run f m assms(3) by (auto simp: st_then_def intro!: exI [of _ m])
  next
    case (Inr x)
    then have "g x (nd1, w1) = (r, nd', w')" using run f by (simp add: st_then_def)
    from assms(2) [unfolded commands_def, rule_format, OF this m(2)] obtain m' where
      m': "m' \<le> m + b" "reachable ops m' (nd_tc nd')" "nd' = nd1\<lparr>nd_tc := nd_tc nd'\<rparr>" by blast
    have "m' \<le> n + k" using m(1) m'(1) assms(3) by simp
    with m'(2) only_cache_trans [OF m(3) m'(3)] show ?thesis by blast
  qed
qed

lemma commands_mono: "commands ops j f \<Longrightarrow> j \<le> k \<Longrightarrow> commands ops k f"
  unfolding commands_def by (meson add_left_mono order_trans)

lemma commands_then0 [commands]: "commands ops 0 f \<Longrightarrow> (\<And>x. commands ops k (g x)) \<Longrightarrow> commands ops k (st_then f g)"
  by (rule commands_then [of ops 0 f k]) simp_all

lemma commands_then_restore [commands]:
  "(\<And>x. commands ops k (g x)) \<Longrightarrow> commands ops (Suc k) (st_then (on_tc (restore ops oid t)) g)"
  by (rule commands_then [of _ "Suc 0" _ k]) (simp_all add: commands_restore)

lemma commands_node: "(\<And>n. commands ops k (f n)) \<Longrightarrow> commands ops k (\<lambda>(n, w). f n (n, w))"
  by (auto simp: commands_def)

lemma commands_roundtrip [commands]: "commands ops k (coordinator_roundtrip net req)"
  by (simp add: coordinator_roundtrip_def commands)

lemma commands_peer [commands]:
  "commands ops k (fetch_from net owner_addr obj cpt)" "commands ops k (store_to net peer_addr namespace key generation cpt data)"
  by (simp_all add: fetch_from_def store_to_def commands)

lemma commands_migrate: "commands ops 1 (migrate ops net obj new_owner new_owner_addr fence)"
  unfolding migrate_def One_nat_def by (auto intro!: commands split: message.split)

lemma commands_store_local:
  assumes "rust_key k"
  shows "commands ops 2 (store_local ops namespace key generation k data)"
proof -
  let ?oid = "object_id (address_new namespace key generation)"
  let ?check = "st_then (with_tc (\<lambda>c. entry_compat_id c ?oid)) (\<lambda>stored.
      if stored \<noteq> compat_id k
      then Pair (Inl (Compatibility ''store conflicts with an existing incompatible object''))
      else
        st_then (on_tc (restore ops ?oid Host)) (\<lambda>existing.
        if existing \<noteq> data then Pair (Inl (Integrity ''store payload differs from the existing object'')) else Pair (Inr ())))"
  have check: "commands ops 1 ?check"
    unfolding One_nat_def by (auto intro!: commands)
  note reg = commands_register [OF assms, of ops namespace key generation data]
  show ?thesis
    unfolding commands_def
  proof (intro allI impI)
    fix n nd w r nd' w'
    assume run: "store_local ops namespace key generation k data (nd, w) = (r, nd', w')" and n: "reachable ops n (nd_tc nd)"
    obtain r1 nd1 w1 where f: "on_tc (register ops namespace key generation k data) (nd, w) = (r1, nd1, w1)" by (metis prod_cases3)
    obtain m where m: "m \<le> n + 1" "reachable ops m (nd_tc nd1)" "nd1 = nd\<lparr>nd_tc := nd_tc nd1\<rparr>"
      using reg [unfolded commands_def, rule_format, OF f n] by blast
    have "(nd', w') = (nd1, w1) \<or> ?check (nd1, w1) = (r, nd', w')"
      using run f by (auto simp: store_local_def Let_def split: sum.splits error.splits)
    then show "(\<exists>m \<le> n + 2. reachable ops m (nd_tc nd')) \<and> nd' = nd\<lparr>nd_tc := nd_tc nd'\<rparr>"
    proof
      assume "(nd', w') = (nd1, w1)"
      then show ?thesis using m by (auto intro!: exI [of _ m])
    next
      assume "?check (nd1, w1) = (r, nd', w')"
      from check [unfolded commands_def, rule_format, OF this m(2)] obtain m' where
        m': "m' \<le> m + 1" "reachable ops m' (nd_tc nd')" "nd' = nd1\<lparr>nd_tc := nd_tc nd'\<rparr>" by blast
      have "m' \<le> n + 2" using m(1) m'(1) by simp
      with m'(2) only_cache_trans [OF m(3) m'(3)] show ?thesis by blast
    qed
  qed
qed

lemma decode_rust_key: "compat_decode cpt = Inr k \<Longrightarrow> rust_key k"
  using decode_sound [of cpt k] by (simp add: valid_key_def)

text \<open>Only a key that was decoded reaches the cache.\<close>

lemma commands_decode:
  "(\<And>k. rust_key k \<Longrightarrow> commands ops j (f k)) \<Longrightarrow> commands ops j (st_then (Pair (compat_decode cpt)) f)"
  using decode_rust_key [of cpt] by (cases "compat_decode cpt") (auto simp: st_then_def [abs_def] commands_def intro: reachable_within)

lemma commands_register_dropped:
  assumes "rust_key k"
  shows "commands ops 1 (\<lambda>s. case on_tc (register ops namespace key generation k data) s of
    (Inl (Panic m), s) \<Rightarrow> (Inl (Panic m), s) | (_, s) \<Rightarrow> (Inr reply, s))"
proof -
  note reg = commands_register [OF assms, of ops namespace key generation data]
  show ?thesis
    unfolding commands_def
    by (auto split: prod.splits sum.splits error.splits dest!: reg [unfolded commands_def, rule_format])
qed

lemma commands_handle_peer: "commands ops 2 (handle_peer ops net msg)"
proof (cases msg)
  case (Store namespace key generation data crc cpt source)
  have "commands ops 2 (st_then (store_local ops namespace key generation k data) (\<lambda>_.
        st_then (coordinator_roundtrip net (Lookup namespace key generation cpt)) (\<lambda>lk.
        st_then (case lk of
            LookupResult False _ _ _ \<Rightarrow> (\<lambda>(n, w).
              st_then (coordinator_roundtrip net (Create namespace key generation (of_nat (length data)) cpt (nd_id n)))
                (\<lambda>_. Pair (Inr ())) (n, w))
          | _ \<Rightarrow> Pair (Inr ())) (\<lambda>_.
        Pair (Inr [StoreAck (oid_to_hex (object_id (address_new namespace key generation)))])))))" if "rust_key k" for k
    by (rule commands_then [OF commands_store_local [OF that], of _ 0])
       (auto intro!: commands commands_node split: message.split bool.split)
  then have "commands ops 2 (st_then (Pair (compat_decode cpt)) (\<lambda>k. st_then (store_local ops namespace key generation k data) (\<lambda>_.
        st_then (coordinator_roundtrip net (Lookup namespace key generation cpt)) (\<lambda>lk.
        st_then (case lk of
            LookupResult False _ _ _ \<Rightarrow> (\<lambda>(n, w).
              st_then (coordinator_roundtrip net (Create namespace key generation (of_nat (length data)) cpt (nd_id n)))
                (\<lambda>_. Pair (Inr ())) (n, w))
          | _ \<Rightarrow> Pair (Inr ())) (\<lambda>_.
        Pair (Inr [StoreAck (oid_to_hex (object_id (address_new namespace key generation)))]))))))"
    by (rule commands_decode)
  then show ?thesis by (simp add: Store peer_store_def commands_Pair)
next
  case (Fetch obj cpt)
  show ?thesis by (auto simp: Fetch peer_fetch_def numeral_2_eq_2 intro!: commands)
next
  case (Lookup namespace key generation cpt)
  have reg: "commands ops 2 (\<lambda>s. case on_tc (register ops namespace key g k data) s of
    (Inl (Panic m), s) \<Rightarrow> (Inl (Panic m), s) | (_, s) \<Rightarrow> (Inr reply, s))" if "rust_key k" for g k data reply
    using commands_register_dropped [OF that] by (rule commands_mono) simp
  show ?thesis
    by (auto simp: Lookup peer_lookup_def intro!: commands commands_node commands_decode reg split: message.split bool.split option.split)
next
  case (Migrate obj new_owner new_owner_addr fence)
  show ?thesis
    by (simp add: Migrate) (rule commands_then [OF commands_migrate, of _ 0]; simp add: commands)
qed (simp_all add: commands)

section \<open>What a fetch returns\<close>

lemma restore_reads:
  "restore ops oid t c = (Inr bytes, c') \<Longrightarrow>
     \<exists>e. tc_entries c (oid_to_hex oid) = Some e \<and> \<not> is_quarantined e \<and> fst (materialize_payload ops oid c) = Inr bytes"
  by (auto simp: restore_def entry_quarantined_def get_meta_def res split: if_splits)

lemma peer_fetch_Inr:
  assumes "peer_fetch ops obj cpt (nd, w) = (Inr rs, nd', w')"
  shows "\<exists>oid e k data. oid_from_hex obj = Inr oid \<and> tc_entries (nd_tc nd) (oid_to_hex oid) = Some e \<and>
    compat_decode cpt = Inr k \<and> en_compat_id e = compat_id k \<and> \<not> is_quarantined e \<and>
    fst (materialize_payload ops oid (nd_tc nd)) = Inr data \<and> rs = [FetchReply obj data (crc32c data)] \<and> w' = w"
  using assms
  by (auto simp: peer_fetch_def with_tc_def on_tc_def entry_compat_id_def get_meta_def res
      split: if_splits prod.splits dest!: restore_reads)

end
