(* ===== verification/Server.thy ===== *)
theory Server
  imports Node
begin

text \<open>
  \<^verbatim>\<open>server.rs\<close>: the connection loops of the coordinator and of a node.  A connection is the stream the
  server reads, the bytes it has written and the outcomes of its writes; the loops end because every frame
  consumes input.
\<close>

section \<open>Reading consumes the stream\<close>

definition event_size :: "io_event \<Rightarrow> nat" where
  "event_size e = (case e of Chunk bs \<Rightarrow> Suc (length bs) | _ \<Rightarrow> 1)"

abbreviation stream_size :: "stream \<Rightarrow> nat" where
  "stream_size es \<equiv> sum_list (map event_size es)"

lemma stream_read_size:
  "0 < k \<Longrightarrow> stream_read k es = (out, es') \<Longrightarrow> es \<noteq> [] \<Longrightarrow> stream_size es' < stream_size es"
  by (cases "(k, es)" rule: stream_read.cases) (auto simp: event_size_def split: if_splits)

lemma read_exact_or_eof_size:
  "read_exact_or_eof k es = (r, es') \<Longrightarrow>
     stream_size es' \<le> stream_size es \<and> (\<forall>bs. r = Inr bs \<longrightarrow> bs \<noteq> [] \<longrightarrow> stream_size es' < stream_size es)"
proof (induction k es arbitrary: r es' rule: read_exact_or_eof.induct)
  case (1 k es)
  obtain out es1 where rd: "stream_read k es = (out, es1)" by fastforce
  show ?case
  proof (cases "k = 0 \<or> es = []")
    case True
    then show ?thesis using 1(3) by (subst (asm) read_exact_or_eof.simps) (auto split: if_splits)
  next
    case False
    have lt: "stream_size es1 < stream_size es" using stream_read_size [OF _ rd] False by simp
    show ?thesis
    proof (cases out)
      case (ReadOk bs)
      show ?thesis
      proof (cases "bs = []")
        case True
        then show ?thesis using 1(3) rd ReadOk False lt by (subst (asm) read_exact_or_eof.simps) auto
      next
        case ne: False
        obtain r1 es2 where r1: "read_exact_or_eof (k - length bs) es1 = (r1, es2)" by fastforce
        have "stream_size es2 \<le> stream_size es1" using 1(1) [OF _ rd [symmetric] ReadOk ne r1] False by simp
        moreover have "es' = es2" using 1(3) rd ReadOk ne r1 False by (subst (asm) read_exact_or_eof.simps) (auto split: sum.splits)
        ultimately show ?thesis using lt by simp
      qed
    next
      case ReadInterrupted
      have "read_exact_or_eof k es1 = (r, es')" using 1(3) rd ReadInterrupted False by (subst (asm) read_exact_or_eof.simps) simp
      from 1(2) [OF _ rd [symmetric] ReadInterrupted this] False lt show ?thesis by fastforce
    next
      case (ReadErr m)
      then show ?thesis using 1(3) rd False lt by (subst (asm) read_exact_or_eof.simps) auto
    qed
  qed
qed

lemma read_exact_size: "read_exact k es = (r, es') \<Longrightarrow> stream_size es' \<le> stream_size es"
proof (induction k es arbitrary: r es' rule: read_exact.induct)
  case (1 k es)
  obtain out es1 where rd: "stream_read k es = (out, es1)" by fastforce
  show ?case
  proof (cases "k = 0 \<or> es = []")
    case True
    then show ?thesis using 1(3) by (subst (asm) read_exact.simps) (auto split: if_splits)
  next
    case False
    have lt: "stream_size es1 < stream_size es" using stream_read_size [OF _ rd] False by simp
    then show ?thesis
      using 1(3) rd False 1(1) [OF _ rd [symmetric]] 1(2) [OF _ rd [symmetric]]
      by (subst (asm) read_exact.simps) (fastforce split: read_outcome.splits if_splits sum.splits prod.splits)
  qed
qed

lemma read_frame_size: "read_frame es = (Inr (Some f), es') \<Longrightarrow> stream_size es' < stream_size es"
  by (auto simp: read_frame_def st_then_Inr_iff Let_def split: if_splits
      dest!: read_exact_or_eof_size read_exact_size)

section \<open>The loop of a connection\<close>

text \<open>What a server writes, and the outcome of each write that is still to come: \<open>Some (n, m)\<close> is an error after \<open>n\<close>
  bytes.  No outcome left means that the write works.\<close>

record wconn =
  wc_out :: "u8 list"
  wc_faults :: "(nat \<times> string) option list"

definition write_to :: "message \<Rightarrow> wconn \<Rightarrow> unit result \<times> wconn" where
  "write_to msg wc =
     (let (f, fs) = (case wc_faults wc of [] \<Rightarrow> (None, []) | f # fs \<Rightarrow> (f, fs));
          (r, out) = write_frame f msg (wc_out wc)
      in (r, wc\<lparr>wc_out := out, wc_faults := fs\<rparr>))"

text \<open>Both loops have one shape: a turn maps a message to responses and a new state.  An error of a turn is a
  panic, which ends the thread of the connection.\<close>

function serve_loop ::
  "(message \<Rightarrow> 's \<Rightarrow> message list result \<times> 's) \<Rightarrow> stream \<Rightarrow> wconn \<Rightarrow> 's \<Rightarrow> unit result \<times> wconn \<times> 's" where
  "serve_loop turn es wc s =
     (case read_frame es of
        (Inr (Some (t, payload)), es') \<Rightarrow>
          (case msg_decode t payload of
             Inl e \<Rightarrow> (Inr (), snd (write_to (ErrorMsg ''protocol'' (error_display e)) wc), s)
           | Inr msg \<Rightarrow>
               (case turn msg s of
                  (Inl e, s) \<Rightarrow> (Inl e, wc, s)
                | (Inr responses, s) \<Rightarrow>
                    (case fold_st write_to responses wc of
                       (Inl e, wc) \<Rightarrow> (Inl e, wc, s)
                     | (Inr _, wc) \<Rightarrow> serve_loop turn es' wc s)))
      | _ \<Rightarrow> (Inr (), wc, s))"
  by pat_completeness auto

termination serve_loop
  by (relation "measure (\<lambda>(turn, es, wc, s). stream_size es)") (auto intro: read_frame_size dest: sym)

declare serve_loop.simps [simp del]

section \<open>The coordinator process\<close>

text \<open>\<open>sv_saves\<close> are the outcomes of the snapshot writes: the file gets the whole text, the first bytes of it, or is
  not touched.\<close>

datatype save_outcome = Saved | SaveCut nat | SaveFailed

record server =
  sv_coord :: coordinator
  sv_clock :: "nat \<Rightarrow> u64"
  sv_ticks :: nat
  sv_iter :: "coordinator \<Rightarrow> string list"
  sv_snapshot :: "u8 list option"
  sv_saves :: "save_outcome list"

definition save_snapshot :: "server \<Rightarrow> server" where
  "save_snapshot sv =
     (let bytes = save_state (sv_iter sv (sv_coord sv)) (sv_coord sv);
          (f, fs) = (case sv_saves sv of [] \<Rightarrow> (Saved, []) | f # fs \<Rightarrow> (f, fs));
          file = (case f of Saved \<Rightarrow> Some bytes | SaveCut n \<Rightarrow> Some (take n bytes) | SaveFailed \<Rightarrow> sv_snapshot sv)
      in sv\<lparr>sv_snapshot := file, sv_saves := fs\<rparr>)"

definition coordinator_turn :: "bool \<Rightarrow> message \<Rightarrow> server \<Rightarrow> message list result \<times> server" where
  "coordinator_turn snap msg sv =
     (let (r, c) = handle (sv_clock sv (sv_ticks sv)) msg (sv_coord sv);
          responses = (case r of Inr rs \<Rightarrow> rs | Inl e \<Rightarrow> [ErrorMsg (kind e) (error_display e)]);
          sv = sv\<lparr>sv_coord := c, sv_ticks := sv_ticks sv + 1\<rparr>
      in (Inr responses, if snap then save_snapshot sv else sv))"

definition serve_coordinator_connection :: "bool \<Rightarrow> stream \<Rightarrow> wconn \<Rightarrow> server \<Rightarrow> unit result \<times> wconn \<times> server" where
  "serve_coordinator_connection snap = serve_loop (coordinator_turn snap)"

text \<open>Start of the coordinator: \<open>file\<close> is the snapshot found under the given path.\<close>

definition start_coordinator :: "u64 \<Rightarrow> bool \<Rightarrow> u8 list result option \<Rightarrow> boot_id \<Rightarrow> boot_id \<Rightarrow> coordinator result" where
  "start_coordinator lease_ns snap file boot boot' =
     (let c = coord_new boot lease_ns in
      if snap then (case load_state file boot' c of (Inl e, _) \<Rightarrow> Inl e | (Inr _, c) \<Rightarrow> Inr c) else Inr c)"

section \<open>The node process\<close>

definition node_turn :: "'b backend_ops \<Rightarrow> 'w net \<Rightarrow> message \<Rightarrow> 'b node \<times> 'w \<Rightarrow> message list result \<times> 'b node \<times> 'w" where
  "node_turn ops net msg s =
     (case handle_peer ops net msg s of
        (Inl (Panic m), s) \<Rightarrow> (Inl (Panic m), s)
      | (Inl e, s) \<Rightarrow> (Inr [ErrorMsg (kind e) (error_display e)], s)
      | (Inr rs, s) \<Rightarrow> (Inr rs, s))"

definition serve_node_connection ::
  "'b backend_ops \<Rightarrow> 'w net \<Rightarrow> stream \<Rightarrow> wconn \<Rightarrow> 'b node \<times> 'w \<Rightarrow> unit result \<times> wconn \<times> 'b node \<times> 'w" where
  "serve_node_connection ops net = serve_loop (node_turn ops net)"

definition node_handshake :: "'w net \<Rightarrow> ('b, 'w, unit) nop" where
  "node_handshake net s =
     (case node_register net s of
        (Inr (Hello _ _ _ _ _), s) \<Rightarrow> (Inr (), s)
      | (Inr other, s) \<Rightarrow> (Inl (unexpected ''register'' other), s)
      | (Inl e, s) \<Rightarrow> (Inl (Io (''coordinator handshake failed: '' @ error_display e)), s))"

text \<open>The migrate command, a client of a node.\<close>

definition cmd_migrate_exchange :: "'w net \<Rightarrow> string \<Rightarrow> string \<Rightarrow> string \<Rightarrow> string \<Rightarrow> u64 \<Rightarrow> 'w \<Rightarrow> string result \<times> 'w" where
  "cmd_migrate_exchange net node_addr obj new_owner to_addr fence =
     st_then (connect net node_addr) (\<lambda>cn.
     st_then (send_frame net cn (Migrate obj new_owner to_addr fence)) (\<lambda>_.
     st_then (recv_reply net cn ''node closed'') (\<lambda>reply.
     case reply of
       MigrateAck obj new_owner _ \<Rightarrow> Pair (Inr (''migrated '' @ obj @ '' to '' @ new_owner))
     | ErrorMsg _ m \<Rightarrow> Pair (Inl (Protocol m))
     | other \<Rightarrow> Pair (Inl (Protocol (''unexpected reply '' @ msg_debug (msg_type_of other)))))))"

lemma save_snapshot_coord [simp]: "sv_coord (save_snapshot sv) = sv_coord sv"
  by (simp add: save_snapshot_def Let_def split: prod.splits)

section \<open>From bytes to messages\<close>

definition sendable :: "message \<Rightarrow> bool" where
  "sendable m \<longleftrightarrow> msg_ok m \<and> length (msg_encode m) \<le> unat MAX_FRAME"

definition wire :: "message list \<Rightarrow> u8 list" where
  "wire ms = concat (map msg_encode_frame ms)"

lemma wire_simps [simp]: "wire [] = []" "wire (m # ms) = msg_encode_frame m @ wire ms" "wire (xs @ ys) = wire xs @ wire ys"
  by (simp_all add: wire_def)

lemma read_frame_sendable:
  assumes "clean es" "stream_bytes es = msg_encode_frame m @ rest" "sendable m"
  obtains es' where "read_frame es = (Inr (Some (msg_type_of m, msg_encode m)), es')" "clean es'" "stream_bytes es' = rest"
  using read_frame_written [OF assms(1), of "msg_type_of m" "msg_encode m" rest] assms(2,3)
  by (auto simp: sendable_def msg_encode_frame_def)

lemma write_frames: "wc_faults wc = [] \<Longrightarrow> fold_st write_to rs wc = (Inr (), wc\<lparr>wc_out := wc_out wc @ wire rs\<rparr>)"
  by (induction rs arbitrary: wc) (auto simp: write_to_def write_frame_def st_then_def)

text \<open>The server as a machine over messages: what it answers to a list of messages.\<close>

fun turns :: "(message \<Rightarrow> 's \<Rightarrow> message list result \<times> 's) \<Rightarrow> message list \<Rightarrow> 's \<Rightarrow> message list result \<times> 's" where
  "turns turn [] s = (Inr [], s)"
| "turns turn (m # ms) s = st_then (turn m) (\<lambda>rs. st_then (turns turn ms) (\<lambda>rs'. Pair (Inr (rs @ rs')))) s"

text \<open>The loop over bytes implements that machine, however the network cuts the bytes.\<close>

lemma serve_loop_turns:
  assumes "clean es" "stream_bytes es = wire ms" "\<forall>m \<in> set ms. sendable m" "wc_faults wc = []"
    "turns turn ms s = (Inr rs, s')"
  shows "serve_loop turn es wc s = (Inr (), wc\<lparr>wc_out := wc_out wc @ wire rs\<rparr>, s')"
  using assms
proof (induction ms arbitrary: es wc s rs)
  case Nil
  then obtain es' where "read_frame es = (Inr None, es')" using read_frame_eof [of es] by auto
  with Nil show ?case by (simp add: serve_loop.simps)
next
  case (Cons m ms)
  have bytes: "stream_bytes es = msg_encode_frame m @ wire ms" and m: "sendable m" using Cons.prems(2,3) by simp_all
  obtain es' where r: "read_frame es = (Inr (Some (msg_type_of m, msg_encode m)), es')" "clean es'" "stream_bytes es' = wire ms"
    by (rule read_frame_sendable [OF Cons.prems(1) bytes m])
  from Cons.prems(5) obtain rs1 s1 rs2 where t: "turn m s = (Inr rs1, s1)" "turns turn ms s1 = (Inr rs2, s')" "rs = rs1 @ rs2"
    by (auto simp: st_then_Inr_iff)
  have "msg_decode (msg_type_of m) (msg_encode m) = Inr m" using m by (simp add: sendable_def msg_decode_encode)
  then have "serve_loop turn es wc s = serve_loop turn es' (wc\<lparr>wc_out := wc_out wc @ wire rs1\<rparr>) s1"
    using r(1) t(1) write_frames [OF Cons.prems(4), of rs1] by (subst serve_loop.simps) simp
  also have "\<dots> = (Inr (), wc\<lparr>wc_out := wc_out wc @ wire rs\<rparr>, s')"
    using Cons.IH [OF r(2,3) _ _ t(2), of "wc\<lparr>wc_out := wc_out wc @ wire rs1\<rparr>"] Cons.prems(3,4) by (simp add: t(3))
  finally show ?case .
qed

text \<open>Input that is not a frame ends the loop and reaches no handler.\<close>

lemma serve_loop_refused: "read_frame es = (Inl e, es') \<Longrightarrow> serve_loop turn es wc s = (Inr (), wc, s)"
  by (simp add: serve_loop.simps)

section \<open>A turn and its snapshot\<close>

text \<open>What the next write of the snapshot does.\<close>

definition next_save :: "server \<Rightarrow> save_outcome" where
  "next_save sv = (case sv_saves sv of [] \<Rightarrow> Saved | f # _ \<Rightarrow> f)"

lemma coordinator_turn_snapshot:
  assumes "coordinator_turn True msg sv = (r, sv')"
  shows "sv_coord sv' = snd (handle (sv_clock sv (sv_ticks sv)) msg (sv_coord sv))"
    "sv_snapshot sv' =
       (case next_save sv of
          Saved \<Rightarrow> Some (save_state (sv_iter sv (sv_coord sv')) (sv_coord sv'))
        | SaveCut n \<Rightarrow> Some (take n (save_state (sv_iter sv (sv_coord sv')) (sv_coord sv')))
        | SaveFailed \<Rightarrow> sv_snapshot sv)"
  using assms
  by (auto simp: coordinator_turn_def save_snapshot_def next_save_def Let_def split: prod.splits list.splits save_outcome.splits)

text \<open>The outcome of the write reaches neither the answers nor the state.\<close>

lemma coordinator_turn_blind:
  "fst (coordinator_turn True msg (sv\<lparr>sv_saves := fs\<rparr>)) = fst (coordinator_turn True msg sv)"
  "sv_coord (snd (coordinator_turn True msg (sv\<lparr>sv_saves := fs\<rparr>))) = sv_coord (snd (coordinator_turn True msg sv))"
  by (simp_all add: coordinator_turn_def Let_def split: prod.splits)

text \<open>Before any response is written, a whole snapshot holds every owner and fence, and one that was cut starts no process.\<close>

lemma coordinator_turn_saved:
  assumes "coordinator_turn True msg sv = (r, sv')" "coord_inv (sv_coord sv)" "msg_ok msg"
    "distinct (sv_iter sv (sv_coord sv'))" "set (sv_iter sv (sv_coord sv')) = dom (co_objects (sv_coord sv'))"
    "fits (sv_iter sv (sv_coord sv'))"
  shows "next_save sv = Saved \<Longrightarrow> \<exists>file. sv_snapshot sv' = Some file \<and>
      load_state (Some (Inr file)) boot c0 =
        (Inr (), c0\<lparr>co_objects := (\<lambda>oid. map_option (\<lambda>st. st\<lparr>os_epoch := co_epoch (sv_coord sv')\<rparr>) (co_objects (sv_coord sv') oid)),
           co_epoch := epoch_next (co_epoch (sv_coord sv')), co_boot_id := boot\<rparr>)"
    and "next_save sv = SaveCut n \<Longrightarrow> n < length (save_state (sv_iter sv (sv_coord sv')) (sv_coord sv')) \<Longrightarrow>
      \<exists>file e. sv_snapshot sv' = Some file \<and> load_state (Some (Inr file)) boot c0 = (Inl e, c0)"
proof -
  note t = coordinator_turn_snapshot [OF assms(1)]
  have inv: "coord_inv (sv_coord sv')" unfolding t(1) by (rule handle_inv [OF assms(2,3)])
  show "next_save sv = Saved \<Longrightarrow> \<exists>file. sv_snapshot sv' = Some file \<and>
      load_state (Some (Inr file)) boot c0 =
        (Inr (), c0\<lparr>co_objects := (\<lambda>oid. map_option (\<lambda>st. st\<lparr>os_epoch := co_epoch (sv_coord sv')\<rparr>) (co_objects (sv_coord sv') oid)),
           co_epoch := epoch_next (co_epoch (sv_coord sv')), co_boot_id := boot\<rparr>)"
    using load_save [OF inv assms(4-6)] t(2) by simp
  show "next_save sv = SaveCut n \<Longrightarrow> n < length (save_state (sv_iter sv (sv_coord sv')) (sv_coord sv')) \<Longrightarrow>
      \<exists>file e. sv_snapshot sv' = Some file \<and> load_state (Some (Inr file)) boot c0 = (Inl e, c0)"
    using load_cut [OF inv assms(5,6)] t(2) by simp
qed

end
