(* ===== verification/Cluster.thy ===== *)
theory Cluster
  imports Server
begin

text \<open>
  Nodes and coordinator together.  The locale states what a client needs of the network: a request to a
  process that is up is delivered, and its replies come back in order on the same connection.  It is interpreted
  on a cluster of the modelled servers, where every process has its own connections.
\<close>

section \<open>Requests and replies\<close>

text \<open>\<open>waiting w cn a ms\<close>: the connection \<open>cn\<close> to address \<open>a\<close> is open and the messages \<open>ms\<close> wait to be read.  \<open>core\<close> is the
  part of the network state outside the connections, \<open>replies a m c rs c'\<close> what the process at \<open>a\<close> answers.\<close>

locale request_net =
  fixes net :: "'w net"
    and core :: "'w \<Rightarrow> 'c"
    and up :: "'c \<Rightarrow> string \<Rightarrow> bool"
    and waiting :: "'w \<Rightarrow> nat \<Rightarrow> string \<Rightarrow> message list \<Rightarrow> bool"
    and replies :: "string \<Rightarrow> message \<Rightarrow> 'c \<Rightarrow> message list \<Rightarrow> 'c \<Rightarrow> bool"
  assumes connect_up: "up (core w) a \<Longrightarrow> \<exists>cn w'. nt_connect net a w = (Inr cn, w') \<and> core w' = core w \<and> waiting w' cn a [] \<and>
            (\<forall>cn' a' ms. waiting w cn' a' ms \<longrightarrow> cn' \<noteq> cn \<and> waiting w' cn' a' ms)"
    and write_up: "waiting w cn a ms \<Longrightarrow> replies a m (core w) rs c' \<Longrightarrow>
            \<exists>w'. nt_write net cn (msg_encode_frame m) w = (Inr (), w') \<and> core w' = c' \<and> waiting w' cn a (ms @ rs) \<and>
              (\<forall>cn' a' ms'. cn' \<noteq> cn \<longrightarrow> waiting w cn' a' ms' \<longrightarrow> waiting w' cn' a' ms')"
    and read_up: "waiting w cn a (m # ms) \<Longrightarrow> sendable m \<Longrightarrow>
            \<exists>es. read_frame (nt_inbound net cn w) = (Inr (Some (msg_type_of m, msg_encode m)), es) \<and>
              core (nt_consume net cn es w) = core w \<and> waiting (nt_consume net cn es w) cn a ms \<and>
              (\<forall>cn' a' ms'. cn' \<noteq> cn \<longrightarrow> waiting w cn' a' ms' \<longrightarrow> waiting (nt_consume net cn es w) cn' a' ms')"
begin

text \<open>The connections of \<open>w\<close> other than \<open>cn\<close> are as they were.\<close>

definition kept :: "nat option \<Rightarrow> 'w \<Rightarrow> 'w \<Rightarrow> bool" where
  "kept cn w w' \<longleftrightarrow> (\<forall>cn' a ms. Some cn' \<noteq> cn \<longrightarrow> waiting w cn' a ms \<longrightarrow> waiting w' cn' a ms)"

lemma kept_trans: "kept cn w w1 \<Longrightarrow> kept cn w1 w2 \<Longrightarrow> kept cn w w2"
  by (simp add: kept_def)

lemma connect_ok:
  assumes "up (core w) a"
  obtains cn w' where "connect net a w = (Inr cn, w')" "core w' = core w" "waiting w' cn a []" "kept None w w'"
    "\<forall>a' ms. \<not> waiting w cn a' ms"
  using connect_up [OF assms] by (fastforce simp: connect_def io_result_def kept_def)

lemma send_ok:
  assumes "waiting w cn a ms" "replies a m (core w) rs c'"
  obtains w' where "send_frame net cn m w = (Inr (), w')" "core w' = c'" "waiting w' cn a (ms @ rs)" "kept (Some cn) w w'"
  using write_up [OF assms] by (force simp: send_frame_def io_result_def kept_def)

lemma recv_ok:
  assumes "waiting w cn a (m # ms)" "sendable m"
  obtains w' where "recv_reply net cn closed w = (Inr m, w')" "core w' = core w" "waiting w' cn a ms" "kept (Some cn) w w'"
proof -
  obtain es where es: "read_frame (nt_inbound net cn w) = (Inr (Some (msg_type_of m, msg_encode m)), es)"
    "core (nt_consume net cn es w) = core w" "waiting (nt_consume net cn es w) cn a ms" "kept (Some cn) w (nt_consume net cn es w)"
    using read_up [OF assms] by (auto simp: kept_def)
  have "recv_reply net cn closed w = (Inr m, nt_consume net cn es w)"
    using es(1) assms(2) by (simp add: recv_reply_def recv_frame_def st_then_def sendable_def msg_decode_encode)
  from that [OF this es(2-4)] show thesis .
qed

lemma exchange_ok:
  assumes "up (core w) a" "replies a m (core w) (r # rs) c'" "sendable r"
  obtains cn w1 w2 w' where "connect net a w = (Inr cn, w1)" "send_frame net cn m w1 = (Inr (), w2)"
    "recv_reply net cn closed w2 = (Inr r, w')" "core w' = c'" "kept None w w'"
proof (rule connect_ok [OF assms(1)])
  fix cn w1
  assume w1: "connect net a w = (Inr cn, w1)" "core w1 = core w" "waiting w1 cn a []" "kept None w w1" "\<forall>a' ms. \<not> waiting w cn a' ms"
  have rp: "replies a m (core w1) (r # rs) c'" using assms(2) w1(2) by simp
  show thesis
  proof (rule send_ok [OF w1(3) rp])
    fix w2 assume w2: "send_frame net cn m w1 = (Inr (), w2)" "core w2 = c'" "waiting w2 cn a ([] @ r # rs)" "kept (Some cn) w1 w2"
    show thesis
    proof (rule recv_ok [of w2 cn a r rs])
      show "waiting w2 cn a (r # rs)" using w2(3) by simp
      fix w3 assume w3: "recv_reply net cn closed w2 = (Inr r, w3)" "core w3 = core w2" "kept (Some cn) w2 w3"
      have "waiting w3 cn' a' ms" if "waiting w cn' a' ms" for cn' a' ms
      proof -
        have "cn' \<noteq> cn" using that w1(5) by auto
        then show ?thesis using that w1(4) w2(4) w3(3) by (simp add: kept_def)
      qed
      then have "kept None w w3" by (simp add: kept_def)
      with that [OF w1(1) w2(1) w3(1)] w2(2) w3(2) show thesis by simp
    qed (rule assms(3))
  qed
qed

lemma roundtrip_ok:
  assumes "up (core w) (nd_coordinator_addr nd)" "replies (nd_coordinator_addr nd) m (core w) (r # rs) c'" "sendable r"
  obtains w' where "coordinator_roundtrip net m (nd, w) = (Inr r, nd, w')" "core w' = c'" "kept None w w'"
  by (rule exchange_ok [OF assms, of "''coordinator closed connection''"], rule that)
     (simp_all add: coordinator_roundtrip_def on_net_def)

lemma fetch_from_ok:
  assumes "up (core w) a" "replies a (Fetch obj cpt) (core w) (FetchReply obj' data (crc32c data) # rs) c'"
    "sendable (FetchReply obj' data (crc32c data))"
  obtains w' where "fetch_from net a obj cpt (nd, w) = (Inr data, nd, w')" "core w' = c'" "kept None w w'"
  by (rule exchange_ok [OF assms, of "''owner closed connection''"], rule that)
     (simp_all add: fetch_from_def on_net_def)

lemma store_to_ok:
  assumes "up (core w) a" "replies a (Store namespace key generation data (crc32c data) cpt (nd_id nd)) (core w) (StoreAck obj # rs) c'"
    "sendable (StoreAck obj)"
  obtains w' where "store_to net a namespace key generation cpt data (nd, w) = (Inr (), nd, w')" "core w' = c'" "kept None w w'"
  by (rule exchange_ok [OF assms, of "''peer closed connection''"], rule that)
     (simp_all add: store_to_def on_net_def)

text \<open>A stored object is registered here, and the coordinator learns of an object it does not know.\<close>

lemma store_handled:
  assumes reg: "register ops namespace key generation k data (nd_tc nd) = (Inr oid, tc')" "compat_decode cpt = Inr k"
    and up: "up (core w) (nd_coordinator_addr nd)"
    and lk: "replies (nd_coordinator_addr nd) (Lookup namespace key generation cpt) (core w) [LookupResult found owner addr g] c1"
      "sendable (LookupResult found owner addr g)"
    and cr: "\<not> found \<Longrightarrow> up c1 (nd_coordinator_addr nd) \<and> sendable ack \<and>
      replies (nd_coordinator_addr nd) (Create namespace key generation (of_nat (length data)) cpt (nd_id nd)) c1 [ack] c2"
    and c': "c' = (if found then c1 else c2)"
  obtains w' where "peer_store ops net namespace key generation data (crc32c data) cpt (nd, w) =
      (Inr [StoreAck (oid_to_hex (object_id (address_new namespace key generation)))], nd\<lparr>nd_tc := tc'\<rparr>, w')"
    "core w' = c'" "kept None w w'"
proof -
  let ?nd = "nd\<lparr>nd_tc := tc'\<rparr>"
  have loc: "store_local ops namespace key generation k data (nd, w) = (Inr (), ?nd, w)"
    using reg(1) by (simp add: store_local_def on_tc_def)
  obtain w1 where w1: "coordinator_roundtrip net (Lookup namespace key generation cpt) (?nd, w) = (Inr (LookupResult found owner addr g), ?nd, w1)"
    "core w1 = c1" "kept None w w1"
    by (rule roundtrip_ok [of w ?nd "Lookup namespace key generation cpt"]) (use up lk in auto)
  show thesis
  proof (cases found)
    case True
    with reg(2) loc w1 c' show thesis by (intro that [of w1]) (simp_all add: peer_store_def)
  next
    case False
    obtain w2 where w2: "coordinator_roundtrip net (Create namespace key generation (of_nat (length data)) cpt (nd_id nd)) (?nd, w1) = (Inr ack, ?nd, w2)"
      "core w2 = c2" "kept None w1 w2"
      by (rule roundtrip_ok [of w1 ?nd "Create namespace key generation (of_nat (length data)) cpt (nd_id nd)"]) (use cr [OF False] w1(2) in auto)
    have "kept None w w2" by (rule kept_trans [OF w1(3) w2(3)])
    with False reg(2) loc w1(1) w2 c' show thesis by (intro that [of w2]) (simp_all add: peer_store_def)
  qed
qed

text \<open>A migration: the instruction of the coordinator, the copy to the new owner, the acknowledgement.\<close>

lemma migrate_ok:
  assumes up: "up (core w) (nd_coordinator_addr nd)" "up c1 new_owner_addr"
    and instr: "replies (nd_coordinator_addr nd) (Migrate obj new_owner new_owner_addr fence) (core w) [Migrate obj new_owner target to_fence] c1"
      "sendable (Migrate obj new_owner target to_fence)"
    and obj: "oid_from_hex obj = Inr oid" "tc_entries (nd_tc nd) (oid_to_hex oid) = Some e"
      "restore ops oid Host (nd_tc nd) = (Inr data, tc')"
    and st: "replies new_owner_addr (Store (ad_namespace (en_address e)) (ad_key (en_address e)) (ad_generation (en_address e)) data
        (crc32c data) (compat_encode (en_compat e)) (nd_id nd)) c1 [StoreAck obj'] c2" "sendable (StoreAck obj')"
    and ack: "replies (nd_coordinator_addr nd) (MigrateAck obj new_owner to_fence) c2 [] c3"
  obtains w' where "migrate ops net obj new_owner new_owner_addr fence (nd, w) = (Inr (), nd\<lparr>nd_tc := tc'\<rparr>, w')" "core w' = c3"
proof -
  let ?nd = "nd\<lparr>nd_tc := tc'\<rparr>"
  obtain cn w1 where w1: "connect net (nd_coordinator_addr nd) w = (Inr cn, w1)" "core w1 = core w" "waiting w1 cn (nd_coordinator_addr nd) []"
    by (rule connect_ok [OF up(1)])
  have i: "replies (nd_coordinator_addr nd) (Migrate obj new_owner new_owner_addr fence) (core w1) [Migrate obj new_owner target to_fence] c1"
    using instr(1) w1(2) by simp
  obtain w2 where w2: "send_frame net cn (Migrate obj new_owner new_owner_addr fence) w1 = (Inr (), w2)" "core w2 = c1"
    "waiting w2 cn (nd_coordinator_addr nd) [Migrate obj new_owner target to_fence]"
    by (rule send_ok [OF w1(3) i]) auto
  obtain w3 where w3: "recv_reply net cn ''coordinator closed during migration'' w2 = (Inr (Migrate obj new_owner target to_fence), w3)"
    "core w3 = c1" "waiting w3 cn (nd_coordinator_addr nd) []"
    by (rule recv_ok [OF w2(3) instr(2)]) (use w2(2) in auto)
  obtain w4 where w4: "store_to net new_owner_addr (ad_namespace (en_address e)) (ad_key (en_address e)) (ad_generation (en_address e))
      (compat_encode (en_compat e)) data (?nd, w3) = (Inr (), ?nd, w4)" "core w4 = c2" "kept None w3 w4"
    by (rule store_to_ok [of w3 new_owner_addr _ _ _ _ _ ?nd]) (use up(2) st w3(2) in auto)
  have "waiting w4 cn (nd_coordinator_addr nd) []" using w3(3) w4(3) by (auto simp: kept_def)
  then obtain w5 where w5: "send_frame net cn (MigrateAck obj new_owner to_fence) w4 = (Inr (), w5)" "core w5 = c3"
    by (rule send_ok) (use ack w4(2) in auto)
  have "migrate ops net obj new_owner new_owner_addr fence (nd, w) = (Inr (), ?nd, w5)"
    using w1(1) w2(1) w3(1) obj w4(1) w5(1)
    by (simp add: migrate_def on_net_def on_tc_def with_tc_def metadata_def entry_compat_def get_meta_def st_then_def)
  with w5(2) that show thesis by blast
qed

end

section \<open>A cluster of servers\<close>

text \<open>The coordinator process and the node processes by address; \<open>cl_snap\<close> says whether the coordinator keeps a snapshot.\<close>

record 'b cluster =
  cl_coord_addr :: string
  cl_server :: server
  cl_snap :: bool
  cl_peers :: "string \<rightharpoonup> 'b node"

text \<open>The network as one process sees it: the cluster and its own connections, each with the bytes that wait.\<close>

record 'b world =
  wd_cluster :: "'b cluster"
  wd_conns :: "nat \<rightharpoonup> string \<times> stream"
  wd_next :: nat

definition chunk_of :: "u8 list \<Rightarrow> stream" where
  "chunk_of bs = (if bs = [] then [] else [Chunk bs])"

definition listening :: "'b cluster \<Rightarrow> string \<Rightarrow> bool" where
  "listening cl a \<longleftrightarrow> a = cl_coord_addr cl \<or> cl_peers cl a \<noteq> None"

definition net_of :: "(string \<Rightarrow> u8 list \<Rightarrow> 'b cluster \<Rightarrow> u8 list \<times> 'b cluster) \<Rightarrow> 'b world net" where
  "net_of answer = \<lparr>
     nt_connect = (\<lambda>a w.
       if listening (wd_cluster w) a
       then (Inr (wd_next w), w\<lparr>wd_conns := (wd_conns w)(wd_next w \<mapsto> (a, [])), wd_next := Suc (wd_next w)\<rparr>)
       else (Inl ''Connection refused (os error 111)'', w)),
     nt_write = (\<lambda>cn bytes w.
       case wd_conns w cn of
         None \<Rightarrow> (Inl ''Broken pipe (os error 32)'', w)
       | Some (a, es) \<Rightarrow>
           let (out, cl) = answer a bytes (wd_cluster w)
           in (Inr (), w\<lparr>wd_cluster := cl, wd_conns := (wd_conns w)(cn \<mapsto> (a, es @ chunk_of out))\<rparr>)),
     nt_inbound = (\<lambda>cn w. case wd_conns w cn of Some (_, es) \<Rightarrow> es | None \<Rightarrow> []),
     nt_consume = (\<lambda>cn es w.
       case wd_conns w cn of Some (a, _) \<Rightarrow> w\<lparr>wd_conns := (wd_conns w)(cn \<mapsto> (a, es))\<rparr> | None \<Rightarrow> w)\<rparr>"

definition fresh :: wconn where
  "fresh = \<lparr>wc_out = [], wc_faults = []\<rparr>"

definition coord_answer :: "u8 list \<Rightarrow> 'b cluster \<Rightarrow> u8 list \<times> 'b cluster" where
  "coord_answer bytes cl =
     (case serve_coordinator_connection (cl_snap cl) [Chunk bytes] fresh (cl_server cl) of
        (_, wc, sv) \<Rightarrow> (wc_out wc, cl\<lparr>cl_server := sv\<rparr>))"

text \<open>A node serves with connections of its own; while it serves, nobody else talks to it.\<close>

definition peer_answer ::
  "'b backend_ops \<Rightarrow> 'b world net \<Rightarrow> string \<Rightarrow> u8 list \<Rightarrow> 'b cluster \<Rightarrow> u8 list \<times> 'b cluster" where
  "peer_answer ops net a bytes cl =
     (case cl_peers cl a of
        None \<Rightarrow> ([], cl)
      | Some nd \<Rightarrow>
          (case serve_node_connection ops net [Chunk bytes] fresh
             (nd, \<lparr>wd_cluster = cl\<lparr>cl_peers := (cl_peers cl)(a := None)\<rparr>, wd_conns = Map.empty, wd_next = 0\<rparr>) of
             (_, wc, nd, w) \<Rightarrow>
               (wc_out wc, (wd_cluster w)\<lparr>cl_peers := (cl_peers (wd_cluster w))(a \<mapsto> nd)\<rparr>)))"

text \<open>\<open>k\<close> bounds how deep one node calls another while it serves.\<close>

primrec answer :: "'b backend_ops \<Rightarrow> nat \<Rightarrow> string \<Rightarrow> u8 list \<Rightarrow> 'b cluster \<Rightarrow> u8 list \<times> 'b cluster" where
  "answer ops 0 a bytes cl = (if a = cl_coord_addr cl then coord_answer bytes cl else ([], cl))"
| "answer ops (Suc k) a bytes cl =
     (if a = cl_coord_addr cl then coord_answer bytes cl else peer_answer ops (net_of (answer ops k)) a bytes cl)"

definition cluster_waiting :: "'b world \<Rightarrow> nat \<Rightarrow> string \<Rightarrow> message list \<Rightarrow> bool" where
  "cluster_waiting w cn a ms \<longleftrightarrow> cn < wd_next w \<and>
     (\<exists>es. wd_conns w cn = Some (a, es) \<and> clean es \<and> stream_bytes es = wire ms)"

lemma chunk_of_ok [simp]: "clean (chunk_of bs)" "stream_bytes (chunk_of bs) = bs"
  by (simp_all add: chunk_of_def event_ok_def event_bytes_def)

interpretation cl: request_net "net_of f" wd_cluster listening cluster_waiting
  "\<lambda>a m c rs c'. f a (msg_encode_frame m) c = (wire rs, c')" for f :: "string \<Rightarrow> u8 list \<Rightarrow> 'b cluster \<Rightarrow> u8 list \<times> 'b cluster"
proof
  fix w :: "'b world" and a assume "listening (wd_cluster w) a"
  then show "\<exists>cn w'. nt_connect (net_of f) a w = (Inr cn, w') \<and> wd_cluster w' = wd_cluster w \<and> cluster_waiting w' cn a [] \<and>
      (\<forall>cn' a' ms. cluster_waiting w cn' a' ms \<longrightarrow> cn' \<noteq> cn \<and> cluster_waiting w' cn' a' ms)"
    by (auto simp: net_of_def cluster_waiting_def)
next
  fix w :: "'b world" and cn a ms m rs c'
  assume "cluster_waiting w cn a ms" "f a (msg_encode_frame m) (wd_cluster w) = (wire rs, c')"
  then show "\<exists>w'. nt_write (net_of f) cn (msg_encode_frame m) w = (Inr (), w') \<and> wd_cluster w' = c' \<and>
      cluster_waiting w' cn a (ms @ rs) \<and> (\<forall>cn' a' ms'. cn' \<noteq> cn \<longrightarrow> cluster_waiting w cn' a' ms' \<longrightarrow> cluster_waiting w' cn' a' ms')"
    by (auto simp: net_of_def cluster_waiting_def)
next
  fix w :: "'b world" and cn a m ms
  assume *: "cluster_waiting w cn a (m # ms)" "sendable m"
  then obtain es where es: "wd_conns w cn = Some (a, es)" "clean es" "stream_bytes es = msg_encode_frame m @ wire ms" "cn < wd_next w"
    by (auto simp: cluster_waiting_def)
  obtain es' where "read_frame es = (Inr (Some (msg_type_of m, msg_encode m)), es')" "clean es'" "stream_bytes es' = wire ms"
    by (rule read_frame_sendable [OF es(2,3) *(2)])
  with es show "\<exists>es. read_frame (nt_inbound (net_of f) cn w) = (Inr (Some (msg_type_of m, msg_encode m)), es) \<and>
      wd_cluster (nt_consume (net_of f) cn es w) = wd_cluster w \<and>
      cluster_waiting (nt_consume (net_of f) cn es w) cn a ms \<and>
      (\<forall>cn' a' ms'. cn' \<noteq> cn \<longrightarrow> cluster_waiting w cn' a' ms' \<longrightarrow>
        cluster_waiting (nt_consume (net_of f) cn es w) cn' a' ms')"
    by (auto simp: net_of_def cluster_waiting_def)
qed

section \<open>What the processes answer\<close>

lemma frame_chunk: "clean [Chunk (msg_encode_frame m)]" "stream_bytes [Chunk (msg_encode_frame m)] = wire [m]"
  by (simp_all add: event_ok_def event_bytes_def msg_encode_frame_def encode_frame_header frame_header_def)

lemma serve_one:
  assumes "sendable m" "turn m s = (Inr rs, s')"
  shows "serve_loop turn [Chunk (msg_encode_frame m)] fresh s = (Inr (), fresh\<lparr>wc_out := wire rs\<rparr>, s')"
  using serve_loop_turns [OF frame_chunk, of m fresh turn s rs s'] assms by (simp add: fresh_def)

lemma coord_answer_ok:
  assumes "sendable m" "coordinator_turn (cl_snap cl) m (cl_server cl) = (Inr rs, sv')"
  shows "answer ops k (cl_coord_addr cl) (msg_encode_frame m) cl = (wire rs, cl\<lparr>cl_server := sv'\<rparr>)"
  using serve_one [of m "coordinator_turn (cl_snap cl)", OF assms]
  by (cases k) (simp_all add: coord_answer_def serve_coordinator_connection_def fresh_def)

lemma peer_answer_ok:
  assumes "sendable m" "cl_peers cl a = Some nd" "a \<noteq> cl_coord_addr cl"
    "handle_peer ops (net_of (answer ops k)) m (nd, \<lparr>wd_cluster = cl\<lparr>cl_peers := (cl_peers cl)(a := None)\<rparr>, wd_conns = Map.empty, wd_next = 0\<rparr>) =
      (Inr rs, nd', w')"
  shows "answer ops (Suc k) a (msg_encode_frame m) cl = (wire rs, (wd_cluster w')\<lparr>cl_peers := (cl_peers (wd_cluster w'))(a \<mapsto> nd')\<rparr>)"
  using serve_one [OF assms(1), of "node_turn ops (net_of (answer ops k))"] assms(2-4)
  by (simp add: peer_answer_def serve_node_connection_def node_turn_def fresh_def)

lemma coordinator_turn_ok:
  assumes "\<And>now. handle now m (sv_coord sv) = (Inr rs, c')"
  obtains sv' where "coordinator_turn snap m sv = (Inr rs, sv')" "sv_coord sv' = c'"
  using assms by (cases snap) (auto simp: coordinator_turn_def save_snapshot_def Let_def split: prod.splits)

lemma wire_lengths: "length (w_str s) = 8 + length s" "length (w_u64 n) = 8" "length (w_bytes bs) = 8 + length bs" "length (w_u32 i) = 4"
  by (simp_all add: w_str_def w_bytes_def w_u64_def w_u32_def)

lemma sendable_parts:
  "sendable (Store namespace key generation data crc cpt source) \<Longrightarrow> sendable (Lookup namespace key generation cpt)"
  "sendable (Migrate obj new_owner addr fence) \<Longrightarrow> sendable (MigrateAck obj new_owner fence')"
  "sendable (Migrate obj new_owner addr fence) \<Longrightarrow> sendable (StoreAck obj)"
  by (simp_all add: sendable_def wire_lengths)

section \<open>Migration\<close>

text \<open>What the three messages of a migration do to the coordinator.\<close>

definition migrating :: "string \<Rightarrow> string \<Rightarrow> u64 \<Rightarrow> coordinator \<Rightarrow> coordinator" where
  "migrating obj new_owner to_fence c =
     c\<lparr>co_migrations := (co_migrations c)(obj \<mapsto> \<lparr>pm_new_owner = new_owner, pm_to_fence = to_fence\<rparr>)\<rparr>"

definition moved :: "string \<Rightarrow> string \<Rightarrow> object_state \<Rightarrow> coordinator \<Rightarrow> coordinator" where
  "moved obj new_owner st c =
     c\<lparr>co_objects := (co_objects c)(obj \<mapsto> st\<lparr>os_owner := new_owner, os_fence := os_fence st + 1, os_epoch := co_epoch c\<rparr>),
       co_migrations := (co_migrations c)(obj := None)\<rparr>"

lemma handle_migration:
  assumes "co_objects c obj = Some st" "\<not> fence < os_fence st"
  shows "handle now (Migrate obj new_owner addr fence) c =
      (Inr [Migrate obj new_owner (case co_nodes c new_owner of Some a \<Rightarrow> a | None \<Rightarrow> addr) (os_fence st + 1)],
       migrating obj new_owner (os_fence st + 1) c)"
    and "obj = coord_object_id namespace key generation \<Longrightarrow>
      handle now (Lookup namespace key generation cpt) (migrating obj new_owner (os_fence st + 1) c) =
      (Inr [LookupResult True (Some (os_owner st)) (co_nodes c (os_owner st)) generation], migrating obj new_owner (os_fence st + 1) c)"
    and "handle now (MigrateAck obj new_owner (os_fence st + 1)) (migrating obj new_owner (os_fence st + 1) c) =
      (Inr [], moved obj new_owner st c)"
  using assms by (auto simp: Let_def migrating_def moved_def)

lemma address_eta [simp]: "address_new (ad_namespace a) (ad_key a) (ad_generation a) = a"
  by (cases a) (simp add: address_new_def)

text \<open>A network that loses the acknowledgement of a migration: the write works, and the coordinator never sees the frame.\<close>

definition ack_lost ::
  "(string \<Rightarrow> u8 list \<Rightarrow> 'b cluster \<Rightarrow> u8 list \<times> 'b cluster) \<Rightarrow> string \<Rightarrow> u8 list \<Rightarrow> 'b cluster \<Rightarrow> u8 list \<times> 'b cluster" where
  "ack_lost f a bytes cl =
     (case fst (read_frame [Chunk bytes]) of Inr (Some (TMigrateAck, _)) \<Rightarrow> ([], cl) | _ \<Rightarrow> f a bytes cl)"

lemma ack_lost_frame:
  assumes "sendable m"
  shows "ack_lost f a (msg_encode_frame m) cl = (if msg_type_of m = TMigrateAck then ([], cl) else f a (msg_encode_frame m) cl)"
proof -
  have "stream_bytes [Chunk (msg_encode_frame m)] = msg_encode_frame m @ []" using frame_chunk(2) [of m] by simp
  then obtain es' where "read_frame [Chunk (msg_encode_frame m)] = (Inr (Some (msg_type_of m, msg_encode m)), es')"
    by (rule read_frame_sendable [OF frame_chunk(1) _ assms])
  then show ?thesis by (simp add: ack_lost_def split: msg_type.splits)
qed

text \<open>What the processes answer to the messages of a migration, up to the acknowledgement: the object is with the new owner,
  the migration is pending.\<close>

lemma migration_answers:
  fixes cl :: "'b cluster"
  assumes b: "cl_peers cl addr = Some b" "addr \<noteq> cl_coord_addr cl" "nd_coordinator_addr b = cl_coord_addr cl"
    and st: "co_objects (sv_coord (cl_server cl)) obj = Some st" "\<not> fence < os_fence st"
    and obj: "obj = oid_to_hex (object_id (en_address e))" "valid_key (en_compat e)"
    and reg: "register ops (ad_namespace (en_address e)) (ad_key (en_address e)) (ad_generation (en_address e)) (en_compat e) data (nd_tc b) = (Inr oidB, tcB)"
    and send: "sendable (Migrate obj new_owner addr fence)"
      "sendable (LookupResult True (Some (os_owner st)) (co_nodes (sv_coord (cl_server cl)) (os_owner st)) (ad_generation (en_address e)))"
      "sendable (Store (ad_namespace (en_address e)) (ad_key (en_address e)) (ad_generation (en_address e)) data (crc32c data)
        (compat_encode (en_compat e)) source)"
  obtains cl1 cl2 cl3 where
    "answer ops (Suc k) (cl_coord_addr cl) (msg_encode_frame (Migrate obj new_owner addr fence)) cl =
      (wire [Migrate obj new_owner (case co_nodes (sv_coord (cl_server cl)) new_owner of Some a \<Rightarrow> a | None \<Rightarrow> addr) (os_fence st + 1)], cl1)"
    "answer ops (Suc k) addr (msg_encode_frame (Store (ad_namespace (en_address e)) (ad_key (en_address e)) (ad_generation (en_address e)) data
        (crc32c data) (compat_encode (en_compat e)) source)) cl1 = (wire [StoreAck obj], cl2)"
    "answer ops (Suc k) (cl_coord_addr cl) (msg_encode_frame (MigrateAck obj new_owner (os_fence st + 1))) cl2 = (wire [], cl3)"
    "listening cl1 addr"
    "sv_coord (cl_server cl2) = migrating obj new_owner (os_fence st + 1) (sv_coord (cl_server cl))"
    "sv_coord (cl_server cl3) = moved obj new_owner st (sv_coord (cl_server cl))"
    "cl_peers cl2 = (cl_peers cl)(addr \<mapsto> b\<lparr>nd_tc := tcB\<rparr>)" "cl_peers cl3 = cl_peers cl2"
proof -
  let ?c = "sv_coord (cl_server cl)"
  let ?ns = "ad_namespace (en_address e)" and ?key = "ad_key (en_address e)" and ?gen = "ad_generation (en_address e)"
  let ?cpt = "compat_encode (en_compat e)"
  let ?target = "case co_nodes ?c new_owner of Some a \<Rightarrow> a | None \<Rightarrow> addr"
  let ?lk = "LookupResult True (Some (os_owner st)) (co_nodes ?c (os_owner st)) ?gen"
  have id: "obj = coord_object_id ?ns ?key ?gen" using obj(1) by (simp add: coord_object_id_def)
  note h = handle_migration [OF st]
  obtain sv1 where sv1: "coordinator_turn (cl_snap cl) (Migrate obj new_owner addr fence) (cl_server cl) =
      (Inr [Migrate obj new_owner ?target (os_fence st + 1)], sv1)"
    "sv_coord sv1 = migrating obj new_owner (os_fence st + 1) ?c"
    by (rule coordinator_turn_ok [OF h(1)])
  let ?cl1 = "cl\<lparr>cl_server := sv1\<rparr>"
  let ?cl1' = "?cl1\<lparr>cl_peers := (cl_peers cl)(addr := None)\<rparr>"
  obtain sv2 where sv2: "coordinator_turn (cl_snap cl) (Lookup ?ns ?key ?gen ?cpt) sv1 = (Inr [?lk], sv2)" "sv_coord sv2 = sv_coord sv1"
    by (rule coordinator_turn_ok [of "Lookup ?ns ?key ?gen ?cpt" sv1]) (use h(2) [OF id] sv1(2) in auto)
  let ?cl2' = "?cl1'\<lparr>cl_server := sv2\<rparr>"
  obtain sv3 where sv3: "coordinator_turn (cl_snap cl) (MigrateAck obj new_owner (os_fence st + 1)) sv2 = (Inr [], sv3)"
    "sv_coord sv3 = moved obj new_owner st ?c"
    by (rule coordinator_turn_ok [of "MigrateAck obj new_owner (os_fence st + 1)" sv2]) (use h(3) sv1(2) sv2(2) in auto)
  let ?cl2 = "?cl2'\<lparr>cl_peers := (cl_peers cl)(addr \<mapsto> b\<lparr>nd_tc := tcB\<rparr>)\<rparr>"
  let ?w0 = "\<lparr>wd_cluster = ?cl1', wd_conns = Map.empty, wd_next = 0\<rparr>"
  have dec: "compat_decode ?cpt = Inr (en_compat e)" by (rule decode_encode [OF obj(2)])
  have up0: "listening (wd_cluster ?w0) (nd_coordinator_addr b)" using b(3) by (simp add: listening_def)
  have lk0: "answer ops k (nd_coordinator_addr b) (msg_encode_frame (Lookup ?ns ?key ?gen ?cpt)) (wd_cluster ?w0) = (wire [?lk], ?cl2')"
    using coord_answer_ok [of "Lookup ?ns ?key ?gen ?cpt" ?cl1' "[?lk]" sv2 ops k] sendable_parts(1) [OF send(3)] sv2(1) b(3) by simp
  note sh = cl.store_handled [where f = "answer ops k", OF reg dec up0 lk0 send(2) _ refl, simplified]
  obtain w0' where w0': "handle_peer ops (net_of (answer ops k)) (Store ?ns ?key ?gen data (crc32c data) ?cpt source) (b, ?w0) =
      (Inr [StoreAck obj], b\<lparr>nd_tc := tcB\<rparr>, w0')" "wd_cluster w0' = ?cl2'"
    by (rule sh) (use obj(1) in simp)
  show thesis
  proof (rule that [of ?cl1 ?cl2 "?cl2\<lparr>cl_server := sv3\<rparr>"])
    show "answer ops (Suc k) (cl_coord_addr cl) (msg_encode_frame (Migrate obj new_owner addr fence)) cl =
        (wire [Migrate obj new_owner ?target (os_fence st + 1)], ?cl1)"
      by (rule coord_answer_ok [OF send(1) sv1(1)])
    show "answer ops (Suc k) addr (msg_encode_frame (Store ?ns ?key ?gen data (crc32c data) ?cpt source)) ?cl1 = (wire [StoreAck obj], ?cl2)"
      using peer_answer_ok [OF send(3), of ?cl1 addr b ops k "[StoreAck obj]" "b\<lparr>nd_tc := tcB\<rparr>" w0'] b w0' by simp
    show "answer ops (Suc k) (cl_coord_addr cl) (msg_encode_frame (MigrateAck obj new_owner (os_fence st + 1))) ?cl2 =
        (wire [], ?cl2\<lparr>cl_server := sv3\<rparr>)"
      using coord_answer_ok [of "MigrateAck obj new_owner (os_fence st + 1)" ?cl2 "[]" sv3 ops "Suc k"] sendable_parts(2) [OF send(1)] sv3(1) by simp
  qed (use b sv1 sv2 sv3 in \<open>simp_all add: listening_def\<close>)
qed

text \<open>The command of the old owner: with a network that delivers the acknowledgement, and with one that loses it.\<close>

lemma migration_moves:
  fixes cl :: "'b cluster"
  assumes w: "wd_cluster w = cl" "nd_coordinator_addr nd = cl_coord_addr cl"
    and b: "cl_peers cl addr = Some b" "addr \<noteq> cl_coord_addr cl" "nd_coordinator_addr b = cl_coord_addr cl"
    and st: "co_objects (sv_coord (cl_server cl)) obj = Some st" "\<not> fence < os_fence st"
    and oid: "oid_from_hex obj = Inr oid" "tc_entries (nd_tc nd) (oid_to_hex oid) = Some e" "restore ops oid Host (nd_tc nd) = (Inr data, tcA)"
    and obj: "obj = oid_to_hex (object_id (en_address e))" "valid_key (en_compat e)"
    and reg: "register ops (ad_namespace (en_address e)) (ad_key (en_address e)) (ad_generation (en_address e)) (en_compat e) data (nd_tc b) = (Inr oidB, tcB)"
    and send: "sendable (Migrate obj new_owner addr fence)"
      "sendable (Migrate obj new_owner (case co_nodes (sv_coord (cl_server cl)) new_owner of Some a \<Rightarrow> a | None \<Rightarrow> addr) (os_fence st + 1))"
      "sendable (LookupResult True (Some (os_owner st)) (co_nodes (sv_coord (cl_server cl)) (os_owner st)) (ad_generation (en_address e)))"
      "sendable (Store (ad_namespace (en_address e)) (ad_key (en_address e)) (ad_generation (en_address e)) data (crc32c data)
        (compat_encode (en_compat e)) (nd_id nd))"
  shows "\<exists>w'. migrate ops (net_of (answer ops (Suc k))) obj new_owner addr fence (nd, w) = (Inr (), nd\<lparr>nd_tc := tcA\<rparr>, w') \<and>
      sv_coord (cl_server (wd_cluster w')) = moved obj new_owner st (sv_coord (cl_server cl)) \<and>
      cl_peers (wd_cluster w') = (cl_peers cl)(addr \<mapsto> b\<lparr>nd_tc := tcB\<rparr>)"
    and "\<exists>w'. migrate ops (net_of (ack_lost (answer ops (Suc k)))) obj new_owner addr fence (nd, w) = (Inr (), nd\<lparr>nd_tc := tcA\<rparr>, w') \<and>
      sv_coord (cl_server (wd_cluster w')) = migrating obj new_owner (os_fence st + 1) (sv_coord (cl_server cl)) \<and>
      cl_peers (wd_cluster w') = (cl_peers cl)(addr \<mapsto> b\<lparr>nd_tc := tcB\<rparr>)"
proof -
  obtain cl1 cl2 cl3 where a: "answer ops (Suc k) (cl_coord_addr cl) (msg_encode_frame (Migrate obj new_owner addr fence)) cl =
      (wire [Migrate obj new_owner (case co_nodes (sv_coord (cl_server cl)) new_owner of Some a \<Rightarrow> a | None \<Rightarrow> addr) (os_fence st + 1)], cl1)"
    "answer ops (Suc k) addr (msg_encode_frame (Store (ad_namespace (en_address e)) (ad_key (en_address e)) (ad_generation (en_address e)) data
        (crc32c data) (compat_encode (en_compat e)) (nd_id nd))) cl1 = (wire [StoreAck obj], cl2)"
    "answer ops (Suc k) (cl_coord_addr cl) (msg_encode_frame (MigrateAck obj new_owner (os_fence st + 1))) cl2 = (wire [], cl3)"
    "listening cl1 addr"
    and c: "sv_coord (cl_server cl2) = migrating obj new_owner (os_fence st + 1) (sv_coord (cl_server cl))"
    "sv_coord (cl_server cl3) = moved obj new_owner st (sv_coord (cl_server cl))"
    and p: "cl_peers cl2 = (cl_peers cl)(addr \<mapsto> b\<lparr>nd_tc := tcB\<rparr>)" "cl_peers cl3 = cl_peers cl2"
    by (rule migration_answers [OF b st obj reg send(1,3,4)])
  have up: "listening (wd_cluster w) (nd_coordinator_addr nd)" using w by (simp add: listening_def)
  have run: "\<exists>w'. migrate ops (net_of f) obj new_owner addr fence (nd, w) = (Inr (), nd\<lparr>nd_tc := tcA\<rparr>, w') \<and> wd_cluster w' = c"
    if "\<And>a m cl. sendable m \<Longrightarrow> msg_type_of m \<noteq> TMigrateAck \<Longrightarrow> f a (msg_encode_frame m) cl = answer ops (Suc k) a (msg_encode_frame m) cl"
      and ack: "f (nd_coordinator_addr nd) (msg_encode_frame (MigrateAck obj new_owner (os_fence st + 1))) cl2 = (wire [], c)" for f c
  proof -
    have "f (nd_coordinator_addr nd) (msg_encode_frame (Migrate obj new_owner addr fence)) (wd_cluster w) =
        (wire [Migrate obj new_owner (case co_nodes (sv_coord (cl_server cl)) new_owner of Some a \<Rightarrow> a | None \<Rightarrow> addr) (os_fence st + 1)], cl1)"
      "f addr (msg_encode_frame (Store (ad_namespace (en_address e)) (ad_key (en_address e)) (ad_generation (en_address e)) data
        (crc32c data) (compat_encode (en_compat e)) (nd_id nd))) cl1 = (wire [StoreAck obj], cl2)"
      using that(1) send a(1,2) w by simp_all
    from cl.migrate_ok [where f = f, OF up a(4) this(1) send(2) oid this(2) sendable_parts(3) [OF send(1)] ack] show ?thesis by blast
  qed
  show "\<exists>w'. migrate ops (net_of (answer ops (Suc k))) obj new_owner addr fence (nd, w) = (Inr (), nd\<lparr>nd_tc := tcA\<rparr>, w') \<and>
      sv_coord (cl_server (wd_cluster w')) = moved obj new_owner st (sv_coord (cl_server cl)) \<and>
      cl_peers (wd_cluster w') = (cl_peers cl)(addr \<mapsto> b\<lparr>nd_tc := tcB\<rparr>)"
    using run [of "answer ops (Suc k)" cl3] a(3) w(2) c(2) p by (auto simp del: answer.simps)
  show "\<exists>w'. migrate ops (net_of (ack_lost (answer ops (Suc k)))) obj new_owner addr fence (nd, w) = (Inr (), nd\<lparr>nd_tc := tcA\<rparr>, w') \<and>
      sv_coord (cl_server (wd_cluster w')) = migrating obj new_owner (os_fence st + 1) (sv_coord (cl_server cl)) \<and>
      cl_peers (wd_cluster w') = (cl_peers cl)(addr \<mapsto> b\<lparr>nd_tc := tcB\<rparr>)"
    using run [of "ack_lost (answer ops (Suc k))" cl2] sendable_parts(2) [OF send(1)] c(1) p(1) by (auto simp: ack_lost_frame simp del: answer.simps)
qed

end
