(* ===== verification/Cuda.thy ===== *)
theory Cuda
  imports Cache_Correct
begin

text \<open>
  The CUDA backend (\<^verbatim>\<open>tensorcache-cuda/src/backend.rs\<close> and \<^verbatim>\<open>loader.rs\<close>).  The runtime library it loads is not
  part of the repository: it is a record of its entry points over a device state of its own, and what the backend
  relies on is the predicate \<open>driver_ok\<close>.  Under it the backend keeps the same contract as the CPU backend.
\<close>

section \<open>The runtime library\<close>

text \<open>Codes and counts are C integers.  A copy reads or writes the bytes at a device address.\<close>

record 'd cuda_api =
  get_device_count :: "'d \<Rightarrow> (int \<times> int) \<times> 'd"
  set_device :: "int \<Rightarrow> 'd \<Rightarrow> int \<times> 'd"
  cuda_malloc :: "usize \<Rightarrow> 'd \<Rightarrow> (int \<times> u64) \<times> 'd"
  memcpy_h2d :: "u64 \<Rightarrow> u8 list \<Rightarrow> 'd \<Rightarrow> int \<times> 'd"
  memcpy_d2h :: "u64 \<Rightarrow> usize \<Rightarrow> 'd \<Rightarrow> int \<times> u8 list"
  free_ptr :: "u64 \<Rightarrow> 'd \<Rightarrow> int \<times> 'd"
  memset_ptr :: "u64 \<Rightarrow> int \<Rightarrow> usize \<Rightarrow> 'd \<Rightarrow> int \<times> 'd"
  get_error_string :: "int \<Rightarrow> string option"

definition show_int :: "int \<Rightarrow> string" where
  "show_int i = (if i < 0 then ''-'' @ show_nat (nat (- i)) else show_nat (nat i))"

definition api_err :: "'d cuda_api \<Rightarrow> int \<Rightarrow> string \<Rightarrow> error" where
  "api_err api code what =
     BackendErr (if code \<noteq> 0 then
         (case get_error_string api code of
            Some s \<Rightarrow> what @ '': '' @ s @ '' (code '' @ show_int code @ '')''
          | None \<Rightarrow> what @ '': CUDA error '' @ show_int code)
       else what @ '': unknown error'')"

text \<open>Loading: the first library of the platform's list that opens, then all seven symbols, each of which may be missing.\<close>

definition CUDA_NAMES :: "string list" where
  "CUDA_NAMES = [''libcudart.so.13'', ''libcudart.so.12'', ''libcudart.so.11'', ''libcudart.so'']"

definition WINDOWS_CUDA_NAMES :: "string list" where
  "WINDOWS_CUDA_NAMES = [''cudart64_13.dll'', ''cudart64_12.dll'', ''cudart64_11.dll'', ''cudart64_10.dll'', ''cudart64_9.dll'',
     ''cudart64.dll'']"

fun try_load :: "(string \<Rightarrow> 'h option) \<Rightarrow> string list \<Rightarrow> 'h option" where
  "try_load dlopen [] = None"
| "try_load dlopen (name # names) = (case dlopen name of Some h \<Rightarrow> Some h | None \<Rightarrow> try_load dlopen names)"

definition CUDA_SYMBOLS :: "string list" where
  "CUDA_SYMBOLS = [''cudaGetDeviceCount'', ''cudaSetDevice'', ''cudaMalloc'', ''cudaMemcpy'', ''cudaFree'', ''cudaMemset'',
     ''cudaGetErrorString'']"

definition load_api :: "string list \<Rightarrow> (string \<Rightarrow> 'h option) \<Rightarrow> ('h \<Rightarrow> string \<Rightarrow> 'f option) \<Rightarrow> ('f list \<Rightarrow> 'd cuda_api) \<Rightarrow> 'd cuda_api option" where
  "load_api names dlopen dlsym as_api =
     (case try_load dlopen names of
        None \<Rightarrow> None
      | Some h \<Rightarrow>
          if list_all (\<lambda>s. dlsym h s \<noteq> None) CUDA_SYMBOLS then Some (as_api (map (\<lambda>s. the (dlsym h s)) CUDA_SYMBOLS)) else None)"

section \<open>The backend\<close>

record 'd cuda_backend =
  cu_id :: backend_id
  cu_capacity :: u64
  cu_allocated :: u64
  cu_device :: 'd

definition cuda_new :: "'d cuda_api option \<Rightarrow> usize \<Rightarrow> u64 \<Rightarrow> 'd \<Rightarrow> 'd cuda_backend result \<times> 'd" where
  "cuda_new loaded device capacity d =
     (case loaded of
        None \<Rightarrow> (Inl (BackendErr ''CUDA runtime library not found''), d)
      | Some api \<Rightarrow>
          let ((rc, count), d) = get_device_count api d in
          if rc \<noteq> 0 then (Inl (api_err api rc ''cudaGetDeviceCount''), d)
          else if count \<le> 0 then (Inl (BackendErr ''no CUDA devices present''), d)
          else if unat device \<ge> nat count
          then (Inl (BackendErr (''requested device '' @ show_w device @ '' but only '' @ show_int count @ '' present'')), d)
          else
            let (rc, d) = set_device api (sint (ucast device :: 32 word)) d in
            if rc \<noteq> 0 then (Inl (api_err api rc ''cudaSetDevice''), d)
            else (Inr \<lparr>cu_id = backend_cuda device, cu_capacity = capacity, cu_allocated = 0, cu_device = d\<rparr>, d))"

definition cuda_device_count :: "'d cuda_api option \<Rightarrow> 'd \<Rightarrow> int result \<times> 'd" where
  "cuda_device_count loaded d =
     (case loaded of
        None \<Rightarrow> (Inl (BackendErr ''CUDA runtime library not found''), d)
      | Some api \<Rightarrow>
          let ((rc, count), d) = get_device_count api d in
          if rc \<noteq> 0 then (Inl (api_err api rc ''cudaGetDeviceCount''), d) else (Inr count, d))"

definition dev_ptr :: "device_buffer \<Rightarrow> u64 result" where
  "dev_ptr dev = (case db_handle dev of Opaque p \<Rightarrow> Inr p | _ \<Rightarrow> Inl (BackendErr ''not a CUDA device buffer''))"

definition cuda_allocate :: "'d cuda_api \<Rightarrow> usize \<Rightarrow> 'd cuda_backend \<Rightarrow> device_buffer result \<times> 'd cuda_backend" where
  "cuda_allocate api bytes b =
     (if bytes = 0 then (Inr \<lparr>db_backend = cu_id b, db_bytes = 0, db_handle = Opaque 0\<rparr>, b)
      else
        (case checked_add (cu_allocated b) bytes of
           None \<Rightarrow> (Inl (BackendErr ''CUDA byte accounting overflow''), b)
         | Some after \<Rightarrow>
             if after > cu_capacity b
             then (Inl (BackendErr (''CUDA allocation of '' @ show_w bytes @ '' bytes would exceed capacity '' @ show_w (cu_capacity b))), b)
             else
               let ((rc, ptr), d) = cuda_malloc api bytes (cu_device b); b = b\<lparr>cu_device := d\<rparr> in
               if rc \<noteq> 0 \<or> ptr = 0 then (Inl (api_err api rc ''cudaMalloc''), b)
               else (Inr \<lparr>db_backend = cu_id b, db_bytes = bytes, db_handle = Opaque ptr\<rparr>, b\<lparr>cu_allocated := after\<rparr>)))"

text \<open>A copy to the device from \<open>offset\<close> on; \<open>what\<close> names the call in an error.\<close>

definition copy_to :: "'d cuda_api \<Rightarrow> string \<Rightarrow> device_buffer \<Rightarrow> usize \<Rightarrow> u8 list \<Rightarrow> 'd cuda_backend \<Rightarrow> unit result \<times> 'd cuda_backend" where
  "copy_to api what dev offset data b =
     (case dev_ptr dev of
        Inl e \<Rightarrow> (Inl e, b)
      | Inr p \<Rightarrow>
          let (rc, d) = memcpy_h2d api (p + offset) data (cu_device b) in
          (if rc \<noteq> 0 then Inl (api_err api rc what) else Inr (), b\<lparr>cu_device := d\<rparr>))"

definition copy_back :: "'d cuda_api \<Rightarrow> string \<Rightarrow> device_buffer \<Rightarrow> usize \<Rightarrow> u8 list \<Rightarrow> 'd cuda_backend \<Rightarrow> u8 list result" where
  "copy_back api what dev offset data b =
     and_then (dev_ptr dev) (\<lambda>p.
       let (rc, bytes) = memcpy_d2h api (p + offset) (of_nat (length data)) (cu_device b) in
       if rc \<noteq> 0 then Inl (api_err api rc what) else Inr bytes)"

definition cuda_to_device ::
  "'d cuda_api \<Rightarrow> u8 list \<Rightarrow> device_buffer \<Rightarrow> 'd cuda_backend \<Rightarrow> (unit result \<times> device_buffer) \<times> 'd cuda_backend" where
  "cuda_to_device api host dev b =
     (if of_nat (length host) \<noteq> db_bytes dev then ((Inl (BackendErr ''H2D length mismatch''), dev), b)
      else if db_bytes dev = 0 then ((Inr (), dev), b)
      else (let (r, b) = copy_to api ''cudaMemcpy(H2D)'' dev 0 host b in ((r, dev), b)))"

definition cuda_device_to_host :: "'d cuda_api \<Rightarrow> device_buffer \<Rightarrow> u8 list \<Rightarrow> 'd cuda_backend \<Rightarrow> u8 list result" where
  "cuda_device_to_host api dev host b =
     (if of_nat (length host) \<noteq> db_bytes dev then Inl (BackendErr ''D2H length mismatch'')
      else if db_bytes dev = 0 then Inr host
      else copy_back api ''cudaMemcpy(D2H)'' dev 0 host b)"

definition cuda_copy_in ::
  "'d cuda_api \<Rightarrow> device_buffer \<Rightarrow> usize \<Rightarrow> u8 list \<Rightarrow> 'd cuda_backend \<Rightarrow> (unit result \<times> device_buffer) \<times> 'd cuda_backend" where
  "cuda_copy_in api dev offset data b =
     (case checked_add offset (of_nat (length data)) of
        None \<Rightarrow> ((Inl (BackendErr ''copy_in offset overflow''), dev), b)
      | Some end' \<Rightarrow>
          if end' > db_bytes dev then ((Inl (BackendErr ''copy_in out of bounds''), dev), b)
          else if data = [] then ((Inr (), dev), b)
          else (let (r, b) = copy_to api ''cudaMemcpy(copy_in)'' dev offset data b in ((r, dev), b)))"

definition cuda_copy_out :: "'d cuda_api \<Rightarrow> device_buffer \<Rightarrow> usize \<Rightarrow> u8 list \<Rightarrow> 'd cuda_backend \<Rightarrow> u8 list result" where
  "cuda_copy_out api dev offset data b =
     (case checked_add offset (of_nat (length data)) of
        None \<Rightarrow> Inl (BackendErr ''copy_out offset overflow'')
      | Some end' \<Rightarrow>
          if end' > db_bytes dev then Inl (BackendErr ''copy_out out of bounds'')
          else if data = [] then Inr data
          else copy_back api ''cudaMemcpy(copy_out)'' dev offset data b)"

definition cuda_fill ::
  "'d cuda_api \<Rightarrow> device_buffer \<Rightarrow> usize \<Rightarrow> u8 \<Rightarrow> 'd cuda_backend \<Rightarrow> (unit result \<times> device_buffer) \<times> 'd cuda_backend" where
  "cuda_fill api dev bytes val b =
     (if bytes > db_bytes dev then ((Inl (BackendErr ''fill exceeds device size''), dev), b)
      else if bytes = 0 then ((Inr (), dev), b)
      else
        (case dev_ptr dev of
           Inl e \<Rightarrow> ((Inl e, dev), b)
         | Inr p \<Rightarrow>
             let (rc, d) = memset_ptr api p (uint val) bytes (cu_device b) in
             ((if rc \<noteq> 0 then Inl (api_err api rc ''cudaMemset'') else Inr (), dev), b\<lparr>cu_device := d\<rparr>)))"

definition cuda_free :: "'d cuda_api \<Rightarrow> device_buffer \<Rightarrow> 'd cuda_backend \<Rightarrow> unit result \<times> 'd cuda_backend" where
  "cuda_free api dev b =
     (if db_bytes dev = 0 then (Inr (), b)
      else
        (case db_handle dev of
           Opaque p \<Rightarrow>
             let (rc, d) = free_ptr api p (cu_device b); b = b\<lparr>cu_device := d\<rparr> in
             if rc \<noteq> 0 then (Inl (api_err api rc ''cudaFree''), b)
             else (Inr (), b\<lparr>cu_allocated := cu_allocated b - db_bytes dev\<rparr>)
         | _ \<Rightarrow> (Inl (BackendErr ''not a CUDA buffer''), b)))"

definition cuda_ops :: "'d cuda_api \<Rightarrow> 'd cuda_backend backend_ops" where
  "cuda_ops api = \<lparr>be_id = cu_id, be_byte_capacity = cu_capacity, be_bytes_allocated = cu_allocated,
     be_allocate = cuda_allocate api, be_to_device = cuda_to_device api, be_device_to_host = cuda_device_to_host api,
     be_copy_in = cuda_copy_in api, be_copy_out = cuda_copy_out api, be_fill = cuda_fill api, be_free = cuda_free api\<rparr>"

section \<open>What the library promises\<close>

text \<open>\<open>live d p xs\<close>: at address \<open>p\<close> of the device there is an allocation with contents \<open>xs\<close>.  A successful allocation is
  live with some contents; copies and fills inside a live allocation succeed and do what they say; a live allocation
  can be freed.\<close>

definition driver_ok :: "'d cuda_api \<Rightarrow> ('d \<Rightarrow> u64 \<Rightarrow> u8 list \<Rightarrow> bool) \<Rightarrow> bool" where
  "driver_ok api live \<longleftrightarrow>
     (\<forall>n d p d'. cuda_malloc api n d = ((0, p), d') \<longrightarrow> p \<noteq> 0 \<longrightarrow> (\<exists>xs. length xs = unat n \<and> live d' p xs)) \<and>
     (\<forall>d p xs offset bs. live d p xs \<longrightarrow> unat offset + length bs \<le> length xs \<longrightarrow>
        (\<exists>d'. memcpy_h2d api (p + offset) bs d = (0, d') \<and> live d' p (take (unat offset) xs @ bs @ drop (unat offset + length bs) xs))) \<and>
     (\<forall>d p xs offset n. live d p xs \<longrightarrow> unat offset + unat n \<le> length xs \<longrightarrow>
        memcpy_d2h api (p + offset) n d = (0, take (unat n) (drop (unat offset) xs))) \<and>
     (\<forall>d p xs v n. live d p xs \<longrightarrow> unat n \<le> length xs \<longrightarrow>
        (\<exists>d'. memset_ptr api p (uint v) n d = (0, d') \<and> live d' p (replicate (unat n) v @ drop (unat n) xs))) \<and>
     (\<forall>d p xs. live d p xs \<longrightarrow> (\<exists>d'. free_ptr api p d = (0, d')))"

definition cuda_inv :: "'d cuda_backend \<Rightarrow> bool" where
  "cuda_inv b \<longleftrightarrow> cu_allocated b \<le> cu_capacity b"

definition cuda_holds :: "('d \<Rightarrow> u64 \<Rightarrow> u8 list \<Rightarrow> bool) \<Rightarrow> 'd cuda_backend \<Rightarrow> device_buffer \<Rightarrow> u8 list \<Rightarrow> bool" where
  "cuda_holds live b dev xs \<longleftrightarrow> db_bytes dev = of_nat (length xs) \<and> length xs < 2 ^ 64 \<and>
     (xs \<noteq> [] \<longrightarrow> (\<exists>p. db_handle dev = Opaque p \<and> live (cu_device b) p xs))"

lemma driver_okD:
  assumes "driver_ok api live"
  shows "cuda_malloc api n d = ((0, p), d') \<Longrightarrow> p \<noteq> 0 \<Longrightarrow> \<exists>xs. length xs = unat n \<and> live d' p xs"
    and "live d p xs \<Longrightarrow> unat offset + length bs \<le> length xs \<Longrightarrow>
      \<exists>d'. memcpy_h2d api (p + offset) bs d = (0, d') \<and> live d' p (take (unat offset) xs @ bs @ drop (unat offset + length bs) xs)"
    and "live d p xs \<Longrightarrow> unat offset + unat k \<le> length xs \<Longrightarrow>
      memcpy_d2h api (p + offset) k d = (0, take (unat k) (drop (unat offset) xs))"
    and "live d p xs \<Longrightarrow> \<exists>d'. free_ptr api p d = (0, d')"
  using assms unfolding driver_ok_def by (simp_all, blast)

lemma cuda_allocate_holds:
  assumes ok: "driver_ok api live" and b: "cuda_inv b" "cuda_allocate api n b = (Inr dev, b')"
  shows "cuda_inv b' \<and> (\<exists>old. length old = unat n \<and> cuda_holds live b' dev old) \<and> cu_id b' = cu_id b \<and> db_backend dev = cu_id b \<and>
    unat (cu_allocated b') = unat (cu_allocated b) + unat n \<and> cu_allocated b' \<le> cu_capacity b'"
proof (cases "n = 0")
  case True
  then show ?thesis using b by (auto simp: cuda_allocate_def cuda_holds_def cuda_inv_def)
next
  case False
  then obtain after p d' where al: "checked_add (cu_allocated b) n = Some after" "after \<le> cu_capacity b"
    "cuda_malloc api n (cu_device b) = ((0, p), d')" "p \<noteq> 0"
    "dev = \<lparr>db_backend = cu_id b, db_bytes = n, db_handle = Opaque p\<rparr>" "b' = b\<lparr>cu_device := d', cu_allocated := after\<rparr>"
    using b(2) by (auto simp: cuda_allocate_def Let_def split: option.splits if_splits prod.splits)
  obtain xs where xs: "length xs = unat n" "live d' p xs" using driver_okD(1) [OF ok al(3,4)] by blast
  have "length xs < 2 ^ 64" using xs(1) unsigned_less [of n, where ?'a = nat] by simp
  then have "cuda_holds live b' dev xs" using xs al(5,6) by (simp add: cuda_holds_def)
  with xs(1) al show ?thesis by (auto simp: cuda_inv_def checked_add_Some unat_add_fits)
qed

lemma cuda_to_device_holds:
  assumes ok: "driver_ok api live" and h: "cuda_holds live b dev old" "length host = length old"
  shows "\<exists>b'. cuda_to_device api host dev b = ((Inr (), dev), b') \<and> cuda_holds live b' dev host \<and> cu_id b' = cu_id b \<and>
    cu_allocated b' = cu_allocated b \<and> cu_capacity b' = cu_capacity b"
proof (cases "old = []")
  case True
  then show ?thesis using h by (simp add: cuda_to_device_def cuda_holds_def)
next
  case False
  then obtain p where p: "db_handle dev = Opaque p" "live (cu_device b) p old" using h(1) by (auto simp: cuda_holds_def)
  obtain d' where d': "memcpy_h2d api (p + 0) host (cu_device b) = (0, d')" "live d' p (take (unat 0) old @ host @ drop (unat 0 + length host) old)"
    using driver_okD(2) [OF ok p(2), of 0 host] h(2) by auto
  have ne: "db_bytes dev \<noteq> 0" using h(1) False by (auto simp: cuda_holds_def word_unat_eq_iff unat_of_nat_fits)
  show ?thesis
    using d' p ne h False
    by (auto simp: cuda_to_device_def copy_to_def dev_ptr_def cuda_holds_def)
qed

lemma cuda_to_host_holds:
  assumes ok: "driver_ok api live" and h: "cuda_holds live b dev xs" "length host = length xs"
  shows "cuda_device_to_host api dev host b = Inr xs"
proof (cases "xs = []")
  case True
  then show ?thesis using h by (simp add: cuda_device_to_host_def cuda_holds_def)
next
  case False
  then obtain p where p: "db_handle dev = Opaque p" "live (cu_device b) p xs" using h(1) by (auto simp: cuda_holds_def)
  have n: "unat (of_nat (length xs) :: usize) = length xs" using h(1) by (simp add: cuda_holds_def word_nat)
  have ne: "db_bytes dev \<noteq> 0" using h(1) False by (auto simp: cuda_holds_def word_unat_eq_iff unat_of_nat_fits)
  show ?thesis
    using driver_okD(3) [OF ok p(2), of 0 "of_nat (length xs)"] p(1) n ne h
    by (simp add: cuda_device_to_host_def copy_back_def dev_ptr_def cuda_holds_def)
qed

lemma cuda_free_holds:
  assumes ok: "driver_ok api live" and h: "cuda_inv b" "cuda_holds live b dev xs" "length xs \<le> unat (cu_allocated b)"
  shows "\<exists>b'. cuda_free api dev b = (Inr (), b') \<and> cuda_inv b' \<and> cu_id b' = cu_id b \<and>
    unat (cu_allocated b') = unat (cu_allocated b) - length xs"
proof (cases "xs = []")
  case True
  then show ?thesis using h by (simp add: cuda_free_def cuda_holds_def)
next
  case False
  then obtain p where p: "db_handle dev = Opaque p" "live (cu_device b) p xs" using h(2) by (auto simp: cuda_holds_def)
  obtain d' where d': "free_ptr api p (cu_device b) = (0, d')" using driver_okD(4) [OF ok p(2)] by blast
  have n: "unat (of_nat (length xs) :: usize) = length xs" using h(2) by (simp add: cuda_holds_def word_nat)
  have ne: "db_bytes dev \<noteq> 0" using h(2) False by (auto simp: cuda_holds_def word_unat_eq_iff unat_of_nat_fits)
  have le: "of_nat (length xs) \<le> cu_allocated b" using h(3) n by (simp add: word_le_nat_alt)
  then have "unat (cu_allocated b - of_nat (length xs)) = unat (cu_allocated b) - length xs" by (simp add: unat_sub_fits n)
  with d' p(1) ne h show ?thesis by (auto simp: cuda_free_def cuda_inv_def cuda_holds_def word_le_nat_alt)
qed

text \<open>The contract of a backend, for every library that keeps its promises.\<close>

lemma cuda_contract:
  assumes "driver_ok api live"
  shows "device_backend (cuda_ops api) cuda_inv (cuda_holds live)"
proof
  show "cuda_inv b' \<and> (\<exists>old. length old = unat n \<and> cuda_holds live b' dev old) \<and> be_id (cuda_ops api) b' = be_id (cuda_ops api) b \<and>
      db_backend dev = be_id (cuda_ops api) b \<and>
      unat (be_bytes_allocated (cuda_ops api) b') = unat (be_bytes_allocated (cuda_ops api) b) + unat n \<and>
      be_bytes_allocated (cuda_ops api) b' \<le> be_byte_capacity (cuda_ops api) b'"
    if "cuda_inv b" "be_allocate (cuda_ops api) n b = (Inr dev, b')" for b b' n dev
    using cuda_allocate_holds [OF assms that(1)] that(2) by (simp add: cuda_ops_def)
  show "cuda_inv b' \<and> be_id (cuda_ops api) b' = be_id (cuda_ops api) b \<and> be_bytes_allocated (cuda_ops api) b' = be_bytes_allocated (cuda_ops api) b"
    if "cuda_inv b" "be_allocate (cuda_ops api) n b = (Inl e, b')" for b b' n e
    using that by (auto simp: cuda_ops_def cuda_allocate_def cuda_inv_def Let_def split: if_splits option.splits prod.splits)
  show "\<exists>dev' b'. be_to_device (cuda_ops api) host dev b = ((Inr (), dev'), b') \<and> cuda_inv b' \<and> cuda_holds live b' dev' host \<and>
      be_id (cuda_ops api) b' = be_id (cuda_ops api) b \<and> db_backend dev' = db_backend dev \<and>
      be_bytes_allocated (cuda_ops api) b' = be_bytes_allocated (cuda_ops api) b"
    if "cuda_inv b" "cuda_holds live b dev old" "length host = length old" for b dev old and host :: "u8 list"
    using cuda_to_device_holds [OF assms that(2,3)] that(1) by (auto simp: cuda_ops_def cuda_inv_def)
  show "be_device_to_host (cuda_ops api) dev host b = Inr xs"
    if "cuda_holds live b dev xs" "length host = length xs" for b dev xs and host :: "u8 list"
    using cuda_to_host_holds [OF assms that] by (simp add: cuda_ops_def)
  show "\<exists>b'. be_free (cuda_ops api) dev b = (Inr (), b') \<and> cuda_inv b' \<and> be_id (cuda_ops api) b' = be_id (cuda_ops api) b \<and>
      unat (be_bytes_allocated (cuda_ops api) b') = unat (be_bytes_allocated (cuda_ops api) b) - length xs"
    if "cuda_inv b" "cuda_holds live b dev xs" "length xs \<le> unat (be_bytes_allocated (cuda_ops api) b)" for b dev xs
    using cuda_free_holds [OF assms that(1,2)] that(3) by (simp add: cuda_ops_def)
qed

section \<open>Backends of two kinds\<close>

text \<open>A registry holds \<^verbatim>\<open>Box<dyn Backend>\<close>: a method goes to the implementation of the backend at hand.\<close>

definition either_ops :: "'a backend_ops \<Rightarrow> 'b backend_ops \<Rightarrow> ('a + 'b) backend_ops" where
  "either_ops A B =
     \<lparr>be_id = case_sum (be_id A) (be_id B), be_byte_capacity = case_sum (be_byte_capacity A) (be_byte_capacity B),
      be_bytes_allocated = case_sum (be_bytes_allocated A) (be_bytes_allocated B),
      be_allocate = (\<lambda>n. case_sum (apsnd Inl \<circ> be_allocate A n) (apsnd Inr \<circ> be_allocate B n)),
      be_to_device = (\<lambda>host dev. case_sum (apsnd Inl \<circ> be_to_device A host dev) (apsnd Inr \<circ> be_to_device B host dev)),
      be_device_to_host = (\<lambda>dev host. case_sum (be_device_to_host A dev host) (be_device_to_host B dev host)),
      be_copy_in = (\<lambda>dev offset data. case_sum (apsnd Inl \<circ> be_copy_in A dev offset data) (apsnd Inr \<circ> be_copy_in B dev offset data)),
      be_copy_out = (\<lambda>dev offset data. case_sum (be_copy_out A dev offset data) (be_copy_out B dev offset data)),
      be_fill = (\<lambda>dev n v. case_sum (apsnd Inl \<circ> be_fill A dev n v) (apsnd Inr \<circ> be_fill B dev n v)),
      be_free = (\<lambda>dev. case_sum (apsnd Inl \<circ> be_free A dev) (apsnd Inr \<circ> be_free B dev))\<rparr>"

lemma either_contract:
  assumes "device_backend A invA holdsA" "device_backend B invB holdsB"
  shows "device_backend (either_ops A B) (case_sum invA invB) (case_sum holdsA holdsB)"
proof -
  note A = device_backend.alloc_ok [OF assms(1)] device_backend.alloc_err [OF assms(1)] device_backend.to_device_ok [OF assms(1)]
    device_backend.to_host_ok [OF assms(1)] device_backend.free_ok [OF assms(1)]
  note B = device_backend.alloc_ok [OF assms(2)] device_backend.alloc_err [OF assms(2)] device_backend.to_device_ok [OF assms(2)]
    device_backend.to_host_ok [OF assms(2)] device_backend.free_ok [OF assms(2)]
  show ?thesis
  proof (unfold_locales, goal_cases)
    case (1 b n dev b')
    then show ?case using A(1) B(1) by (cases b; cases b') (auto simp: either_ops_def apsnd_def map_prod_def split: prod.splits)
  next
    case (2 b n e b')
    then show ?case using A(2) B(2) by (cases b; cases b') (auto simp: either_ops_def apsnd_def map_prod_def split: prod.splits)
  next
    case (3 b dev old host)
    show ?case
    proof (cases b)
      case (Inl x)
      with A(3) [of x dev old host] 3 obtain dev' x' where "be_to_device A host dev x = ((Inr (), dev'), x')" "invA x'" "holdsA x' dev' host"
        "be_id A x' = be_id A x" "db_backend dev' = db_backend dev" "be_bytes_allocated A x' = be_bytes_allocated A x" by auto
      then show ?thesis using Inl by (intro exI [of _ dev'] exI [of _ "Inl x'"]) (simp add: either_ops_def)
    next
      case (Inr x)
      with B(3) [of x dev old host] 3 obtain dev' x' where "be_to_device B host dev x = ((Inr (), dev'), x')" "invB x'" "holdsB x' dev' host"
        "be_id B x' = be_id B x" "db_backend dev' = db_backend dev" "be_bytes_allocated B x' = be_bytes_allocated B x" by auto
      then show ?thesis using Inr by (intro exI [of _ dev'] exI [of _ "Inr x'"]) (simp add: either_ops_def)
    qed
  next
    case (4 b dev xs host)
    then show ?case using A(4) B(4) by (cases b) (simp_all add: either_ops_def)
  next
    case (5 b dev xs)
    show ?case
    proof (cases b)
      case (Inl x)
      with A(5) [of x dev xs] 5 obtain x' where "be_free A dev x = (Inr (), x')" "invA x'" "be_id A x' = be_id A x"
        "unat (be_bytes_allocated A x') = unat (be_bytes_allocated A x) - length xs" by (auto simp: either_ops_def)
      then show ?thesis using Inl by (intro exI [of _ "Inl x'"]) (simp add: either_ops_def)
    next
      case (Inr x)
      with B(5) [of x dev xs] 5 obtain x' where "be_free B dev x = (Inr (), x')" "invB x'" "be_id B x' = be_id B x"
        "unat (be_bytes_allocated B x') = unat (be_bytes_allocated B x) - length xs" by (auto simp: either_ops_def)
      then show ?thesis using Inr by (intro exI [of _ "Inr x'"]) (simp add: either_ops_def)
    qed
  qed
qed

text \<open>The CPU backend next to CUDA devices, as in the build with the CUDA feature.\<close>

abbreviation node_ops :: "'d cuda_api \<Rightarrow> (cpu_backend + 'd cuda_backend) backend_ops" where
  "node_ops api \<equiv> either_ops cpu_ops (cuda_ops api)"

definition node_backend_inv :: "cpu_backend + 'd cuda_backend \<Rightarrow> bool" where
  "node_backend_inv = case_sum cpu_inv cuda_inv"

lemma node_contract:
  "driver_ok api live \<Longrightarrow> device_backend (node_ops api) node_backend_inv (case_sum cpu_holds (cuda_holds live))"
  unfolding node_backend_inv_def by (rule either_contract [OF cpu.device_backend_axioms cuda_contract])

end
