(* ===== verification/Durability.thy ===== *)
theory Durability
  imports Cache_Correct
begin

text \<open>
  What survives a restart: a persisted object, recovered from the directory it was written to, gives back
  the payload it was persisted with, and a deleted object stays deleted.
\<close>

section \<open>Block files\<close>

abbreviation block_file :: "store \<Rightarrow> digest \<Rightarrow> u8 list option" where
  "block_file st h \<equiv> st_files st (BlocksDir, to_hex h)"

definition file_ok :: "store \<Rightarrow> digest \<Rightarrow> bool" where
  "file_ok st h \<longleftrightarrow> (\<exists>data. block_file st h = Some data \<and> hash data = h)"

lemma file_ok_length: "file_ok st h \<Longrightarrow> length (digest_bytes h) = 32"
  by (auto simp: file_ok_def)

text \<open>Storing a block adds its own file or nothing.\<close>

lemma put_block_files:
  assumes "put_block data st = (r, st')" "length (digest_bytes h) = 32"
  shows "block_file st' h = block_file st h \<or> h = hash data \<and> block_file st' h = Some data"
proof (cases "block_file st h")
  case (Some x)
  then show ?thesis using put_block_keeps [OF assms(1) Some assms(2)] by simp
next
  case None
  let ?p = "(BlocksDir, to_hex (hash data))"
  have len: "length (to_hex h) = 64" "length (to_hex (hash data)) = 64" using assms(2) by (simp_all add: to_hex_def)
  have "length (tmp_name (to_hex (hash data)) (st_pid st)) \<noteq> 64" by (simp add: tmp_name_def)
  then have nt: "(BlocksDir, to_hex h) \<noteq> tmp_path ?p st" using len(1) by auto
  have bp: "block_path (hash data) = Inr ?p" by (simp add: block_path_ok)
  obtain r1 st1 where w: "atomic_write ?p data st = (r1, st1)" by fastforce
  obtain r2 st2 where rd: "fs_read ?p st = (r2, st2)" by fastforce
  have "st' = st1 \<or> st' = st2"
    using assms(1) w rd by (auto simp: put_block_def Let_def st_then_def bp split: sum.splits if_splits)
  moreover have "block_file st2 h = None" using fs_read_files [OF rd] None by simp
  moreover have "block_file st1 h = None \<or> h = hash data \<and> block_file st1 h = Some data"
  proof (cases "h = hash data")
    case True
    then show ?thesis using atomic_write_outcome [OF w] None by (cases "r1 = Inr ()") auto
  next
    case False
    then have "(BlocksDir, to_hex h) \<noteq> ?p" by simp
    then show ?thesis using conjunct1 [OF atomic_write_outcome [OF w]] nt None by metis
  qed
  ultimately show ?thesis using None by auto
qed

lemma put_block_file_ok: "put_block data st = (r, st') \<Longrightarrow> file_ok st h \<Longrightarrow> file_ok st' h"
  using put_block_files [of data st r st' h] file_ok_length [of st h] by (auto simp: file_ok_def)

text \<open>All blocks of a payload, when every counted block already has its file.\<close>

definition disk_ok :: "'b cache \<Rightarrow> bool" where
  "disk_ok c \<longleftrightarrow> (\<forall>h st. tc_persistent_refs c h \<noteq> None \<longrightarrow> tc_persistent c = Some st \<longrightarrow> file_ok st h)"

definition blocks_of :: "u8 list \<Rightarrow> block_ref list \<Rightarrow> bool" where
  "blocks_of bytes bs \<longleftrightarrow> (\<forall>b \<in> set bs. \<exists>p. block_slice bytes b = Inr p \<and> br_content_hash b = hash p)"

lemma put_blocks_files:
  assumes "put_blocks bytes bs c = (Inr (), c')" "tc_persistent c = Some st" "disk_ok c" "blocks_of bytes bs"
  shows "\<exists>st'. tc_persistent c' = Some st' \<and> disk_ok c' \<and> (\<forall>b \<in> set bs. file_ok st' (br_content_hash b)) \<and>
    (\<forall>h. file_ok st h \<longrightarrow> file_ok st' h) \<and>
    (\<forall>h data. length (digest_bytes h) = 32 \<longrightarrow> block_file st' h = Some data \<longrightarrow>
       block_file st h = Some data \<or> (\<exists>b \<in> set bs. block_slice bytes b = Inr data))"
  using assms
proof (induction bs arbitrary: c st)
  case (Cons b bs)
  have bs: "blocks_of bytes bs" using Cons.prems(4) by (simp add: blocks_of_def)
  show ?case
  proof (cases "tc_persistent_refs c (br_content_hash b)")
    case (Some n)
    let ?c = "c\<lparr>tc_persistent_refs := (tc_persistent_refs c)(br_content_hash b \<mapsto> n + 1)\<rparr>"
    have "disk_ok ?c" using Cons.prems(3) Some by (auto simp: disk_ok_def)
    moreover have "file_ok st (br_content_hash b)" using Cons.prems(2,3) Some by (auto simp: disk_ok_def)
    ultimately show ?thesis
      using Cons.IH [of ?c st] Cons.prems(1,2) Some bs by (fastforce simp: Let_def)
  next
    case None
    obtain p where p: "block_slice bytes b = Inr p" "br_content_hash b = hash p"
      using Cons.prems(4) by (auto simp: blocks_of_def)
    obtain h1 st1 where put: "put_block p st = (Inr h1, st1)" and rest: "put_blocks bytes bs
        (c\<lparr>tc_persistent := Some st1, tc_persistent_refs := (tc_persistent_refs c)(br_content_hash b \<mapsto> 1),
           tc_storage_used := tc_storage_used c + br_len b\<rparr>) = (Inr (), c')" (is "put_blocks bytes bs ?c = _")
      using Cons.prems(1,2) None p by (auto split: sum.splits prod.splits)
    have ok: "file_ok st1 (br_content_hash b)" using put_block_stored [OF put] p(2) by (auto simp: file_ok_def)
    have "disk_ok ?c" using Cons.prems(2,3) ok put_block_file_ok [OF put] by (auto simp: disk_ok_def)
    from Cons.IH [OF rest _ this bs] obtain st' where st': "tc_persistent c' = Some st'" "disk_ok c'"
      "\<forall>b \<in> set bs. file_ok st' (br_content_hash b)" "\<forall>h. file_ok st1 h \<longrightarrow> file_ok st' h"
      "\<forall>h data. length (digest_bytes h) = 32 \<longrightarrow> block_file st' h = Some data \<longrightarrow>
         block_file st1 h = Some data \<or> (\<exists>b \<in> set bs. block_slice bytes b = Inr data)" by auto
    moreover have "block_file st h = Some data \<or> data = p"
      if "length (digest_bytes h) = 32" "block_file st1 h = Some data" for h data
      using put_block_files [OF put that(1)] that(2) by auto
    ultimately show ?thesis
      using ok put_block_file_ok [OF put] p(1) by (intro exI [of _ st']) (auto, metis)
  qed
qed (auto intro: exI)

text \<open>Storing blocks leaves the manifests alone.\<close>

lemma put_block_manifests:
  assumes "put_block data st = (r, st')"
  shows "st_files st' (ManifestsDir, name) = st_files st (ManifestsDir, name)"
proof -
  let ?p = "(BlocksDir, to_hex (hash data))"
  have bp: "block_path (hash data) = Inr ?p" by (simp add: block_path_ok)
  obtain r1 st1 where w: "atomic_write ?p data st = (r1, st1)" by fastforce
  obtain r2 st2 where rd: "fs_read ?p st = (r2, st2)" by fastforce
  have "st' = st1 \<or> st' = st2"
    using assms w rd by (auto simp: put_block_def Let_def st_then_def bp split: sum.splits if_splits)
  then show ?thesis using conjunct1 [OF atomic_write_outcome [OF w]] fs_read_files [OF rd] by auto
qed

lemma put_blocks_manifests:
  "put_blocks bytes bs c = (Inr (), c') \<Longrightarrow> tc_persistent c = Some st \<Longrightarrow> tc_persistent c' = Some st' \<Longrightarrow>
     st_files st' (ManifestsDir, name) = st_files st (ManifestsDir, name)"
proof (induction bs arbitrary: c st)
  case (Cons b bs)
  show ?case
  proof (cases "tc_persistent_refs c (br_content_hash b)")
    case (Some n)
    then show ?thesis
      using Cons.IH [of "c\<lparr>tc_persistent_refs := (tc_persistent_refs c)(br_content_hash b \<mapsto> n + 1)\<rparr>" st] Cons.prems by simp
  next
    case None
    obtain p where p: "block_slice bytes b = Inr p" using Cons.prems(1,2) None by (auto split: sum.splits)
    obtain h1 st1 where put: "put_block p st = (Inr h1, st1)" and rest: "put_blocks bytes bs
        (c\<lparr>tc_persistent := Some st1, tc_persistent_refs := (tc_persistent_refs c)(br_content_hash b \<mapsto> 1),
           tc_storage_used := tc_storage_used c + br_len b\<rparr>) = (Inr (), c')"
      using Cons.prems(1,2) None p by (auto split: sum.splits prod.splits)
    from Cons.IH [OF rest _ Cons.prems(3)] put_block_manifests [OF put] show ?thesis by simp
  qed
qed simp

text \<open>Writing adds finitely many files.\<close>

abbreviation finite_store :: "store \<Rightarrow> bool" where
  "finite_store st \<equiv> finite (dom (st_files st))"

lemma atomic_write_finite: "atomic_write path bytes st = (r, st') \<Longrightarrow> finite_store st \<Longrightarrow> finite_store st'"
proof -
  assume w: "atomic_write path bytes st = (r, st')" and f: "finite_store st"
  have "dom (st_files st') \<subseteq> insert path (insert (tmp_path path st) (dom (st_files st)))"
    using conjunct1 [OF atomic_write_outcome [OF w]] by fastforce
  then show ?thesis using f by (meson finite_insert finite_subset)
qed

lemma put_block_finite: "put_block data st = (r, st') \<Longrightarrow> finite_store st \<Longrightarrow> finite_store st'"
proof -
  assume put: "put_block data st = (r, st')" and f: "finite_store st"
  let ?p = "(BlocksDir, to_hex (hash data))"
  obtain r1 st1 where w: "atomic_write ?p data st = (r1, st1)" by fastforce
  obtain r2 st2 where rd: "fs_read ?p st = (r2, st2)" by fastforce
  have "st' = st1 \<or> st' = st2"
    using put w rd by (auto simp: put_block_def Let_def st_then_def block_path_ok split: sum.splits if_splits)
  then show ?thesis using atomic_write_finite [OF w f] fs_read_files [OF rd] f by auto
qed

lemma put_blocks_finite:
  "put_blocks bytes bs c = (Inr (), c') \<Longrightarrow> tc_persistent c = Some st \<Longrightarrow> tc_persistent c' = Some st' \<Longrightarrow> finite_store st \<Longrightarrow> finite_store st'"
proof (induction bs arbitrary: c st)
  case (Cons b bs)
  show ?case
  proof (cases "tc_persistent_refs c (br_content_hash b)")
    case (Some n)
    then show ?thesis
      using Cons.IH [of "c\<lparr>tc_persistent_refs := (tc_persistent_refs c)(br_content_hash b \<mapsto> n + 1)\<rparr>" st] Cons.prems by simp
  next
    case None
    obtain p where p: "block_slice bytes b = Inr p" using Cons.prems(1,2) None by (auto split: sum.splits)
    obtain h1 st1 where put: "put_block p st = (Inr h1, st1)" and rest: "put_blocks bytes bs
        (c\<lparr>tc_persistent := Some st1, tc_persistent_refs := (tc_persistent_refs c)(br_content_hash b \<mapsto> 1),
           tc_storage_used := tc_storage_used c + br_len b\<rparr>) = (Inr (), c')"
      using Cons.prems(1,2) None p by (auto split: sum.splits prod.splits)
    from Cons.IH [OF rest _ Cons.prems(3)] put_block_finite [OF put Cons.prems(4)] show ?thesis by simp
  qed
qed simp

section \<open>Manifests\<close>

lemma manifest_path_ok: "wf_oid oid \<Longrightarrow> manifest_path (oid_to_hex oid) = Inr (ManifestsDir, oid_to_hex oid @ ''.manifest'')"
  by (simp add: manifest_path_def oid_to_hex_def to_hex_def wf_oid_def hex_path_valid_hex)

lemma write_manifest_files:
  assumes "write_manifest m st = (Inr (), st')" "wf_oid oid" "pe_object_id m = oid_to_hex oid"
  shows "st_files st' (ManifestsDir, oid_to_hex oid @ ''.manifest'') = Some (encode_manifest m) \<and>
    (\<forall>h. block_file st' h = block_file st h) \<and>
    (\<forall>name x. name \<noteq> oid_to_hex oid @ ''.manifest'' \<longrightarrow> st_files st' (ManifestsDir, name) = Some x \<longrightarrow> st_files st (ManifestsDir, name) = Some x) \<and>
    (finite_store st \<longrightarrow> finite_store st')"
proof -
  have w: "atomic_write (ManifestsDir, oid_to_hex oid @ ''.manifest'') (encode_manifest m) st = (Inr (), st')"
    using assms by (simp add: write_manifest_def Let_def manifest_path_ok)
  from atomic_write_outcome [OF w] atomic_write_finite [OF w] show ?thesis by (auto, metis option.distinct(1) snd_conv)
qed

lemma manifest_extension: "path_extension (s @ ''.manifest'') = (if s = [] then None else Some ''manifest'')"
  by (simp add: path_extension_def Let_def)

section \<open>Persisting\<close>

definition meta_of :: "object_id \<Rightarrow> entry \<Rightarrow> u64 \<Rightarrow> block_ref list \<Rightarrow> persist_meta" where
  "meta_of oid e n blocks = \<lparr>pe_object_id = oid_to_hex oid, pe_namespace = ad_namespace (en_address e),
     pe_key = ad_key (en_address e), pe_generation = ad_generation (en_address e), pe_compat = en_compat e,
     pe_byte_len = en_byte_len e, pe_numel = n, pe_created_ns = en_created_ns e, pe_blocks = blocks\<rparr>"

lemma materialize_volatile:
  assumes "tc_entries c (oid_to_hex oid) = Some e" "\<not> has_tier e Persistent" "materialize_payload ops oid c = (r, c')"
  shows "c' = c"
proof -
  have "\<not> list_ex (\<lambda>t. t = Persistent) (placement_tiers e)"
    using assms(2) by (force simp: has_tier_def placement_tiers_def list_ex_iff)
  then show ?thesis
    using assms(1,3) by (auto simp: materialize_payload_def get_meta_def Let_def split: if_splits option.splits)
qed

lemma chunk_blocks_of: "chunk bytes n = Inr blocks \<Longrightarrow> length bytes < 2 ^ 64 \<Longrightarrow> blocks_of bytes blocks"
  using chunk_slices [of bytes n blocks] list_all2_set1 unfolding blocks_of_def by fast

lemma add_persistent_writes:
  assumes run: "add_persistent oid bytes e c = (Inr (), c')" and st: "tc_persistent c = Some st"
    and disk: "disk_ok c" and oid: "wf_oid oid" and len: "length bytes < 2 ^ 64"
  obtains st' blocks n where "tc_persistent c' = Some st'" "chunk bytes (rc_block_size (tc_config c)) = Inr blocks"
    "validate_block_list blocks (en_byte_len e) = Inr ()" "numel (ck_shape (en_compat e)) = Inr n"
    "st_files st' (ManifestsDir, oid_to_hex oid @ ''.manifest'') = Some (encode_manifest (meta_of oid e n blocks))"
    "\<forall>b \<in> set blocks. file_ok st' (br_content_hash b)"
    "\<forall>h data. length (digest_bytes h) = 32 \<longrightarrow> block_file st' h = Some data \<longrightarrow>
       block_file st h = Some data \<or> (\<exists>b \<in> set blocks. block_slice bytes b = Inr data)"
    "\<forall>name x. name \<noteq> oid_to_hex oid @ ''.manifest'' \<longrightarrow> st_files st' (ManifestsDir, name) = Some x \<longrightarrow> st_files st (ManifestsDir, name) = Some x"
    "finite_store st \<longrightarrow> finite_store st'"
proof -
  let ?new = "\<lambda>blocks. new_storage_bytes blocks c"
  from run st obtain blocks n c1 c2 c3 c4 where
    ch: "chunk bytes (rc_block_size (tc_config c)) = Inr blocks" and v: "validate_block_list blocks (en_byte_len e) = Inr ()"
    and r1: "on_accounting (acct_reserve KPersistent (?new blocks)) c = (Inr (), c1)"
    and r2: "put_blocks bytes blocks c1 = (Inr (), c2)"
    and r3: "on_accounting (commit_reserve KPersistent (?new blocks)) c2 = (Inr (), c3)"
    and n: "numel (ck_shape (en_compat e)) = Inr n"
    and r4: "on_store (write_manifest (meta_of oid e n blocks)) c3 = (Inr (), c4)"
    and c': "c' = push_placement oid PPersistent c4"
    by (auto simp: add_persistent_def Let_def st_then_Inr_iff meta_of_def split: if_splits)
  have c1: "tc_persistent c1 = Some st" "disk_ok c1"
    using on_accounting_frame [OF r1] st disk by (simp_all add: disk_ok_def)
  from put_blocks_files [OF r2 c1 chunk_blocks_of [OF ch len]] obtain st2 where st2: "tc_persistent c2 = Some st2"
    "\<forall>b \<in> set blocks. file_ok st2 (br_content_hash b)"
    "\<forall>h data. length (digest_bytes h) = 32 \<longrightarrow> block_file st2 h = Some data \<longrightarrow>
       block_file st h = Some data \<or> (\<exists>b \<in> set blocks. block_slice bytes b = Inr data)" by blast
  have c3: "tc_persistent c3 = Some st2" using on_accounting_frame [OF r3] st2(1) by simp
  obtain st4 where w: "write_manifest (meta_of oid e n blocks) st2 = (Inr (), st4)" "tc_persistent c4 = Some st4"
    using r4 c3 by (auto simp: on_store_def split: prod.splits)
  have "st_files st4 (ManifestsDir, oid_to_hex oid @ ''.manifest'') = Some (encode_manifest (meta_of oid e n blocks))"
    and same: "\<forall>h. block_file st4 h = block_file st2 h"
    and "\<forall>name x. name \<noteq> oid_to_hex oid @ ''.manifest'' \<longrightarrow> st_files st4 (ManifestsDir, name) = Some x \<longrightarrow> st_files st (ManifestsDir, name) = Some x"
    and "finite_store st \<longrightarrow> finite_store st4"
    using write_manifest_files [OF w(1) oid] put_blocks_manifests [OF r2 c1(1) st2(1)] put_blocks_finite [OF r2 c1(1) st2(1)]
    by (simp_all add: meta_of_def)
  with st2 ch v n w(2) that [of st4 blocks n] show thesis
    by (simp add: c' push_placement_def file_ok_def)
qed

lemma persist_writes:
  assumes run: "persist ops oid c = (Inr (), c')" and e: "tc_entries c (oid_to_hex oid) = Some e" "\<not> has_tier e Persistent"
    and m: "materialize_payload ops oid c = (Inr payload, c1)"
    and rest: "tc_persistent c = Some st" "disk_ok c" "wf_oid oid" "length payload < 2 ^ 64"
  obtains st' blocks n where "tc_persistent c' = Some st'" "chunk payload (rc_block_size (tc_config c)) = Inr blocks"
    "en_byte_len e = of_nat (length payload)"
    "validate_block_list blocks (en_byte_len e) = Inr ()" "numel (ck_shape (en_compat e)) = Inr n"
    "st_files st' (ManifestsDir, oid_to_hex oid @ ''.manifest'') = Some (encode_manifest (meta_of oid e n blocks))"
    "\<forall>b \<in> set blocks. file_ok st' (br_content_hash b)"
    "\<forall>h data. length (digest_bytes h) = 32 \<longrightarrow> block_file st' h = Some data \<longrightarrow>
       block_file st h = Some data \<or> (\<exists>b \<in> set blocks. block_slice payload b = Inr data)"
    "\<forall>name x. name \<noteq> oid_to_hex oid @ ''.manifest'' \<longrightarrow> st_files st' (ManifestsDir, name) = Some x \<longrightarrow> st_files st (ManifestsDir, name) = Some x"
    "finite_store st \<longrightarrow> finite_store st'"
proof -
  have c1: "c1 = c" by (rule materialize_volatile [OF e m])
  obtain c2 where add: "add_placement ops oid Persistent payload c = (Inr (), c2)"
    and c': "c' = upd_entry oid (\<lambda>e. e\<lparr>en_durable := True\<rparr>) c2"
    using run e m by (auto simp: persist_def entry_has_tier_def get_meta_def st_then_Inr_iff c1)
  then have len: "en_byte_len e = of_nat (length payload)" and ap: "add_persistent oid payload e c = (Inr (), c2)"
    using e(1) by (auto simp: add_placement_def get_meta_def split: if_splits)
  show thesis
    by (rule add_persistent_writes [OF ap rest]) (use that len in \<open>auto simp: c'\<close>)
qed

text \<open>On a disk that works and has room, persisting succeeds.  \<open>P\<close> are the blocks to be stored.\<close>

definition unspoilt :: "u8 list set \<Rightarrow> store \<Rightarrow> bool" where
  "unspoilt P st \<longleftrightarrow> st_faults st = [] \<and> (\<forall>p \<in> P. block_file st (hash p) = None \<or> block_file st (hash p) = Some p)"

lemma put_block_total:
  assumes "unspoilt P st" "p \<in> P" "inj_on hash P"
  shows "\<exists>st'. put_block p st = (Inr (hash p), st') \<and> unspoilt P st'"
proof -
  let ?p = "(BlocksDir, to_hex (hash p))"
  have bp: "block_path (hash p) = Inr ?p" by (simp add: block_path_ok)
  have q: "st_faults st = []" using assms(1) by (simp add: unspoilt_def)
  have "\<exists>st'. put_block p st = (Inr (hash p), st') \<and> st_faults st' = []"
  proof (cases "block_file st (hash p)")
    case None
    then show ?thesis using atomic_write_ok [OF q, of ?p p] by (auto simp: put_block_def Let_def bp fs_exists_def)
  next
    case (Some x)
    then have "x = p" using assms(1,2) by (auto simp: unspoilt_def)
    with Some q show ?thesis
      by (simp add: put_block_def Let_def bp fs_exists_def fs_read_def io_call_def next_fault_def ok_or_def st_then_def)
  qed
  then obtain st' where put: "put_block p st = (Inr (hash p), st')" "st_faults st' = []" by blast
  have "block_file st' (hash q) = None \<or> block_file st' (hash q) = Some q" if "q \<in> P" for q
    using put_block_files [OF put(1), of "hash q"] assms that by (auto simp: unspoilt_def dest: inj_onD)
  with put show ?thesis by (auto simp: unspoilt_def)
qed

lemma put_blocks_total:
  assumes "tc_persistent c = Some st" "unspoilt P st" "inj_on hash P"
    "\<forall>b \<in> set bs. \<exists>p \<in> P. block_slice bytes b = Inr p \<and> br_content_hash b = hash p"
  shows "\<exists>c' st'. put_blocks bytes bs c = (Inr (), c') \<and> tc_persistent c' = Some st' \<and> unspoilt P st' \<and>
    tc_accounting c' = tc_accounting c"
  using assms
proof (induction bs arbitrary: c st)
  case (Cons b bs)
  show ?case
  proof (cases "tc_persistent_refs c (br_content_hash b)")
    case (Some n)
    then show ?thesis
      using Cons.IH [of "c\<lparr>tc_persistent_refs := (tc_persistent_refs c)(br_content_hash b \<mapsto> n + 1)\<rparr>" st] Cons.prems by simp
  next
    case None
    obtain p where p: "p \<in> P" "block_slice bytes b = Inr p" "br_content_hash b = hash p" using Cons.prems(4) by auto
    obtain st1 where put: "put_block p st = (Inr (hash p), st1)" "unspoilt P st1"
      using put_block_total [OF Cons.prems(2) p(1) Cons.prems(3)] by blast
    let ?c = "c\<lparr>tc_persistent := Some st1, tc_persistent_refs := (tc_persistent_refs c)(br_content_hash b \<mapsto> 1),
      tc_storage_used := tc_storage_used c + br_len b\<rparr>"
    obtain c' st' where "put_blocks bytes bs ?c = (Inr (), c')" "tc_persistent c' = Some st'" "unspoilt P st'"
      "tc_accounting c' = tc_accounting c"
      using Cons.IH [of ?c st1] put(2) Cons.prems(3,4) by auto
    with None p put(1) Cons.prems(1) show ?thesis by (auto simp: Let_def)
  qed
qed auto

lemma persist_total:
  assumes e: "tc_entries c (oid_to_hex oid) = Some e" "\<not> has_tier e Persistent" "en_byte_len e = of_nat (length payload)"
    and m: "materialize_payload ops oid c = (Inr payload, c)"
    and st: "tc_persistent c = Some st" "unspoilt (set (pieces (unat (rc_block_size (tc_config c))) payload)) st"
      "inj_on hash (set (pieces (unat (rc_block_size (tc_config c))) payload))" "wf_oid oid" "length payload < 2 ^ 64"
    and ch: "chunk payload (rc_block_size (tc_config c)) = Inr blocks" "numel (ck_shape (en_compat e)) = Inr n"
    and room: "budgets_ok c" "new_storage_bytes blocks c \<le> acct_free KPersistent (tc_accounting c)"
  shows "\<exists>c' st'. persist ops oid c = (Inr (), c') \<and> tc_persistent c' = Some st' \<and> st_faults st' = [] \<and> tc_entries c' (oid_to_hex oid) \<noteq> None"
proof -
  let ?P = "set (pieces (unat (rc_block_size (tc_config c))) payload)" and ?a = "tc_accounting c" and ?new = "new_storage_bytes blocks c"
  have "budget_inv (ac_storage ?a)" "?new \<le> budget_free (ac_storage ?a)"
    using budgets_ok_inv [OF room(1)] room(2) by (simp_all add: accounting_inv_def acct_free_def)
  from reserve_commit [OF this] obtain b1 b2 where
    b: "budget_reserve ?new (ac_storage ?a) = (Inr (), b1)" "budget_commit ?new b1 = (Inr (), b2)" by blast
  let ?c1 = "c\<lparr>tc_accounting := ?a\<lparr>ac_storage := b1\<rparr>\<rparr>"
  have r1: "on_accounting (acct_reserve KPersistent ?new) c = (Inr (), ?c1)"
    using b(1) by (simp add: on_accounting_def acct_reserve_def on_tier_def)
  have sl: "\<forall>x \<in> set blocks. \<exists>p \<in> ?P. block_slice payload x = Inr p \<and> br_content_hash x = hash p"
    using list_all2_set1 [OF chunk_slices [OF ch(1) st(5)]] by fast
  obtain c2 st2 where p: "put_blocks payload blocks ?c1 = (Inr (), c2)" "tc_persistent c2 = Some st2" "unspoilt ?P st2"
    "tc_accounting c2 = ?a\<lparr>ac_storage := b1\<rparr>"
    using put_blocks_total [OF _ st(2,3) sl, of ?c1] st(1) by auto
  let ?c3 = "c2\<lparr>tc_accounting := ?a\<lparr>ac_storage := b2\<rparr>\<rparr>"
  have r3: "on_accounting (commit_reserve KPersistent ?new) c2 = (Inr (), ?c3)"
    using b(2) p(4) by (simp add: on_accounting_def commit_reserve_def on_tier_def)
  have q: "st_faults st2 = []" using p(3) by (simp add: unspoilt_def)
  obtain st4 where w: "write_manifest (meta_of oid e n blocks) st2 = (Inr (), st4)" "st_faults st4 = []"
    using atomic_write_ok [OF q, of "(ManifestsDir, oid_to_hex oid @ ''.manifest'')" "encode_manifest (meta_of oid e n blocks)"]
    by (auto simp: write_manifest_def Let_def manifest_path_ok [OF st(4)] meta_of_def)
  have r4: "on_store (write_manifest (meta_of oid e n blocks)) ?c3 = (Inr (), ?c3\<lparr>tc_persistent := Some st4\<rparr>)"
    using w(1) p(2) by (simp add: on_store_def)
  have "add_persistent oid payload e c = (Inr (), push_placement oid PPersistent (?c3\<lparr>tc_persistent := Some st4\<rparr>))"
    using st(1) ch chunk_valid [OF ch(1) st(5)] e(3) r1 p(1) r3 r4 [unfolded meta_of_def] room(2)
    by (simp add: add_persistent_def Let_def st_then_def [of "on_accounting _"] st_then_def [of "put_blocks _ _"] st_then_def [of "on_store _"] not_less)
  then have "add_placement ops oid Persistent payload c = (Inr (), push_placement oid PPersistent (?c3\<lparr>tc_persistent := Some st4\<rparr>))"
    using e(1,3) by (simp add: add_placement_def get_meta_def)
  then have "persist ops oid c = (Inr (), upd_entry oid (\<lambda>e. e\<lparr>en_durable := True\<rparr>) (push_placement oid PPersistent (?c3\<lparr>tc_persistent := Some st4\<rparr>)))"
    using e(1,2) m by (simp add: persist_def entry_has_tier_def get_meta_def)
  moreover have "tc_entries c2 = tc_entries c" using put_blocks_entries [of payload blocks ?c1] p(1) by simp
  ultimately show ?thesis using w(2) e(1) by (simp add: push_placement_def upd_entry_entries)
qed

section \<open>Recovering\<close>

lemma count_blocks_persistent [simp]: "tc_persistent (count_blocks bs c) = tc_persistent c"
  by (induction bs arbitrary: c) (auto split: option.splits)

lemma insert_entry_persistent [simp]: "tc_persistent (insert_entry oid e c) = tc_persistent c"
  by (simp add: insert_entry_def)

text \<open>The entry that recovery makes of a manifest: persistent only, with the manifest's blocks.\<close>

definition recovered_from :: "persist_meta \<Rightarrow> entry \<Rightarrow> bool" where
  "recovered_from m e \<longleftrightarrow> en_address e = address_new (pe_namespace m) (pe_key m) (pe_generation m) \<and> en_compat e = pe_compat m \<and> en_compat_id e = compat_id (pe_compat m) \<and>
     en_byte_len e = pe_byte_len m \<and> en_blocks e = pe_blocks m \<and> en_placements e = [PPersistent] \<and> en_durable e \<and>
     \<not> is_quarantined e"

lemma recover_meta_self:
  assumes "oid_from_hex (pe_object_id m) = Inr oid" "tc_persistent c = Some st" "blocks_exist st (pe_blocks m)"
  shows "\<exists>e. tc_entries (snd (recover_meta m (rep, c))) (oid_to_hex oid) = Some e \<and> recovered_from m e"
  using assms
  by (simp add: recover_meta_def Let_def insert_entry_def recovered_from_def is_quarantined_def move_flags_default_def)

lemma recover_meta_other:
  "oid_from_hex (pe_object_id m) \<noteq> Inr oid \<Longrightarrow> tc_entries (snd (recover_meta m (rep, c))) (oid_to_hex oid) = tc_entries c (oid_to_hex oid)"
  by (auto simp: recover_meta_def Let_def insert_entry_def split: sum.splits)

lemma recover_fold:
  assumes "\<forall>m' \<in> set ms. oid_from_hex (pe_object_id m') = Inr oid \<longrightarrow> m' = m" "oid_from_hex (pe_object_id m) = Inr oid"
    "tc_persistent (snd rc) = Some st" "blocks_exist st (pe_blocks m)"
    "m \<in> set ms \<or> (\<exists>e. tc_entries (snd rc) (oid_to_hex oid) = Some e \<and> recovered_from m e)"
  shows "tc_persistent (snd (fold recover_meta ms rc)) = Some st \<and>
    (\<exists>e. tc_entries (snd (fold recover_meta ms rc)) (oid_to_hex oid) = Some e \<and> recovered_from m e)"
  using assms
proof (induction ms arbitrary: rc)
  case (Cons x ms)
  obtain rep c where rc: "rc = (rep, c)" by fastforce
  have st: "tc_persistent (snd (recover_meta x rc)) = Some st" using Cons.prems(3) by (simp add: rc recover_meta_persistent)
  have "m \<in> set ms \<or> (\<exists>e. tc_entries (snd (recover_meta x rc)) (oid_to_hex oid) = Some e \<and> recovered_from m e)"
  proof (cases "oid_from_hex (pe_object_id x) = Inr oid")
    case True
    then have "x = m" using Cons.prems(1) by simp
    then show ?thesis using recover_meta_self [OF Cons.prems(2) _ Cons.prems(4), of c rep] Cons.prems(3) by (simp add: rc)
  next
    case False
    then show ?thesis using Cons.prems(2,5) recover_meta_other [OF False, of rep c] by (auto simp: rc)
  qed
  with Cons.IH [OF _ Cons.prems(2) st Cons.prems(4)] Cons.prems(1) show ?case by simp
qed simp

lemma store_recover_quiet: "st_faults st = [] \<Longrightarrow> snd (store_recover names st) = st"
proof (induction names)
  case (Cons name names)
  then have "snd (recover_entry name st) = st"
    by (simp add: recover_entry_def fs_read_def split: sum.splits)
  then show ?case using Cons by (simp add: case_prod_beta)
qed simp

lemma reconstruct_blocks_quiet:
  assumes "st_faults st = []" "\<forall>b \<in> set bs. file_ok st (br_content_hash b)"
  shows "reconstruct_blocks bs out st = (fold_r (reconstruct_step (file_get st)) bs out, st)"
  using assms(2)
proof (induction bs arbitrary: out)
  case (Cons b bs)
  then obtain data where d: "block_file st (br_content_hash b) = Some data" "hash data = br_content_hash b"
    by (auto simp: file_ok_def)
  have "reconstruct_step (\<lambda>_. Inr data) b out = reconstruct_step (file_get st) b out"
    by (simp add: reconstruct_step_def d(1))
  then show ?case
    using get_block_ok [OF assms(1) d] Cons by (cases "reconstruct_step (file_get st) b out") auto
qed simp

lemma reconstruct_store_quiet:
  assumes "st_faults st = []" "\<forall>b \<in> set bs. file_ok st (br_content_hash b)"
  shows "reconstruct_store bs n st = (reconstruct bs n (file_get st), st)"
  using reconstruct_blocks_quiet [OF assms]
  by (cases "validate_block_list bs n"; cases "vec_zeroed (unat n)") (simp_all add: reconstruct_store_def reconstruct_def)

lemma blocks_exist_ok: "\<forall>b \<in> set bs. file_ok st (br_content_hash b) \<Longrightarrow> blocks_exist st bs"
proof -
  have "block_exists h st" if "file_ok st h" for h
    using that file_ok_length [OF that] by (auto simp: block_exists_def block_path_ok fs_exists_def file_ok_def)
  then show "\<forall>b \<in> set bs. file_ok st (br_content_hash b) \<Longrightarrow> ?thesis" by (simp add: blocks_exist_def list_all_iff)
qed

text \<open>From disk to payload.\<close>

lemma recovered_materialize:
  assumes files: "\<forall>b \<in> set (pe_blocks m). file_ok st (br_content_hash b)" "st_faults st = []"
    and ch: "chunk payload bs = Inr (pe_blocks m)" "pe_byte_len m = of_nat (length payload)" "length payload < 2 ^ 63"
    and pieces: "\<And>p. p \<in> set (pieces (unat bs) payload) \<Longrightarrow> block_file st (hash p) = Some p"
    and m: "meta_ok m" "oid_from_hex (pe_object_id m) = Inr oid"
    and name: "name \<in> set names" "path_extension name = Some ''manifest''" "st_files st (ManifestsDir, name) = Some (encode_manifest m)"
    and unique: "\<And>name' m'. meta_ok m' \<Longrightarrow> name' \<in> set names \<Longrightarrow> path_extension name' = Some ''manifest'' \<Longrightarrow> st_files st (ManifestsDir, name') = Some (encode_manifest m') \<Longrightarrow>
        oid_from_hex (pe_object_id m') = Inr oid \<Longrightarrow> m' = m"
    and d: "tc_persistent d = Some st" "recover names d = (r, d')"
  shows "materialize_payload ops oid d' = (Inr payload, d') \<and> (\<exists>e. tc_entries d' (oid_to_hex oid) = Some e \<and> recovered_from m e)"
proof -
  obtain ms where ms: "store_recover names st = (ms, st)"
    using store_recover_quiet [OF files(2), of names] by (metis prod.collapse)
  have run: "d' = snd (fold recover_meta ms (\<lparr>rv_recovered = 0, rv_skipped = 0\<rparr>, d\<lparr>tc_persistent := Some st\<rparr>))"
    using d ms by (simp add: recover_def case_prod_beta)
  have mem: "m \<in> set ms" using store_recover_complete [OF files(2) name m(1)] ms by simp
  have uniq: "\<forall>m' \<in> set ms. oid_from_hex (pe_object_id m') = Inr oid \<longrightarrow> m' = m"
    using store_recover_sound [OF ms] unique by blast
  have f: "tc_persistent d' = Some st \<and> (\<exists>e. tc_entries d' (oid_to_hex oid) = Some e \<and> recovered_from m e)"
    unfolding run by (rule recover_fold [OF uniq m(2) _ blocks_exist_ok [OF files(1)]]) (simp_all add: mem)
  then obtain e where e: "tc_entries d' (oid_to_hex oid) = Some e" "recovered_from m e" by blast
  have "reconstruct (pe_blocks m) (of_nat (length payload)) (file_get st) = Inr payload"
    by (rule reconstruct_chunk [OF ch(1,3)]) (simp add: pieces)
  then show ?thesis
    using e f ch(2) reconstruct_store_quiet [OF files(2,1)]
    by (simp add: materialize_payload_def get_meta_def recovered_from_def placement_tiers_def from_persistent_def)
qed

text \<open>Persist, restart on the same directory, recover, read.  The new process may find files gone that no block and no
  manifest of an object needs, as after the cleanup of temporary files.\<close>

definition same_objects :: "store \<Rightarrow> store \<Rightarrow> bool" where
  "same_objects st st' \<longleftrightarrow> (\<forall>h. length (digest_bytes h) = 32 \<longrightarrow> block_file st' h = block_file st h) \<and>
     (\<forall>oid. wf_oid oid \<longrightarrow> st_files st' (ManifestsDir, oid_to_hex oid @ ''.manifest'') = st_files st (ManifestsDir, oid_to_hex oid @ ''.manifest'')) \<and>
     st_files st' \<subseteq>\<^sub>m st_files st"

lemma persist_restart_on:
  assumes run: "persist ops oid c = (Inr (), c')" and e: "tc_entries c (oid_to_hex oid) = Some e" "\<not> has_tier e Persistent"
    and m: "materialize_payload ops oid c = (Inr payload, c1)"
    and st: "tc_persistent c = Some st" "disk_ok c" "wf_oid oid" and len: "length payload < 2 ^ 63"
    and obj: "valid_key (en_compat e)" "fits (compat_encode (en_compat e))" "rust_address (en_address e)"
      "shape_byte_len (ck_shape (en_compat e)) (byte_size (ck_dtype (en_compat e))) = Inr (en_byte_len e)"
    and inj: "inj_on hash (set (pieces (unat (rc_block_size (tc_config c))) payload) \<union> ran (st_files st))"
    and st': "tc_persistent c' = Some st'" and sd: "same_objects st' sd" "st_faults sd = []"
    and d: "tc_persistent d = Some sd" "recover names d = (r, d')"
    and names: "oid_to_hex oid @ ''.manifest'' \<in> set names"
      "\<And>name m'. name \<in> set names \<Longrightarrow> st_files st' (ManifestsDir, name) = Some (encode_manifest m') \<Longrightarrow>
        oid_from_hex (pe_object_id m') = Inr oid \<Longrightarrow> name = oid_to_hex oid @ ''.manifest''"
  shows "materialize_payload ops2 oid d' = (Inr payload, d') \<and> (\<exists>e'. tc_entries d' (oid_to_hex oid) = Some e' \<and>
    en_placements e' = [PPersistent] \<and> en_byte_len e' = of_nat (length payload) \<and> \<not> is_quarantined e')"
proof -
  let ?bs = "rc_block_size (tc_config c)"
  have len64: "length payload < 2 ^ 64" using len by simp
  from run e m st len64 obtain blocks n where w: "chunk payload ?bs = Inr blocks"
    "en_byte_len e = of_nat (length payload)" "validate_block_list blocks (en_byte_len e) = Inr ()"
    "numel (ck_shape (en_compat e)) = Inr n"
    "st_files st' (ManifestsDir, oid_to_hex oid @ ''.manifest'') = Some (encode_manifest (meta_of oid e n blocks))"
    "\<forall>b \<in> set blocks. file_ok st' (br_content_hash b)"
    "\<forall>h data. length (digest_bytes h) = 32 \<longrightarrow> block_file st' h = Some data \<longrightarrow>
       block_file st h = Some data \<or> (\<exists>b \<in> set blocks. block_slice payload b = Inr data)"
    by (rule persist_writes) (use st' in auto)
  let ?m = "meta_of oid e n blocks"
  have same: "\<And>h. length (digest_bytes h) = 32 \<Longrightarrow> block_file sd h = block_file st' h"
    "st_files sd (ManifestsDir, oid_to_hex oid @ ''.manifest'') = st_files st' (ManifestsDir, oid_to_hex oid @ ''.manifest'')"
    "\<And>p x. st_files sd p = Some x \<Longrightarrow> st_files st' p = Some x"
    using sd(1) st(3) by (auto simp: same_objects_def map_le_def dom_def)
  note sl = chunk_slices [OF w(1) len64]
  have "block_ok b" if "b \<in> set blocks" for b
    using list_all2_set1 [OF sl that] by (auto simp: block_ok_def)
  then have ok: "meta_ok ?m"
    using obj w(1-4) chunk_length [OF w(1)] rust_str_oid [OF st(3)]
    by (simp add: meta_ok_def body_ok_def meta_of_def rust_address_def)
  have pieces: "block_file st' (hash p) = Some p" if p: "p \<in> set (pieces (unat ?bs) payload)" for p
  proof -
    obtain b where b: "b \<in> set blocks" "br_content_hash b = hash p" using list_all2_set2 [OF sl p] by blast
    then obtain q where q: "block_file st' (hash p) = Some q" "hash q = hash p" using w(6) by (auto simp: file_ok_def)
    have pc: "q \<in> set (pieces (unat ?bs) payload)" if "b' \<in> set blocks" "block_slice payload b' = Inr q" for b'
      using list_all2_set1 [OF sl that(1)] that(2) by auto
    have "q \<in> set (pieces (unat ?bs) payload) \<union> ran (st_files st)" proof -
      have "block_file st (hash p) = Some q \<or> (\<exists>b \<in> set blocks. block_slice payload b = Inr q)" using w(7) q(1) by simp
      then show ?thesis using pc by (auto intro: ranI)
    qed
    with inj p q have "q = p" by (auto dest: inj_onD)
    with q(1) show ?thesis by simp
  qed
  have hexne: "oid_to_hex oid \<noteq> []" using st(3) by (auto simp: oid_to_hex_def to_hex_def wf_oid_def dest: arg_cong [of _ _ length])
  have mo: "pe_blocks ?m = blocks" "pe_byte_len ?m = of_nat (length payload)" "oid_from_hex (pe_object_id ?m) = Inr oid"
    using st(3) w(2) by (simp_all add: meta_of_def oid_from_to_hex)
  have "materialize_payload ops2 oid d' = (Inr payload, d') \<and> (\<exists>e'. tc_entries d' (oid_to_hex oid) = Some e' \<and> recovered_from ?m e')"
  proof (rule recovered_materialize [where m = ?m and st = sd and bs = ?bs and name = "oid_to_hex oid @ ''.manifest''"])
    fix name' m' assume m': "meta_ok m'" and *: "name' \<in> set names" "path_extension name' = Some ''manifest''" "st_files sd (ManifestsDir, name') = Some (encode_manifest m')"
      "oid_from_hex (pe_object_id m') = Inr oid"
    have f: "st_files st' (ManifestsDir, name') = Some (encode_manifest m')" by (rule same(3) [OF *(3)])
    with names(2) [OF *(1) f *(4)] w(5) have "encode_manifest m' = encode_manifest ?m" by (metis option.inject)
    with decode_encode_manifest [OF m'] decode_encode_manifest [OF ok] show "m' = ?m" by (metis sum.inject(2))
  next
    show "\<forall>b \<in> set (pe_blocks ?m). file_ok sd (br_content_hash b)"
      using w(6) mo(1) same(1) file_ok_length unfolding file_ok_def by metis
    show "chunk payload ?bs = Inr (pe_blocks ?m)" using w(1) mo(1) by simp
    show "path_extension (oid_to_hex oid @ ''.manifest'') = Some ''manifest''" using hexne by (simp add: manifest_extension)
    show "st_files sd (ManifestsDir, oid_to_hex oid @ ''.manifest'') = Some (encode_manifest ?m)" using w(5) same(2) by simp
    show "block_file sd (hash p) = Some p" if "p \<in> set (pieces (unat ?bs) payload)" for p using pieces [OF that] same(1) by simp
  qed (rule mo ok len names(1) d sd(2) | simp)+
  then show ?thesis using mo(2) by (auto simp: recovered_from_def)
qed

lemma persist_restart:
  assumes run: "persist ops oid c = (Inr (), c')" and e: "tc_entries c (oid_to_hex oid) = Some e" "\<not> has_tier e Persistent"
    and m: "materialize_payload ops oid c = (Inr payload, c1)"
    and st: "tc_persistent c = Some st" "disk_ok c" "wf_oid oid" and len: "length payload < 2 ^ 63"
    and obj: "valid_key (en_compat e)" "fits (compat_encode (en_compat e))" "rust_address (en_address e)"
      "shape_byte_len (ck_shape (en_compat e)) (byte_size (ck_dtype (en_compat e))) = Inr (en_byte_len e)"
    and inj: "inj_on hash (set (pieces (unat (rc_block_size (tc_config c))) payload) \<union> ran (st_files st))"
    and st': "tc_persistent c' = Some st'" and d: "tc_persistent d = Some (st'\<lparr>st_faults := []\<rparr>)" "recover names d = (r, d')"
    and names: "oid_to_hex oid @ ''.manifest'' \<in> set names"
      "\<And>name m'. name \<in> set names \<Longrightarrow> st_files st' (ManifestsDir, name) = Some (encode_manifest m') \<Longrightarrow>
        oid_from_hex (pe_object_id m') = Inr oid \<Longrightarrow> name = oid_to_hex oid @ ''.manifest''"
  shows "materialize_payload ops2 oid d' = (Inr payload, d')"
  by (rule persist_restart_on [OF run e m st len obj inj st' _ _ d names, THEN conjunct1]) (simp_all add: same_objects_def)

section \<open>Deletion is durable\<close>

text \<open>What removing placements does to the directory: files only disappear, and a disk without faults stays so.\<close>

definition shrinks :: "store option \<Rightarrow> store option \<Rightarrow> bool" where
  "shrinks o1 o2 \<longleftrightarrow> rel_option (\<lambda>st st'. st_files st' \<subseteq>\<^sub>m st_files st \<and> (st_faults st = [] \<longrightarrow> st_faults st' = [])) o1 o2"

lemma shrinks_refl [simp]: "shrinks x x"
  by (simp add: shrinks_def option.rel_refl)

lemma shrinks_trans: "shrinks x y \<Longrightarrow> shrinks y z \<Longrightarrow> shrinks x z"
  by (auto simp: shrinks_def option.rel_sel intro: map_le_trans)

lemma fs_remove_file_shrinks: "shrinks (Some st) (Some (snd (fs_remove_file p st)))"
proof -
  have "st_files (snd (fs_remove_file p st)) \<subseteq>\<^sub>m st_files st"
    using fs_remove_file_files [of p st] by (cases "fs_remove_file p st") (auto simp: map_le_def split: if_splits)
  moreover have "st_faults st = [] \<Longrightarrow> st_faults (snd (fs_remove_file p st)) = []"
    by (simp add: fs_remove_file_def io_call_def next_fault_def)
  ultimately show ?thesis by (simp add: shrinks_def)
qed

lemma remove_shrinks:
  "shrinks x (map_option (\<lambda>st. snd (remove_block h st)) x)" "shrinks x (map_option (\<lambda>st. snd (remove_manifest name st)) x)"
  using fs_remove_file_shrinks
  by (cases x; cases "block_path h"; cases "manifest_path name"; simp add: remove_block_def remove_manifest_def)+

lemma release_persistent_shrinks: "shrinks (tc_persistent c) (tc_persistent (release_persistent bs c))"
proof (induction bs arbitrary: c)
  case (Cons b bs)
  let ?c = "case tc_persistent_refs c (br_content_hash b) of None \<Rightarrow> c
    | Some r \<Rightarrow> if r - 1 = 0 then
        c\<lparr>tc_persistent := map_option (\<lambda>st. snd (remove_block (br_content_hash b) st)) (tc_persistent c),
          tc_persistent_refs := (tc_persistent_refs c)(br_content_hash b := None),
          tc_storage_used := saturating_sub (tc_storage_used c) (br_len b)\<rparr>
      else c\<lparr>tc_persistent_refs := (tc_persistent_refs c)(br_content_hash b \<mapsto> r - 1)\<rparr>"
  have "shrinks (tc_persistent c) (tc_persistent ?c)" by (simp add: remove_shrinks split: option.splits)
  from shrinks_trans [OF this Cons.IH] show ?case by (simp only: release_persistent.simps)
qed simp

lemma release_blocks_persistent: "tc_persistent (snd (release_blocks bs c)) = tc_persistent c"
proof (induction bs arbitrary: c)
  case (Cons b bs)
  then show ?case by (simp add: Let_def st_then_def on_accounting_def case_prod_beta split: sum.splits)
qed simp

lemma free_placement_shrinks: "shrinks (tc_persistent c) (tc_persistent (snd (free_placement ops oid e p c)))"
proof (cases p)
  case PPersistent
  then show ?thesis
    using shrinks_trans [OF release_persistent_shrinks remove_shrinks(2)] by (simp add: remove_manifest_of_def)
qed (auto simp: release_blocks_persistent put_backend_def Let_def split: sum.splits prod.splits)

lemma remove_placement_shrinks: "shrinks (tc_persistent c) (tc_persistent (snd (remove_placement ops oid t c)))"
proof -
  have "tc_persistent (upd_entry oid f c) = tc_persistent c" for f by (simp add: upd_entry_def split: option.splits)
  then show ?thesis
    using free_placement_shrinks [of "upd_entry oid f c" for f] by (auto simp: remove_placement_def split: option.splits)
qed

lemma delete_shrinks:
  assumes "delete ops oid c = (Inr (), c')" "wf_oid oid" "tc_persistent c = Some st" "st_faults st = []"
  obtains st' where "tc_persistent c' = Some st'" "st_faults st' = []" "st_files st' \<subseteq>\<^sub>m st_files st"
    "st_files st' (ManifestsDir, oid_to_hex oid @ ''.manifest'') = None"
proof -
  obtain e where e: "tc_entries c (oid_to_hex oid) = Some e" using assms(1) by (auto simp: delete_def get_meta_def res)
  obtain r c1 where f: "fold_st (remove_placement ops oid) (placement_tiers e) c = (r, c1)" by fastforce
  have "shrinks (tc_persistent c) (tc_persistent (snd (fold_st (remove_placement ops oid) (placement_tiers e) c)))"
    by (rule fold_st_preserves [where P = "\<lambda>u. shrinks (tc_persistent c) (tc_persistent u)"])
       (use remove_placement_shrinks shrinks_trans in blast, simp)
  then obtain st1 where st1: "tc_persistent c1 = Some st1" "st_files st1 \<subseteq>\<^sub>m st_files st" "st_faults st1 = []"
    using f assms(3,4) by (auto simp: shrinks_def option_rel_Some1)
  let ?st = "snd (remove_manifest (oid_to_hex oid) st1)"
  have c': "tc_persistent c' = Some ?st"
    using assms(1) e f st1(1)
    by (auto simp: delete_def get_meta_def st_then_def Let_def remove_manifest_of_def split: sum.splits option.splits)
  have s: "st_files ?st \<subseteq>\<^sub>m st_files st1 \<and> st_faults ?st = []"
    using remove_shrinks(2) [of "Some st1" "oid_to_hex oid"] st1(3) by (simp add: shrinks_def)
  have "st_files ?st (ManifestsDir, oid_to_hex oid @ ''.manifest'') = None"
    using assms(2) st1(3)
    by (auto simp: remove_manifest_def manifest_path_ok fs_exists_def fs_remove_file_def io_call_def next_fault_def)
  with c' s st1(2) show thesis by (intro that) (auto intro: map_le_trans)
qed

lemma recover_unknown:
  assumes "recover names d = (r, tc)" "tc_persistent d = Some st" "tc_entries d (oid_to_hex oid) = None"
    "\<And>name m. st_files st (ManifestsDir, name) = Some (encode_manifest m) \<Longrightarrow> oid_from_hex (pe_object_id m) \<noteq> Inr oid"
  shows "tc_entries tc (oid_to_hex oid) = None"
proof -
  obtain ms st1 where sr: "store_recover names st = (ms, st1)" by fastforce
  have tc: "tc = snd (fold recover_meta ms (\<lparr>rv_recovered = 0, rv_skipped = 0\<rparr>, d\<lparr>tc_persistent := Some st1\<rparr>))"
    using assms(1,2) sr by (auto simp: recover_def case_prod_beta)
  have "\<forall>m \<in> set ms. oid_from_hex (pe_object_id m) \<noteq> Inr oid" using store_recover_sound [OF sr] assms(4) by blast
  then have "tc_entries (snd (fold recover_meta ms rc)) (oid_to_hex oid) = tc_entries (snd rc) (oid_to_hex oid)" for rc :: "recovery_report \<times> 'a cache"
  proof (induction ms arbitrary: rc)
    case (Cons m ms)
    then show ?case using recover_meta_other [of m oid "fst rc" "snd rc"] by simp
  qed simp
  then show ?thesis using tc assms(3) by simp
qed

text \<open>After a deletion a new process does not find the object again.\<close>

lemma delete_restart:
  assumes "delete ops oid c = (Inr (), c')" "wf_oid oid" "tc_persistent c = Some st" "st_faults st = []"
    and unique: "\<And>name m. st_files st (ManifestsDir, name) = Some (encode_manifest m) \<Longrightarrow> oid_from_hex (pe_object_id m) = Inr oid \<Longrightarrow>
        name = oid_to_hex oid @ ''.manifest''"
    and d: "tc_entries d (oid_to_hex oid) = None" "tc_persistent d = tc_persistent c'" "recover names d = (r, d')"
  shows "tc_entries d' (oid_to_hex oid) = None"
proof -
  from assms(1-4) obtain st' where st': "tc_persistent c' = Some st'" "st_files st' \<subseteq>\<^sub>m st_files st"
    "st_files st' (ManifestsDir, oid_to_hex oid @ ''.manifest'') = None" by (rule delete_shrinks)
  have sub: "st_files st p = Some x" if "st_files st' p = Some x" for p x using st'(2) that by (metis domI map_le_def)
  show ?thesis
    by (rule recover_unknown [OF d(3) _ d(1)]) (use d(2) st' unique sub in fastforce)+
qed

section \<open>Opening a directory\<close>

text \<open>Cleaning up removes files with the names of temporary files and nothing else.\<close>

lemma not_contains:
  assumes "\<And>i. i < length s \<Longrightarrow> s ! i = CHR ''.'' \<Longrightarrow> Suc i < length s \<longrightarrow> s ! Suc i \<noteq> CHR ''t''"
  shows "\<not> str_contains ''.tmp'' s"
proof
  assume "str_contains ''.tmp'' s"
  then obtain i where i: "take 4 (drop i s) = ''.tmp''" by (auto simp: str_contains_def list_ex_iff numeral_eq_Suc)
  then have "length (take 4 (drop i s)) = 4" by simp
  then have len: "i + 4 \<le> length s" by simp
  have "s ! i = take 4 (drop i s) ! 0" "s ! Suc i = take 4 (drop i s) ! 1" using len by simp_all
  then show False using assms [of i] len by (simp add: i)
qed

lemma hex_no_dot: "hex_path_valid s \<Longrightarrow> i < length s \<Longrightarrow> s ! i \<noteq> CHR ''.''"
  by (auto simp: hex_path_valid_def list_all_length is_ascii_hexdigit_def Let_def dest!: spec [of _ i])

lemma block_name_complete: "hex_path_valid s \<Longrightarrow> \<not> incomplete s"
proof -
  assume s: "hex_path_valid s"
  have "\<not> str_contains ''.tmp'' s" by (rule not_contains) (use hex_no_dot [OF s] in auto)
  moreover have "\<not> ends_with ''.bak'' s"
  proof
    assume "ends_with ''.bak'' s"
    then have e: "4 \<le> length s" "drop (length s - 4) s = ''.bak''" by (simp_all add: ends_with_def numeral_eq_Suc)
    have "s ! (length s - 4) = drop (length s - 4) s ! 0" using e(1) by simp
    then show False using hex_no_dot [OF s, of "length s - 4"] e by simp
  qed
  ultimately show ?thesis by (simp add: incomplete_def)
qed

lemma manifest_name_complete: "hex_path_valid s \<Longrightarrow> \<not> incomplete (s @ ''.manifest'')"
proof -
  assume s: "hex_path_valid s"
  have "\<not> str_contains ''.tmp'' (s @ ''.manifest'')"
  proof (rule not_contains, intro impI)
    fix i assume i: "i < length (s @ ''.manifest'')" "(s @ ''.manifest'') ! i = CHR ''.''"
    have "i = length s"
    proof (rule ccontr)
      assume "i \<noteq> length s"
      then consider "i < length s" | "i = length s + Suc (i - length s - 1)" "i - length s - 1 < 8"
        using i(1) by (cases "i < length s") auto
      then show False
      proof cases
        case 1
        then show False using i(2) hex_no_dot [OF s] by (simp add: nth_append)
      next
        case 2
        have "\<forall>k < 8. ''manifest'' ! k \<noteq> CHR ''.''" by (simp add: numeral_eq_Suc All_less_Suc2)
        then have "''manifest'' ! (i - length s - 1) \<noteq> CHR ''.''" using 2(2) by blast
        with i(2) show False by (subst (asm) 2(1)) (simp add: nth_append)
      qed
    qed
    then show "(s @ ''.manifest'') ! Suc i \<noteq> CHR ''t''" by (simp add: nth_append)
  qed
  moreover have "\<not> ends_with ''.bak'' (s @ ''.manifest'')" by (simp add: ends_with_def)
  ultimately show ?thesis by (simp add: incomplete_def)
qed

lemma cleanup_dir_files:
  "st_files (cleanup_dir ps st) \<subseteq>\<^sub>m st_files st \<and> (\<forall>p. \<not> incomplete (snd p) \<longrightarrow> st_files (cleanup_dir ps st) p = st_files st p) \<and>
     (st_faults st = [] \<longrightarrow> st_faults (cleanup_dir ps st) = [])"
proof (induction ps arbitrary: st)
  case (Cons p ps)
  let ?st = "if incomplete (snd p) then snd (fs_remove_file p st) else st"
  have "st_files ?st \<subseteq>\<^sub>m st_files st \<and> (\<forall>q. \<not> incomplete (snd q) \<longrightarrow> st_files ?st q = st_files st q)"
    using fs_remove_file_files [of p st] by (cases "fs_remove_file p st") (auto simp: map_le_def split: if_splits)
  moreover have "st_faults st = [] \<longrightarrow> st_faults ?st = []"
    by (simp add: fs_remove_file_def io_call_def next_fault_def)
  ultimately show ?case using Cons.IH [of ?st] by (auto intro: map_le_trans)
qed simp

lemma store_open_files:
  assumes "store_open blocks manifests st = (r, st')"
  shows "st_files st' \<subseteq>\<^sub>m st_files st" "\<not> incomplete (snd p) \<Longrightarrow> st_files st' p = st_files st p"
    "st_faults st = [] \<Longrightarrow> r = Inr () \<and> st_faults st' = []"
proof -
  let ?mk = "io_call (Pair (Inr ())) (\<lambda>_ st. st)"
  have mk: "st_files (snd (?mk s)) = st_files s" for s :: store
    by (auto simp: io_call_def next_fault_def split: list.splits option.splits fault.splits)
  have quiet: "st_faults st = [] \<Longrightarrow> ?mk st = (Inr (), st)" by (simp add: io_call_def next_fault_def)
  let ?s2 = "snd (?mk (snd (?mk st)))"
  have st': "st' = cleanup_incomplete blocks manifests ?s2 \<or> st_files st' = st_files st"
    using assms mk [of st] mk [of "snd (?mk st)"]
    by (auto simp: store_open_def st_then_def split: prod.splits sum.splits)
  have f: "st_files ?s2 = st_files st" by (simp add: mk)
  have c: "st_files (cleanup_incomplete blocks manifests ?s2) \<subseteq>\<^sub>m st_files st"
    "\<And>p. \<not> incomplete (snd p) \<Longrightarrow> st_files (cleanup_incomplete blocks manifests ?s2) p = st_files st p"
    using cleanup_dir_files [of _ ?s2] unfolding f cleanup_incomplete_def by blast+
  show "st_files st' \<subseteq>\<^sub>m st_files st" using st' c(1) by (metis map_le_refl)
  show "\<not> incomplete (snd p) \<Longrightarrow> st_files st' p = st_files st p" using st' c(2) by metis
  show "r = Inr () \<and> st_faults st' = []" if "st_faults st = []"
    using assms cleanup_dir_files [of _ st] quiet [OF that] that
    by (auto simp: store_open_def st_then_def cleanup_incomplete_def)
qed

lemma store_open_same_objects: "store_open blocks manifests st = (r, st') \<Longrightarrow> same_objects st st'"
  using store_open_files(1,2) [of blocks manifests st r st'] block_name_complete manifest_name_complete hex_path_valid_hex
  by (auto simp: same_objects_def to_hex_def oid_to_hex_def wf_oid_def)

end
