(* ===== verification/Cli.thy ===== *)
theory Cli
  imports Durability Server
begin

text \<open>
  The command line tool: \<^verbatim>\<open>args.rs\<close>, the local commands of \<^verbatim>\<open>commands.rs\<close>, the argument handling of
  \<^verbatim>\<open>server.rs\<close> and \<^verbatim>\<open>main.rs\<close>.  A command works on the directories, the files and the lines it prints; every
  command opens the cache anew.  Sizes for people are printed with floating point and are an argument.
\<close>

section \<open>Arguments\<close>

type_synonym flags = "string \<rightharpoonup> string"

fun strip_prefix :: "string \<Rightarrow> string \<Rightarrow> string option" where
  "strip_prefix [] s = Some s"
| "strip_prefix (p # ps) [] = None"
| "strip_prefix (p # ps) (c # cs) = (if p = c then strip_prefix ps cs else None)"

fun parse_flags :: "string list \<Rightarrow> flags \<Rightarrow> flags" where
  "parse_flags [] flags = flags"
| "parse_flags (tok # rest) flags =
     (case strip_prefix ''--'' tok of
        Some key \<Rightarrow>
          (case rest of
             [] \<Rightarrow> flags(key \<mapsto> ''true'')
           | val # rest \<Rightarrow> parse_flags rest (flags(key \<mapsto> val)))
      | None \<Rightarrow> parse_flags rest (flags(''_pos'' \<mapsto> tok)))"

definition parse_args :: "string list \<Rightarrow> string \<times> flags" where
  "parse_args args = (case args of [] \<Rightarrow> ([], Map.empty) | sub # rest \<Rightarrow> (sub, parse_flags rest Map.empty))"

definition req_flag :: "flags \<Rightarrow> string \<Rightarrow> string result" where
  "req_flag flags name = ok_or (flags name) (InvalidArgument (''missing required --'' @ name))"

text \<open>\<open>str::parse\<close> for 64-bit unsigned integers: an optional plus sign, then digits with every step checked.\<close>

definition to_digit :: "char \<Rightarrow> u64 option" where
  "to_digit c = (let n = of_char c :: nat in if 48 \<le> n \<and> n \<le> 57 then Some (of_nat (n - 48)) else None)"

fun parse_digits :: "u64 \<Rightarrow> string \<Rightarrow> string + u64" where
  "parse_digits acc [] = Inr acc"
| "parse_digits acc (c # cs) =
     (case to_digit c of
        None \<Rightarrow> Inl ''invalid digit found in string''
      | Some x \<Rightarrow>
          (case checked_mul acc 10 of
             None \<Rightarrow> Inl ''number too large to fit in target type''
           | Some m \<Rightarrow>
               (case checked_add m x of
                  None \<Rightarrow> Inl ''number too large to fit in target type''
                | Some n \<Rightarrow> parse_digits n cs)))"

definition parse_u64 :: "string \<Rightarrow> string + u64" where
  "parse_u64 s =
     (if s = [] then Inl ''cannot parse integer from empty string''
      else if s = ''+'' \<or> s = ''-'' then Inl ''invalid digit found in string''
      else parse_digits 0 (if hd s = CHR ''+'' then tl s else s))"

definition num_flag :: "flags \<Rightarrow> string \<Rightarrow> u64 \<Rightarrow> u64 result" where
  "num_flag flags name dflt =
     (case flags name of
        Some v \<Rightarrow> (case parse_u64 v of Inl e \<Rightarrow> Inl (InvalidArgument (''invalid --'' @ name @ '': '' @ e)) | Inr n \<Rightarrow> Inr n)
      | None \<Rightarrow> Inr dflt)"

definition parse_dtype :: "string \<Rightarrow> dtype result" where
  "parse_dtype s =
     (if s = ''f64'' then Inr F64
      else if s = ''f32'' then Inr F32
      else if s = ''f16'' then Inr F16
      else if s = ''bf16'' then Inr BF16
      else if s = ''f8'' then Inr F8
      else if s = ''i64'' then Inr I64
      else if s = ''i32'' then Inr I32
      else if s = ''i16'' then Inr I16
      else if s = ''i8'' then Inr I8
      else if s = ''u64'' then Inr U64
      else if s = ''u32'' then Inr U32
      else if s = ''u16'' then Inr U16
      else if s = ''u8'' then Inr U8
      else if s = ''bool'' then Inr Bool
      else Inl (InvalidArgument (''unknown dtype '' @ s)))"

fun split_on :: "char \<Rightarrow> string \<Rightarrow> string list" where
  "split_on c [] = [[]]"
| "split_on c (x # xs) =
     (if x = c then [] # split_on c xs
      else (case split_on c xs of p # ps \<Rightarrow> (x # p) # ps | [] \<Rightarrow> [[x]]))"

fun parse_dims :: "string list \<Rightarrow> u64 list result" where
  "parse_dims [] = Inr []"
| "parse_dims (p # ps) =
     (case parse_u64 p of
        Inl e \<Rightarrow> Inl (InvalidArgument (''invalid shape dim '' @ p @ '': '' @ e))
      | Inr d \<Rightarrow> and_then (parse_dims ps) (\<lambda>ds. Inr (d # ds)))"

definition parse_shape :: "string \<Rightarrow> shape result" where
  "parse_shape s = and_then (if s = [] then Inr [] else parse_dims (split_on (CHR ''x'') s)) Shape_new"

definition parse_layout :: "string \<Rightarrow> layout" where
  "parse_layout s = (if s = ''col'' \<or> s = ''column'' then ColMajor else RowMajor)"

definition parse_tier :: "string \<Rightarrow> tier result" where
  "parse_tier s =
     (if s = ''host'' then Inr Host
      else if s = ''persistent'' then Inr Persistent
      else if s = ''accelerator'' \<or> s = ''accel'' then Inr (Accelerator (backend_cpu 0))
      else Inl (InvalidArgument (''unknown tier '' @ s)))"

section \<open>The world of a command\<close>

text \<open>\<open>cv_disks\<close> are the cache directories by path, \<open>cv_list\<close> the order in which a directory is listed; \<open>cv_input\<close> is what
  reading a file gives and \<open>cv_fail\<close> whether writing one fails; \<open>cv_files\<close> and \<open>cv_out\<close> are what was written;
  \<open>cv_clock\<close> and \<open>cv_iter\<close> go to the cache a command opens, and \<open>cv_world\<close> is the network.\<close>

record 'w cli =
  cv_disks :: "string \<Rightarrow> store"
  cv_list :: "dir \<Rightarrow> store \<Rightarrow> string list"
  cv_input :: "string \<Rightarrow> string + u8 list"
  cv_fail :: "string \<Rightarrow> string option"
  cv_files :: "(string \<times> u8 list) list"
  cv_out :: "string list"
  cv_clock :: "nat \<Rightarrow> u64"
  cv_iter :: "(string \<rightharpoonup> entry) \<Rightarrow> string list"
  cv_world :: 'w

type_synonym ('w, 'x) cli_op = "'w cli \<Rightarrow> 'x result \<times> 'w cli"

definition println :: "string \<Rightarrow> ('w, unit) cli_op" where
  "println line c = (Inr (), c\<lparr>cv_out := cv_out c @ [line]\<rparr>)"

definition cli_config :: "string \<Rightarrow> u64 \<Rightarrow> runtime_config" where
  "cli_config path capacity =
     config_default\<lparr>rc_host_capacity := max capacity (push_bit 20 1), rc_persistent_path := Some path\<rparr>"

definition open_store :: "string \<Rightarrow> u64 \<Rightarrow> 'w cli \<Rightarrow> cpu_backend cache result" where
  "open_store path capacity c =
     (let disk = cv_disks c path; blocks = cv_list c BlocksDir disk; manifests = cv_list c ManifestsDir disk in
      with_backends cpu_ops cpu_new (cli_config path capacity) [] disk blocks manifests
        (cv_list c ManifestsDir (snd (store_open blocks manifests disk))) (cv_clock c) (cv_iter c))"

text \<open>Open the cache in a directory, run \<open>f\<close> on it and leave the directory as \<open>f\<close> left it.  When opening fails, the
  directory is as far as opening the store brought it.\<close>

definition in_store :: "string \<Rightarrow> u64 \<Rightarrow> (cpu_backend, 'a) op \<Rightarrow> ('w, 'a) cli_op" where
  "in_store path capacity f c =
     (case open_store path capacity c of
        Inl e \<Rightarrow>
          let disk = cv_disks c path;
              disk = snd (store_open (cv_list c BlocksDir disk) (cv_list c ManifestsDir disk) disk)
          in (Inl e, c\<lparr>cv_disks := (cv_disks c)(path := disk)\<rparr>)
      | Inr tc \<Rightarrow>
          let (r, tc) = f tc in
          (r, case tc_persistent tc of Some st \<Rightarrow> c\<lparr>cv_disks := (cv_disks c)(path := st)\<rparr> | None \<Rightarrow> c))"

section \<open>Sizes for people\<close>

text \<open>The code converts to a double, divides by 1024 and prints two decimals.  Conversion rounds to 53 significant bits,
  ties to even; a division by 1024 is exact, so that the double is a natural number over a power of 1024; and two
  decimals are the exact quotient rounded to hundredths, ties to even.\<close>

definition round_div :: "nat \<Rightarrow> nat \<Rightarrow> nat" where
  "round_div a b = (let q = a div b; r = a mod b in if 2 * r > b \<or> (2 * r = b \<and> odd q) then Suc q else q)"

fun bit_len :: "nat \<Rightarrow> nat" where
  "bit_len n = (if n = 0 then 0 else Suc (bit_len (n div 2)))"

declare bit_len.simps [simp del]

definition f64_of :: "u64 \<Rightarrow> nat" where
  "f64_of n = (let k = bit_len (unat n) - 53 in round_div (unat n) (2 ^ k) * 2 ^ k)"

definition UNITS :: "string list" where
  "UNITS = [''B'', ''KiB'', ''MiB'', ''GiB'', ''TiB'']"

text \<open>The loop: the double is \<open>v\<close> over \<open>1024 ^ u\<close>.\<close>

function scale_unit :: "nat \<Rightarrow> nat \<Rightarrow> nat" where
  "scale_unit v u = (if v \<ge> 1024 * 1024 ^ u \<and> u < length UNITS - 1 then scale_unit v (Suc u) else u)"
  by pat_completeness auto

termination
  by (relation "measure (\<lambda>(v, u). length UNITS - u)") auto

declare scale_unit.simps [simp del]

definition human_bytes :: "u64 \<Rightarrow> string" where
  "human_bytes n =
     (let v = f64_of n; u = scale_unit v 0 in
      if u = 0 then show_w n @ '' '' @ UNITS ! u
      else
        let h = round_div (v * 100) (1024 ^ u) in
        show_nat (h div 100) @ ''.'' @ [char_of (48 + h mod 100 div 10), char_of (48 + h mod 10)] @ '' '' @ UNITS ! u)"

lemma round_div_near:
  assumes "0 < b"
  shows "2 * b * round_div a b \<le> 2 * a + b \<and> 2 * a \<le> 2 * b * round_div a b + b"
proof -
  define q r where "q = a div b" and "r = a mod b"
  then have "a = b * q + r" "r < b" "round_div a b = (if 2 * r > b \<or> (2 * r = b \<and> odd q) then Suc q else q)"
    using assms by (simp_all add: round_div_def Let_def)
  then show ?thesis by (auto simp: algebra_simps)
qed

lemma bit_len_bound: "n < 2 ^ k \<Longrightarrow> bit_len n \<le> k"
proof (induction k arbitrary: n)
  case (Suc k)
  then have "bit_len (n div 2) \<le> k" by (intro Suc.IH) auto
  then show ?case by (subst bit_len.simps) simp
qed (simp add: bit_len.simps)

text \<open>Sizes below 8 PiB are printed from their exact value.\<close>

lemma f64_of_exact: "unat n < 2 ^ 53 \<Longrightarrow> f64_of n = unat n"
  using bit_len_bound [of "unat n" 53] by (simp add: f64_of_def round_div_def)

lemma scale_unit_bounds:
  "u \<le> 4 \<Longrightarrow> (u > 0 \<longrightarrow> 1024 ^ u \<le> v) \<Longrightarrow> scale_unit v u \<le> 4 \<and>
     (scale_unit v u > 0 \<longrightarrow> 1024 ^ scale_unit v u \<le> v) \<and> (scale_unit v u < 4 \<longrightarrow> v < 1024 ^ Suc (scale_unit v u))"
proof (induction v u rule: scale_unit.induct)
  case (1 v u)
  then show ?case by (subst (1 2 3 4 5) scale_unit.simps) (auto simp: UNITS_def)
qed

section \<open>Commands\<close>

definition opt_set :: "flags \<Rightarrow> string \<Rightarrow> (string option \<Rightarrow> compat_key \<Rightarrow> compat_key) \<Rightarrow> compat_key \<Rightarrow> compat_key" where
  "opt_set flags name f k = (case flags name of Some s \<Rightarrow> f (Some s) k | None \<Rightarrow> k)"

definition build_compat :: "flags \<Rightarrow> compat_key result" where
  "build_compat flags =
     and_then (case flags ''dtype'' of Some d \<Rightarrow> parse_dtype d | None \<Rightarrow> Inr F32) (\<lambda>dt.
     and_then (case flags ''shape'' of Some s \<Rightarrow> parse_shape s | None \<Rightarrow> Shape_new []) (\<lambda>sh.
     let lay = parse_layout (case flags ''layout'' of Some s \<Rightarrow> s | None \<Rightarrow> ''row'');
         k = compat_default\<lparr>ck_dtype := dt, ck_shape := sh, ck_layout := lay\<rparr>;
         k = opt_set flags ''model'' (\<lambda>v k. k\<lparr>ck_model := v\<rparr>) k;
         k = opt_set flags ''revision'' (\<lambda>v k. k\<lparr>ck_model_revision := v\<rparr>) k;
         k = opt_set flags ''runtime'' (\<lambda>v k. k\<lparr>ck_runtime_version := v\<rparr>) k;
         k = opt_set flags ''op'' (\<lambda>v k. k\<lparr>ck_operation := v\<rparr>) k;
         k = opt_set flags ''precision'' (\<lambda>v k. k\<lparr>ck_precision := v\<rparr>) k
     in Inr k))"

definition fill_bytes :: "nat \<Rightarrow> u8 list" where
  "fill_bytes n = map (\<lambda>i. of_nat (i mod 251)) [0..<n]"

definition read_payload :: "flags \<Rightarrow> 'w cli \<Rightarrow> u8 list result" where
  "read_payload flags c =
     (case flags ''file'' of
        Some f \<Rightarrow> (case cv_input c f of Inl m \<Rightarrow> Inl (Io m) | Inr bytes \<Rightarrow> Inr bytes)
      | None \<Rightarrow>
          (case flags ''fill'' of
             Some n \<Rightarrow>
               (case parse_u64 n of
                  Inl e \<Rightarrow> Inl (InvalidArgument (''bad --fill: '' @ e))
                | Inr n \<Rightarrow> Inr (fill_bytes (unat n)))
           | None \<Rightarrow> Inl (InvalidArgument ''need --file or --fill'')))"

definition DEFAULT_CAPACITY :: u64 where "DEFAULT_CAPACITY = push_bit 30 1"

definition cmd_create :: "flags \<Rightarrow> ('w, unit) cli_op" where
  "cmd_create flags c =
     st_then (Pair (req_flag flags ''store'')) (\<lambda>path.
     st_then (Pair (req_flag flags ''namespace'')) (\<lambda>ns.
     st_then (Pair (req_flag flags ''key'')) (\<lambda>key.
     st_then (Pair (num_flag flags ''generation'' 0)) (\<lambda>gen.
     st_then (Pair (build_compat flags)) (\<lambda>k.
     st_then (Pair (read_payload flags c)) (\<lambda>payload.
     st_then (Pair (num_flag flags ''capacity'' DEFAULT_CAPACITY)) (\<lambda>capacity.
     st_then (in_store path capacity (
         st_then (register cpu_ops ns key gen k payload) (\<lambda>oid.
         st_then (persist cpu_ops oid) (\<lambda>_ tc. (Inr (oid, entry_compat_id tc oid), tc))))) (\<lambda>(oid, compat).
     st_then (println (''created object '' @ oid_to_hex oid)) (\<lambda>_.
     st_then (println (''  namespace='' @ ns @ '' key='' @ key @ '' generation='' @ show_w gen)) (\<lambda>_.
     st_then (println (''  bytes='' @ show_nat (length payload))) (\<lambda>_.
     st_then (Pair compat) (\<lambda>compat.
     println (''  compat_id='' @ to_hex compat))))))))))))) c"

definition cmd_lookup :: "flags \<Rightarrow> ('w, unit) cli_op" where
  "cmd_lookup flags =
     st_then (Pair (req_flag flags ''store'')) (\<lambda>path.
     st_then (Pair (req_flag flags ''namespace'')) (\<lambda>ns.
     st_then (Pair (req_flag flags ''key'')) (\<lambda>key.
     st_then (Pair (num_flag flags ''generation'' 0)) (\<lambda>gen.
     st_then (Pair (build_compat flags)) (\<lambda>k.
     st_then (Pair (num_flag flags ''capacity'' DEFAULT_CAPACITY)) (\<lambda>capacity.
     st_then (in_store path capacity (\<lambda>tc. let (r, tc) = lookup ns key gen k tc in (Inr r, tc))) (\<lambda>r.
     case r of
       Inr res \<Rightarrow>
         fold_st println
           [''hit'', ''  object_id='' @ oid_to_hex (lr_object_id res),
            ''  source_tier='' @ (case lr_source_tier res of Some t \<Rightarrow> tier_label t | None \<Rightarrow> ''none''),
            ''  bytes='' @ show_w (lr_bytes res),
            ''  reconstruction_avoided_ns='' @ show_w (lr_reconstruction_avoided_ns res),
            ''  rationale='' @ lr_rationale res]
     | Inl e \<Rightarrow> println (''miss: '' @ error_display e))))))))"

definition with_resources :: "flags \<Rightarrow> (resource_report \<Rightarrow> string list) \<Rightarrow> ('w, unit) cli_op" where
  "with_resources flags f =
     st_then (Pair (req_flag flags ''store'')) (\<lambda>path.
     st_then (Pair (num_flag flags ''capacity'' DEFAULT_CAPACITY)) (\<lambda>capacity.
     st_then (in_store path capacity (\<lambda>tc. (Inr (resources tc), tc))) (\<lambda>r. fold_st println (f r))))"

definition cmd_list :: "flags \<Rightarrow> ('w, unit) cli_op" where
  "cmd_list flags = with_resources flags (\<lambda>r. [''objects='' @ show_w (rr_object_count r)])"

definition cmd_stats :: "flags \<Rightarrow> ('w, unit) cli_op" where
  "cmd_stats flags = with_resources flags (\<lambda>r.
     [''host_used='' @ show_w (rr_host_used r) @ '' ('' @ human_bytes (rr_host_used r) @ '')'',
      ''host_capacity='' @ show_w (rr_host_capacity r) @ '' ('' @ human_bytes (rr_host_capacity r) @ '')'',
      ''host_reserved='' @ show_w (rr_host_reserved r),
      ''accel_used='' @ show_w (rr_accel_used r),
      ''storage_used='' @ show_w (rr_storage_used r) @ '' ('' @ human_bytes (rr_storage_used r) @ '')'',
      ''storage_capacity='' @ show_w (rr_storage_capacity r),
      ''objects='' @ show_w (rr_object_count r),
      ''blocks='' @ show_w (rr_block_count r),
      ''replicas='' @ show_w (rr_replica_count r)])"

definition object_flag :: "flags \<Rightarrow> object_id result" where
  "object_flag flags = and_then (ok_or (flags ''object'') (InvalidArgument ''need --object'')) oid_from_hex"

definition tier_flag :: "flags \<Rightarrow> string \<Rightarrow> tier result" where
  "tier_flag flags dflt = parse_tier (case flags ''tier'' of Some t \<Rightarrow> t | None \<Rightarrow> dflt)"

definition object_action :: "flags \<Rightarrow> string \<Rightarrow> object_id \<Rightarrow> (cpu_backend, unit) op" where
  "object_action flags action oid =
     (if action = ''persist'' then persist cpu_ops oid
      else if action = ''evict'' then evict cpu_ops oid
      else if action = ''delete'' then delete cpu_ops oid
      else if action = ''replicate'' then st_then (Pair (tier_flag flags ''host'')) (replicate_to cpu_ops oid)
      else if action = ''promote'' then st_then (Pair (tier_flag flags ''host'')) (promote cpu_ops oid)
      else if action = ''demote'' then st_then (Pair (tier_flag flags ''accelerator'')) (demote cpu_ops oid)
      else Pair (Inl (InvalidArgument ''unknown action'')))"

definition cmd_object_action :: "string \<Rightarrow> flags \<Rightarrow> ('w, unit) cli_op" where
  "cmd_object_action action flags =
     st_then (Pair (req_flag flags ''store'')) (\<lambda>path.
     st_then (Pair (object_flag flags)) (\<lambda>oid.
     st_then (Pair (num_flag flags ''capacity'' DEFAULT_CAPACITY)) (\<lambda>capacity.
     st_then (in_store path capacity (object_action flags action oid)) (\<lambda>_.
     println (action @ '' ok for '' @ oid_to_hex oid)))))"

definition write_file :: "string \<Rightarrow> u8 list \<Rightarrow> ('w, unit) cli_op" where
  "write_file path bytes c =
     (case cv_fail c path of
        Some m \<Rightarrow> (Inl (Io m), c)
      | None \<Rightarrow> (Inr (), c\<lparr>cv_files := cv_files c @ [(path, bytes)]\<rparr>))"

definition cmd_restore :: "flags \<Rightarrow> ('w, unit) cli_op" where
  "cmd_restore flags =
     st_then (Pair (req_flag flags ''store'')) (\<lambda>path.
     st_then (Pair (object_flag flags)) (\<lambda>oid.
     st_then (Pair (tier_flag flags ''host'')) (\<lambda>t.
     st_then (Pair (num_flag flags ''capacity'' DEFAULT_CAPACITY)) (\<lambda>capacity.
     st_then (in_store path capacity (restore cpu_ops oid t)) (\<lambda>bytes.
     case flags ''out'' of
       Some out \<Rightarrow>
         st_then (write_file out bytes) (\<lambda>_.
         println (''restored '' @ show_nat (length bytes) @ '' bytes to '' @ out))
     | None \<Rightarrow> println (''restored '' @ show_nat (length bytes) @ '' bytes for '' @ oid_to_hex oid))))))"

definition cmd_verify :: "flags \<Rightarrow> ('w, unit) cli_op" where
  "cmd_verify flags =
     st_then (Pair (req_flag flags ''store'')) (\<lambda>path.
     st_then (Pair (object_flag flags)) (\<lambda>oid.
     st_then (Pair (num_flag flags ''capacity'' DEFAULT_CAPACITY)) (\<lambda>capacity.
     st_then (in_store path capacity (verify cpu_ops oid)) (\<lambda>report.
     println (''verify ok: '' @ show_w (ir_checked_placements report) @ '' placements, '' @ show_w (ir_verified_bytes report) @
       '' bytes, clean='' @ (if ir_clean report then ''true'' else ''false''))))))"

text \<open>The benchmark.  Its timings are arguments; the division by the number of objects panics at zero, after two lines
  have been printed.\<close>

fun bench_create :: "compat_key \<Rightarrow> u8 list \<Rightarrow> nat list \<Rightarrow> (cpu_backend, object_id list) op" where
  "bench_create k payload [] = Pair (Inr [])"
| "bench_create k payload (i # is) =
     st_then (register cpu_ops ''bench'' (show_nat i) 0 k payload) (\<lambda>oid.
     st_then (bench_create k payload is) (\<lambda>oids. Pair (Inr (oid # oids))))"

fun bench_lookup :: "compat_key \<Rightarrow> object_id list \<Rightarrow> u64 \<Rightarrow> (cpu_backend, u64) op" where
  "bench_lookup k [] hits tc = (Inr hits, tc)"
| "bench_lookup k (oid # oids) hits tc =
     (case metadata tc oid of
        Inl e \<Rightarrow> (Inl (Panic ''called `Result::unwrap()` on an `Err` value''), tc)
      | Inr meta \<Rightarrow>
          (case lookup ''bench'' (em_key meta) 0 k tc of
             (Inr _, tc) \<Rightarrow> bench_lookup k oids (hits + 1) tc
           | (Inl _, tc) \<Rightarrow> bench_lookup k oids hits tc))"

definition per_op :: "nat \<Rightarrow> u64 \<Rightarrow> nat result" where
  "per_op elapsed n = (if n = 0 then Inl (Panic ''attempt to divide by zero'') else Inr (elapsed div unat n))"

definition cmd_benchmark :: "nat \<Rightarrow> nat \<Rightarrow> flags \<Rightarrow> ('w, unit) cli_op" where
  "cmd_benchmark create_elapsed lookup_elapsed flags =
     st_then (Pair (req_flag flags ''store'')) (\<lambda>path.
     st_then (Pair (num_flag flags ''objects'' 2000)) (\<lambda>n.
     st_then (Pair (num_flag flags ''bytes'' 4096)) (\<lambda>bytes.
     st_then (in_store path DEFAULT_CAPACITY (
         st_then (Pair (Shape_new [bytes div 4])) (\<lambda>sh.
         let k = compat_default\<lparr>ck_dtype := F32, ck_shape := sh, ck_layout := RowMajor, ck_model := Some ''bench''\<rparr>;
             payload = fill_bytes (unat bytes) in
         st_then (register cpu_ops ''bench'' ''seed'' 0 k payload) (\<lambda>_.
         st_then (bench_create k payload [0..<unat n]) (\<lambda>oids. bench_lookup k oids 0))))) (\<lambda>hits.
     st_then (println ''benchmark (cpu, host tier)'') (\<lambda>_.
     st_then (println (''  objects='' @ show_w n @ '' bytes_per='' @ show_w bytes)) (\<lambda>_.
     st_then (Pair (per_op create_elapsed n)) (\<lambda>t.
     st_then (println (''  create_per_op_ns='' @ show_nat t)) (\<lambda>_.
     st_then (println (''  lookup_hits='' @ show_w hits)) (\<lambda>_.
     st_then (Pair (per_op lookup_elapsed n)) (\<lambda>t.
     st_then (println (''  lookup_per_op_ns='' @ show_nat t)) (\<lambda>_.
     println ''  hardware=CPU host (see BENCHMARKS.md for environment)'')))))))))))"

definition print_help :: "string \<Rightarrow> ('w, unit) cli_op" where
  "print_help version = fold_st println
     [''Tensor Cache '' @ version @ '' - reusable tensor-shaped state runtime'',
      ''Usage: tensorcache <subcommand> [--flag value ...]'',
      ''  coordinator --listen ADDR [--lease-ns NS] [--snapshot DIR]'',
      ''  node --id ID --listen ADDR --coordinator ADDR --store DIR [--capacity BYTES]'',
      ''  create --store DIR --namespace NS --key K [--generation G] [--dtype D] --shape RXC --file F'',
      ''  lookup --store DIR --namespace NS --key K [--generation G] [--dtype D] --shape RXC'',
      ''  list / stats --store DIR'',
      ''  persist|promote|demote|evict|delete|verify --store DIR --object OID [--tier TIER]'',
      ''  restore --store DIR --object OID [--tier TIER] [--out FILE]'',
      ''  migrate --node-addr ADDR --object OID --to OWNER --to-addr ADDR [--fence F]'',
      ''  benchmark --store DIR [--objects N] [--bytes B]'']"

definition cmd_migrate :: "'w net \<Rightarrow> flags \<Rightarrow> ('w, unit) cli_op" where
  "cmd_migrate net flags =
     st_then (Pair (req_flag flags ''node-addr'')) (\<lambda>node_addr.
     st_then (Pair (req_flag flags ''object'')) (\<lambda>obj.
     st_then (Pair (req_flag flags ''to'')) (\<lambda>new_owner.
     st_then (Pair (req_flag flags ''to-addr'')) (\<lambda>to_addr.
     st_then (Pair (num_flag flags ''fence'' 0)) (\<lambda>fence.
     st_then (\<lambda>c. let (r, w) = cmd_migrate_exchange net node_addr obj new_owner to_addr fence (cv_world c) in
         (r, c\<lparr>cv_world := w\<rparr>)) println)))))"

text \<open>What a build and a machine add: the version, the two timings of the benchmark, the network,
  and the two server commands, which return only when they cannot start.\<close>

record 'w cli_env =
  ev_version :: string
  ev_create_elapsed :: nat
  ev_lookup_elapsed :: nat
  ev_net :: "'w net"
  ev_run_coordinator :: "flags \<Rightarrow> ('w, unit) cli_op"
  ev_run_node :: "flags \<Rightarrow> ('w, unit) cli_op"

definition dispatch :: "'w cli_env \<Rightarrow> string \<Rightarrow> flags \<Rightarrow> ('w, unit) cli_op" where
  "dispatch ev sub flags =
     (if sub \<in> {'''', ''help'', ''--help'', ''-h''} then print_help (ev_version ev)
      else if sub = ''create'' then cmd_create flags
      else if sub = ''lookup'' then cmd_lookup flags
      else if sub = ''list'' then cmd_list flags
      else if sub = ''stats'' then cmd_stats flags
      else if sub \<in> {''persist'', ''promote'', ''demote'', ''evict'', ''delete'', ''replicate''} then cmd_object_action sub flags
      else if sub = ''restore'' then cmd_restore flags
      else if sub = ''verify'' then cmd_verify flags
      else if sub = ''benchmark'' then cmd_benchmark (ev_create_elapsed ev) (ev_lookup_elapsed ev) flags
      else if sub = ''migrate'' then cmd_migrate (ev_net ev) flags
      else if sub = ''coordinator'' then ev_run_coordinator ev flags
      else if sub = ''node'' then ev_run_node ev flags
      else Pair (Inl (InvalidArgument (''unknown subcommand '' @ sub))))"

text \<open>The exit code and what goes to the error stream; a panic ends the process with code 101.\<close>

definition cli_main :: "'w cli_env \<Rightarrow> string list \<Rightarrow> 'w cli \<Rightarrow> (nat \<times> string list) \<times> 'w cli" where
  "cli_main ev argv c =
     (let (sub, flags) = parse_args argv; (r, c) = dispatch ev sub flags c in
      case r of
        Inr _ \<Rightarrow> ((0, []), c)
      | Inl (Panic m) \<Rightarrow> ((101, [m]), c)
      | Inl e \<Rightarrow> ((1, [''error: '' @ error_display e]), c))"

section \<open>Arguments read back\<close>

lemma parse_digits_append:
  "parse_digits acc (xs @ ys) = (case parse_digits acc xs of Inl e \<Rightarrow> Inl e | Inr n \<Rightarrow> parse_digits n ys)"
  by (induction xs arbitrary: acc) (auto split: option.splits)

lemma to_digit_show: "k < 10 \<Longrightarrow> to_digit (char_of (48 + k)) = Some (of_nat k)"
  by (simp add: to_digit_def)

lemma parse_digits_show: "n < 2 ^ 64 \<Longrightarrow> parse_digits 0 (show_nat n) = Inr (of_nat n)"
proof (induction n rule: show_nat.induct)
  case (1 n)
  show ?case
  proof (cases "n < 10")
    case True
    then show ?thesis by (simp add: show_nat.simps to_digit_show checked_mul_def checked_add_def word_nat)
  next
    case False
    let ?q = "n div 10" and ?r = "n mod 10"
    have q: "parse_digits 0 (show_nat ?q) = Inr (of_nat ?q)" using 1(1) [OF False] 1(2) by simp
    have u: "unat (of_nat ?q :: u64) = ?q" "unat (of_nat ?r :: u64) = ?r" using 1(2) by (simp_all add: word_nat)
    have m: "checked_mul (of_nat ?q :: u64) 10 = Some (of_nat (?q * 10))" using 1(2) u by (simp add: checked_mul_def)
    have u2: "unat (of_nat (?q * 10) :: u64) = ?q * 10" using 1(2) by (intro unat_of_nat_fits) simp
    have "checked_add (of_nat (?q * 10) :: u64) (of_nat ?r) = Some (of_nat (?q * 10) + of_nat ?r)"
      using 1(2) u u2 unfolding checked_add_def by simp
    also have "(of_nat (?q * 10) + of_nat ?r :: u64) = of_nat n" by (metis div_mult_mod_eq of_nat_add)
    finally show ?thesis
      using False q m to_digit_show [of ?r] by (subst show_nat.simps) (simp add: parse_digits_append)
  qed
qed

lemma digit_char:
  assumes "k < 10" shows "char_of (48 + k :: nat) \<notin> {CHR ''x'', CHR ''+'', CHR ''-''}"
proof -
  have "of_char (char_of (48 + k :: nat) :: char) = 48 + k" using assms by (simp add: of_char_of)
  moreover have "of_char CHR ''x'' = (120 :: nat)" "of_char CHR ''+'' = (43 :: nat)" "of_char CHR ''-'' = (45 :: nat)"
    by simp_all
  ultimately have "of_char (char_of (48 + k :: nat) :: char) \<notin> (of_char :: char \<Rightarrow> nat) ` {CHR ''x'', CHR ''+'', CHR ''-''}"
    using assms by simp
  then show ?thesis by blast
qed

lemma show_nat_chars: "c \<in> set (show_nat n) \<Longrightarrow> c \<notin> {CHR ''x'', CHR ''+'', CHR ''-''}"
  by (drule show_nat_digits) (elim exE conjE, simp only: digit_char not_False_eq_True)

lemma show_nat_nonempty [simp]: "show_nat n \<noteq> []"
  by (cases "n < 10") (simp_all add: show_nat.simps [of n])

lemma parse_u64_show: "parse_u64 (show_w n) = Inr n"
proof -
  obtain c cs where c: "show_nat (unat n) = c # cs" by (cases "show_nat (unat n)") auto
  then have "c \<notin> {CHR ''x'', CHR ''+'', CHR ''-''}" using show_nat_chars [of c "unat n"] by simp
  then have "parse_u64 (show_nat (unat n)) = parse_digits 0 (show_nat (unat n))"
    by (auto simp: parse_u64_def c)
  also have "\<dots> = Inr n" using parse_digits_show [of "unat n"] unsigned_less [of n, where ?'a = nat] by simp
  finally show ?thesis by (simp add: show_w_def)
qed

text \<open>How a shape is written on the command line.\<close>

fun join_x :: "string list \<Rightarrow> string" where
  "join_x [] = []"
| "join_x [p] = p"
| "join_x (p # ps) = p @ ''x'' @ join_x ps"

lemma split_on_no: "c \<notin> set p \<Longrightarrow> split_on c p = [p]"
  by (induction p) auto

lemma split_on_append: "c \<notin> set p \<Longrightarrow> split_on c (p @ c # s) = p # split_on c s"
  by (induction p) auto

lemma split_join: "ps \<noteq> [] \<Longrightarrow> \<forall>p \<in> set ps. CHR ''x'' \<notin> set p \<Longrightarrow> split_on (CHR ''x'') (join_x ps) = ps"
  by (induction ps rule: join_x.induct) (auto simp: split_on_no split_on_append)

lemma parse_dims_show: "parse_dims (map show_w ds) = Inr ds"
  by (induction ds) (simp_all add: parse_u64_show)

lemma parse_shape_show: "parse_shape (join_x (map show_w ds)) = Shape_new ds"
proof (cases ds)
  case (Cons d ds')
  have "\<forall>p \<in> set (map show_w ds). CHR ''x'' \<notin> set p"
    using show_nat_chars by (auto simp: show_w_def)
  then have s: "split_on (CHR ''x'') (join_x (map show_w ds)) = map show_w ds" by (intro split_join) (simp_all add: Cons)
  have "join_x (map show_w ds) \<noteq> []" using s Cons by (metis list.inject list.map(2) not_Cons_self2 show_nat_nonempty show_w_def split_on.simps(1))
  then show ?thesis using s parse_dims_show [of ds] by (simp add: parse_shape_def)
qed (simp add: parse_shape_def)

lemma strip_prefix_append [simp]: "strip_prefix p (p @ s) = Some s"
  by (induction p) auto

lemma parse_flags_pairs:
  "parse_flags (concat (map (\<lambda>(k, v). [''--'' @ k, v]) kvs)) fl = fl ++ map_of (rev kvs)"
proof (induction kvs arbitrary: fl)
  case (Cons kv kvs)
  have "strip_prefix ''--'' (''--'' @ fst kv) = Some (fst kv)" by (rule strip_prefix_append)
  with Cons show ?case
    by (cases kv) (auto simp: fun_eq_iff map_add_def fun_upd_def split: option.splits)
qed simp

end
