(* ===== verification/Process.thy ===== *)
theory Process
  imports Cli Cuda
begin

text \<open>
  The two server processes of \<^verbatim>\<open>server.rs\<close> as a whole: how they start, and the coordinator with all its connections
  at once.  Every connection has a thread of its own.  A thread reads and writes on its own socket only, and it handles
  a message and saves the snapshot while it holds the mutex; so one turn of one connection is one step, and the steps
  of the connections interleave in any order.
\<close>

section \<open>Starting\<close>

text \<open>\<open>read_snapshot\<close> and \<open>bind\<close> are what the operating system makes of the snapshot path and of the address.  The last
  component of the result is the line on the error stream.\<close>

definition boot_coordinator ::
  "(string \<Rightarrow> u8 list result option) \<Rightarrow> (string \<Rightarrow> string + unit) \<Rightarrow> boot_id \<Rightarrow> boot_id \<Rightarrow> flags \<Rightarrow>
    (coordinator \<times> string option \<times> string) result" where
  "boot_coordinator read_snapshot bind boot boot' flags =
     and_then (req_flag flags ''listen'') (\<lambda>listen.
     and_then (num_flag flags ''lease-ns'' 20000000000) (\<lambda>lease_ns.
     let snap = flags ''snapshot'' in
     and_then (start_coordinator lease_ns (snap \<noteq> None) (Option.bind snap read_snapshot) boot boot') (\<lambda>coord.
     and_then (case bind listen of Inl m \<Rightarrow> Inl (Io m) | Inr _ \<Rightarrow> Inr ()) (\<lambda>_.
     Inr (coord, snap, ''tensorcache coordinator listening on '' @ listen @ '' (lease '' @ show_w lease_ns @ ''ns)'')))))"

definition node_new :: "string \<Rightarrow> string \<Rightarrow> string \<Rightarrow> 'b cache \<Rightarrow> u64 \<Rightarrow> 'b node" where
  "node_new node_id node_addr coordinator_addr tc lease_ns =
     \<lparr>nd_id = node_id, nd_addr = node_addr, nd_coordinator_addr = coordinator_addr, nd_tc = tc, nd_lease_ns = lease_ns\<rparr>"

text \<open>The store of a node in the build with the CUDA feature: the first device is opened before the directory, with the
  capacity of the host tier.  \<open>loaded\<close> is the library the loader found and \<open>d\<close> the state of the devices.\<close>

definition open_store_cuda ::
  "'d cuda_api option \<Rightarrow> 'd \<Rightarrow> string \<Rightarrow> u64 \<Rightarrow> 'w cli \<Rightarrow> (cpu_backend + 'd cuda_backend) cache result" where
  "open_store_cuda loaded d path capacity c =
     (case (loaded, cuda_new loaded 0 (max capacity (push_bit 20 1)) d) of
        (Some api, Inr cuda, _) \<Rightarrow>
          (let disk = cv_disks c path; blocks = cv_list c BlocksDir disk; manifests = cv_list c ManifestsDir disk in
           with_backends (node_ops api) (\<lambda>i cap. Inl (cpu_new i cap)) (cli_config path capacity) [Inr cuda] disk blocks manifests
             (cv_list c ManifestsDir (snd (store_open blocks manifests disk))) (cv_clock c) (cv_iter c))
      | (_, Inl e, _) \<Rightarrow> Inl e
      | (None, Inr _, _) \<Rightarrow> Inl (BackendErr ''CUDA runtime library not found''))"

text \<open>A node opens its store before it talks to the coordinator, and listens only after it was registered.  \<open>opener\<close> is
  \<open>open_store\<close> or \<open>open_store_cuda loaded d\<close>, as the build says.\<close>

definition boot_node ::
  "(string \<Rightarrow> u64 \<Rightarrow> 'w cli \<Rightarrow> 'b cache result) \<Rightarrow> 'w net \<Rightarrow> (string \<Rightarrow> string + unit) \<Rightarrow> flags \<Rightarrow> 'w cli \<Rightarrow>
    ('b node \<times> string) result \<times> 'w" where
  "boot_node opener net bind flags c =
     st_then (Pair (req_flag flags ''id'')) (\<lambda>node_id.
     st_then (Pair (req_flag flags ''listen'')) (\<lambda>listen.
     st_then (Pair (req_flag flags ''coordinator'')) (\<lambda>coord_addr.
     st_then (Pair (req_flag flags ''store'')) (\<lambda>path.
     st_then (Pair (num_flag flags ''lease-ns'' 20000000000)) (\<lambda>lease_ns.
     st_then (Pair (num_flag flags ''capacity'' DEFAULT_CAPACITY)) (\<lambda>capacity.
     st_then (Pair (opener path capacity c)) (\<lambda>tc w.
     case node_handshake net (node_new node_id listen coord_addr tc lease_ns, w) of
       (Inl e, _, w) \<Rightarrow> (Inl e, w)
     | (Inr _, nd, w) \<Rightarrow>
         (case bind listen of
            Inl m \<Rightarrow> (Inl (Io m), w)
          | Inr _ \<Rightarrow> (Inr (nd, ''tensorcache node '' @ node_id @ '' serving on '' @ listen), w))))))))) (cv_world c)"

text \<open>With the CUDA feature a node comes up only when the library and a device are there; then it has the CPU backend and
  the device, both within their capacity.\<close>

lemma recover_backends: "tc_backends (snd (recover names c)) = tc_backends c"
proof -
  have count: "tc_backends (count_blocks bs c) = tc_backends c" for bs and c :: "'a cache"
    by (induction bs arbitrary: c) (auto split: option.splits)
  have meta: "tc_backends (snd (recover_meta m rc)) = tc_backends (snd rc)" for m and rc :: "recovery_report \<times> 'a cache"
    by (cases rc) (auto simp: recover_meta_def Let_def insert_entry_def count split: sum.splits)
  have "tc_backends (snd (fold recover_meta ms rc)) = tc_backends (snd rc)" for ms and rc :: "recovery_report \<times> 'a cache"
    by (induction ms arbitrary: rc) (simp_all add: meta)
  then show ?thesis by (simp add: recover_def case_prod_beta split: option.split)
qed

lemma cuda_new_Inr: "cuda_new loaded device capacity d = (Inr b, d') \<Longrightarrow> loaded \<noteq> None \<and> cu_id b = backend_cuda device \<and> cuda_inv b"
  by (auto simp: cuda_new_def cuda_inv_def Let_def split: option.splits prod.splits if_splits)

lemma open_store_cuda_Inr:
  assumes "open_store_cuda loaded d path capacity c = Inr tc"
  obtains api where "loaded = Some api" "map (be_id (node_ops api)) (tc_backends tc) = [backend_cpu 0, backend_cuda 0]"
    "\<forall>b \<in> set (tc_backends tc). node_backend_inv b"
proof -
  obtain api b d' names blocks manifests disk where ok: "loaded = Some api" "cuda_new loaded 0 (max capacity (push_bit 20 1)) d = (Inr b, d')"
    "with_backends (node_ops api) (\<lambda>i cap. Inl (cpu_new i cap)) (cli_config path capacity) [Inr b] disk blocks manifests names
       (cv_clock c) (cv_iter c) = Inr tc"
    using assms by (auto simp: open_store_cuda_def Let_def split: option.splits prod.splits sum.splits)
  obtain p where "tc = snd (recover names (blank (node_ops api) (\<lambda>i cap. Inl (cpu_new i cap)) (cli_config path capacity) [Inr b]
      (cv_clock c) (cv_iter c) p))"
    by (rule with_backends_cases [OF ok(3)])
  then have "tc_backends tc = [Inl (cpu_new 0 (rc_host_capacity (cli_config path capacity))), Inr b]"
    by (simp add: recover_backends blank_def registry_register_def)
  with cuda_new_Inr [OF ok(2)] show thesis
    by (intro that [OF ok(1)])
       (simp_all add: either_ops_def cpu_ops_def cuda_ops_def cpu_new_def node_backend_inv_def cpu_inv_def)
qed

section \<open>Connections\<close>

datatype conn_state = Serving | Closed "unit result"

record connection =
  cn_in :: stream
  cn_wc :: wconn
  cn_state :: conn_state

text \<open>One round of the loop of a connection.\<close>

definition serve_turn ::
  "(message \<Rightarrow> 's \<Rightarrow> message list result \<times> 's) \<Rightarrow> connection \<Rightarrow> 's \<Rightarrow> connection \<times> 's" where
  "serve_turn turn cn s =
     (case read_frame (cn_in cn) of
        (Inr (Some (t, payload)), es) \<Rightarrow>
          (case msg_decode t payload of
             Inl e \<Rightarrow> (\<lparr>cn_in = es, cn_wc = snd (write_to (ErrorMsg ''protocol'' (error_display e)) (cn_wc cn)), cn_state = Closed (Inr ())\<rparr>, s)
           | Inr msg \<Rightarrow>
               (case turn msg s of
                  (Inl e, s) \<Rightarrow> (cn\<lparr>cn_in := es, cn_state := Closed (Inl e)\<rparr>, s)
                | (Inr responses, s) \<Rightarrow>
                    let (r, wc) = fold_st write_to responses (cn_wc cn) in
                    (\<lparr>cn_in = es, cn_wc = wc, cn_state = (case r of Inl e \<Rightarrow> Closed (Inl e) | Inr _ \<Rightarrow> Serving)\<rparr>, s)))
      | (_, es) \<Rightarrow> (cn\<lparr>cn_in := es, cn_state := Closed (Inr ())\<rparr>, s))"

text \<open>The loop is the repetition of such rounds.\<close>

lemma serve_loop_round:
  "serve_loop turn (cn_in cn) (cn_wc cn) s =
     (case serve_turn turn cn s of (cn', s') \<Rightarrow>
        case cn_state cn' of Closed r \<Rightarrow> (r, cn_wc cn', s') | Serving \<Rightarrow> serve_loop turn (cn_in cn') (cn_wc cn') s')"
  by (subst serve_loop.simps) (simp add: serve_turn_def split: prod.splits sum.splits option.splits)

record 's process =
  pr_state :: 's
  pr_conns :: "connection list"

text \<open>A new connection is accepted, or the thread of a connection makes a round.  The accepted streams and sockets are
  recorded, so that a run knows what each connection was sent.\<close>

inductive proc_step ::
  "(message \<Rightarrow> 's \<Rightarrow> message list result \<times> 's) \<Rightarrow> (stream \<times> wconn) list \<Rightarrow> 's process \<Rightarrow> 's process \<Rightarrow> bool" for turn where
  accept: "proc_step turn [(es, wc)] p (p\<lparr>pr_conns := pr_conns p @ [\<lparr>cn_in = es, cn_wc = wc, cn_state = Serving\<rparr>]\<rparr>)"
| serve: "i < length (pr_conns p) \<Longrightarrow> cn_state (pr_conns p ! i) = Serving \<Longrightarrow>
    serve_turn turn (pr_conns p ! i) (pr_state p) = (cn, s) \<Longrightarrow>
    proc_step turn [] p (p\<lparr>pr_state := s, pr_conns := (pr_conns p)[i := cn]\<rparr>)"

inductive proc_run ::
  "(message \<Rightarrow> 's \<Rightarrow> message list result \<times> 's) \<Rightarrow> (stream \<times> wconn) list \<Rightarrow> 's process \<Rightarrow> 's process \<Rightarrow> bool" for turn where
  start: "proc_run turn [] p p"
| step: "proc_run turn ios p q \<Longrightarrow> proc_step turn new q r \<Longrightarrow> proc_run turn (ios @ new) p r"

section \<open>One request after the other\<close>

text \<open>The specification: a list of requests, each with the number of its connection, handled strictly in order.\<close>

fun serial :: "(message \<Rightarrow> 's \<Rightarrow> message list result \<times> 's) \<Rightarrow> (nat \<times> message) list \<Rightarrow> 's \<Rightarrow> (nat \<times> message list) list \<times> 's" where
  "serial turn [] s = ([], s)"
| "serial turn ((i, m) # tr) s =
     (let (r, s) = turn m s; (out, s) = serial turn tr s
      in ((i, case r of Inr rs \<Rightarrow> rs | Inl _ \<Rightarrow> []) # out, s))"

definition requests :: "nat \<Rightarrow> (nat \<times> message) list \<Rightarrow> message list" where
  "requests i tr = map snd (filter (\<lambda>p. fst p = i) tr)"

definition answers :: "nat \<Rightarrow> (nat \<times> message list) list \<Rightarrow> message list" where
  "answers i out = concat (map snd (filter (\<lambda>p. fst p = i) out))"

text \<open>\<open>carries es ms es'\<close>: the frames read from \<open>es\<close> are the messages \<open>ms\<close>, and \<open>es'\<close> is what is left.\<close>

inductive carries :: "stream \<Rightarrow> message list \<Rightarrow> stream \<Rightarrow> bool" where
  nothing: "carries es [] es"
| frame: "carries es ms es1 \<Longrightarrow> read_frame es1 = (Inr (Some (t, payload)), es2) \<Longrightarrow> msg_decode t payload = Inr m \<Longrightarrow>
    carries es (ms @ [m]) es2"

lemma serial_append:
  "serial turn (xs @ ys) s = (let (o1, s1) = serial turn xs s; (o2, s2) = serial turn ys s1 in (o1 @ o2, s2))"
  by (induction xs arbitrary: s) (auto simp: Let_def split: prod.splits)

lemma requests_append [simp]: "requests i (xs @ ys) = requests i xs @ requests i ys"
  "requests i [] = []" "requests i [(j, m)] = (if j = i then [m] else [])"
  by (simp_all add: requests_def)

lemma answers_append [simp]: "answers i (xs @ ys) = answers i xs @ answers i ys"
  "answers i [] = []" "answers i [(j, rs)] = (if j = i then rs else [])"
  by (simp_all add: answers_def)

lemma fold_st_append: "fold_st f (xs @ ys) s = st_then (fold_st f xs) (\<lambda>_. fold_st f ys) s"
  by (induction xs arbitrary: s) (auto simp: st_then_def split: prod.splits sum.splits)

text \<open>What a connection looks like when the requests \<open>ms\<close> of its stream have been handled and answered by \<open>rs\<close>.\<close>

definition served :: "stream \<times> wconn \<Rightarrow> message list \<Rightarrow> message list \<Rightarrow> connection \<Rightarrow> bool" where
  "served io ms rs cn \<longleftrightarrow>
     (\<exists>es extra. carries (fst io) ms es \<and> cn_wc cn = snd (fold_st write_to (rs @ extra) (snd io)) \<and>
        (extra = [] \<or> (\<exists>m. extra = [ErrorMsg ''protocol'' m])) \<and>
        (cn_state cn = Serving \<longrightarrow> extra = [] \<and> es = cn_in cn \<and> fst (fold_st write_to rs (snd io)) = Inr ()))"

lemma served_fresh: "served (es, wc) [] [] \<lparr>cn_in = es, cn_wc = wc, cn_state = Serving\<rparr>"
  by (auto simp: served_def intro: carries.nothing)

text \<open>A round handles one request of the connection, or none.\<close>

lemma serve_turn_served:
  assumes "serve_turn turn cn s = (cn', s')" "served io ms rs cn" "cn_state cn = Serving"
    "\<And>m s. \<exists>out t. turn m s = (Inr out, t)"
  shows "s' = s \<and> served io ms rs cn' \<or>
    (\<exists>m out. turn m s = (Inr out, s') \<and> msg_ok m \<and> served io (ms @ [m]) (rs @ out) cn')"
proof -
  have c: "carries (fst io) ms (cn_in cn)" and w: "fold_st write_to rs (snd io) = (Inr (), cn_wc cn)"
    using assms(2,3) by (auto simp: served_def prod_eq_iff)
  have app: "snd (fold_st write_to (rs @ xs) (snd io)) = snd (fold_st write_to xs (cn_wc cn))"
    "fst (fold_st write_to (rs @ xs) (snd io)) = fst (fold_st write_to xs (cn_wc cn))" for xs
    using w by (simp_all add: fold_st_append)
  obtain r es where rd: "read_frame (cn_in cn) = (r, es)" by fastforce
  consider (none) "\<nexists>f. r = Inr (Some f)" | (bad) t p e where "r = Inr (Some (t, p))" "msg_decode t p = Inl e"
    | (msg) t p m where "r = Inr (Some (t, p))" "msg_decode t p = Inr m"
    by (metis old.sum.exhaust surj_pair)
  then show ?thesis
  proof cases
    case none
    then have "s' = s" "cn_wc cn' = cn_wc cn" "cn_state cn' = Closed (Inr ())"
      using assms(1) rd by (auto simp: serve_turn_def split: sum.splits option.splits)
    then have "served io ms rs cn'"
      unfolding served_def using c w by (intro exI [of _ "cn_in cn"] exI [of _ "[]"]) auto
    with \<open>s' = s\<close> show ?thesis by simp
  next
    case bad
    let ?x = "[ErrorMsg ''protocol'' (error_display e)]"
    have cn': "s' = s" "cn_wc cn' = snd (write_to (hd ?x) (cn_wc cn))" "cn_state cn' = Closed (Inr ())"
      using assms(1) rd bad by (auto simp: serve_turn_def)
    have "snd (fold_st write_to ?x (cn_wc cn)) = snd (write_to (hd ?x) (cn_wc cn))"
      by (cases "write_to (hd ?x) (cn_wc cn)"; cases "fst (write_to (hd ?x) (cn_wc cn))") auto
    then have "served io ms rs cn'"
      unfolding served_def using c cn' app(1) [of ?x] by (intro exI [of _ "cn_in cn"] exI [of _ ?x]) auto
    with cn'(1) show ?thesis by simp
  next
    case msg
    obtain out t1 where t: "turn m s = (Inr out, t1)" using assms(4) by blast
    obtain r1 wc1 where f: "fold_st write_to out (cn_wc cn) = (r1, wc1)" by fastforce
    have cn': "s' = t1" "cn' = \<lparr>cn_in = es, cn_wc = wc1, cn_state = (case r1 of Inl e \<Rightarrow> Closed (Inl e) | Inr _ \<Rightarrow> Serving)\<rparr>"
      using assms(1) rd msg t f by (auto simp: serve_turn_def)
    have "carries (fst io) (ms @ [m]) es" using carries.frame [OF c] rd msg by simp
    moreover have "fst (fold_st write_to (rs @ out) (snd io)) = r1" "snd (fold_st write_to (rs @ out) (snd io)) = wc1"
      using app [of out] f by simp_all
    ultimately have "served io (ms @ [m]) (rs @ out) cn'"
      unfolding served_def by (intro exI [of _ es] exI [of _ "[]"]) (auto simp: cn' split: sum.splits)
    then show ?thesis using t cn'(1) msg_decode_sound [OF msg(2)] by auto
  qed
qed

section \<open>Interleaved connections are served as if one after the other\<close>

text \<open>An order of requests explains a process: handling them one by one gives its state, each connection's part of
  the order is what its stream carried, and its output is the answers to that part.\<close>

definition explained ::
  "(message \<Rightarrow> 's \<Rightarrow> message list result \<times> 's) \<Rightarrow> 's \<Rightarrow> (stream \<times> wconn) list \<Rightarrow> (nat \<times> message) list \<Rightarrow> 's process \<Rightarrow> bool" where
  "explained turn s ios tr p \<longleftrightarrow> pr_state p = snd (serial turn tr s) \<and> length (pr_conns p) = length ios \<and>
     (\<forall>(i, m) \<in> set tr. i < length ios \<and> msg_ok m) \<and>
     (\<forall>i < length ios. served (ios ! i) (requests i tr) (answers i (fst (serial turn tr s))) (pr_conns p ! i))"

text \<open>What the process needs of its handler: it always has an answer, and the error of a request is an answer too.\<close>

locale answering_server =
  fixes turn :: "message \<Rightarrow> 's \<Rightarrow> message list result \<times> 's"
  assumes total: "\<exists>out t. turn m s = (Inr out, t)"
begin

lemma requests_out: "\<forall>(i, m) \<in> set tr. i < n \<Longrightarrow> requests n tr = []"
  by (induction tr) (auto simp: requests_def)

lemma serial_conns: "map fst (fst (serial turn tr s)) = map fst tr"
  by (induction tr arbitrary: s) (auto simp: Let_def case_prod_beta)

lemma answers_out: "\<forall>(i, m) \<in> set tr. i < n \<Longrightarrow> answers n (fst (serial turn tr s)) = []"
proof -
  assume *: "\<forall>(i, m) \<in> set tr. i < n"
  have "fst ` set (fst (serial turn tr s)) = fst ` set tr" using serial_conns [of tr s] by (metis list.set_map)
  then have "fst x \<noteq> n" if "x \<in> set (fst (serial turn tr s))" for x
    using that * by (metis (mono_tags, lifting) case_prodD image_iff less_irrefl prod.collapse)
  then have "filter (\<lambda>p. fst p = n) (fst (serial turn tr s)) = []" by (simp add: filter_empty_conv)
  then show ?thesis by (simp add: answers_def)
qed

lemma explained_accept:
  assumes "explained turn s ios tr p"
  shows "explained turn s (ios @ [(es, wc)]) tr (p\<lparr>pr_conns := pr_conns p @ [\<lparr>cn_in = es, cn_wc = wc, cn_state = Serving\<rparr>]\<rparr>)"
proof -
  have tr: "\<forall>(i, m) \<in> set tr. i < length ios" using assms by (auto simp: explained_def)
  show ?thesis
    using assms served_fresh [of es wc] requests_out [OF tr] answers_out [OF tr]
    by (auto simp: explained_def nth_append less_Suc_eq)
qed

lemma serial_snoc:
  assumes "turn m (snd (serial turn tr s)) = (Inr out, t)"
  shows "serial turn (tr @ [(i, m)]) s = (fst (serial turn tr s) @ [(i, out)], t)"
  using assms by (simp add: serial_append case_prod_beta)

lemma explained_serve:
  assumes "explained turn s ios tr p" "i < length (pr_conns p)" "cn_state (pr_conns p ! i) = Serving"
    "serve_turn turn (pr_conns p ! i) (pr_state p) = (cn, t)"
  shows "\<exists>tr'. explained turn s ios tr' (p\<lparr>pr_state := t, pr_conns := (pr_conns p)[i := cn]\<rparr>)"
proof -
  let ?rs = "answers i (fst (serial turn tr s))"
  have p: "pr_state p = snd (serial turn tr s)" "length (pr_conns p) = length ios" "\<forall>(i, m) \<in> set tr. i < length ios \<and> msg_ok m"
    and sv: "\<And>j. j < length ios \<Longrightarrow> served (ios ! j) (requests j tr) (answers j (fst (serial turn tr s))) (pr_conns p ! j)"
    using assms(1) by (auto simp: explained_def)
  have i: "i < length ios" using assms(2) p(2) by simp
  from serve_turn_served [OF assms(4) sv [OF i] assms(3) total] show ?thesis
  proof
    assume *: "t = pr_state p \<and> served (ios ! i) (requests i tr) ?rs cn"
    have "explained turn s ios tr (p\<lparr>pr_state := t, pr_conns := (pr_conns p)[i := cn]\<rparr>)"
      unfolding explained_def using * p sv assms(2) by (auto simp: nth_list_update)
    then show ?thesis by blast
  next
    assume "\<exists>m out. turn m (pr_state p) = (Inr out, t) \<and> msg_ok m \<and> served (ios ! i) (requests i tr @ [m]) (?rs @ out) cn"
    then obtain m out where m: "turn m (pr_state p) = (Inr out, t)" "msg_ok m" "served (ios ! i) (requests i tr @ [m]) (?rs @ out) cn"
      by blast
    note sn = serial_snoc [OF m(1) [unfolded p(1)], of i]
    have "explained turn s ios (tr @ [(i, m)]) (p\<lparr>pr_state := t, pr_conns := (pr_conns p)[i := cn]\<rparr>)"
      unfolding explained_def sn using m p sv i assms(2) by (auto simp: nth_list_update)
    then show ?thesis by blast
  qed
qed

lemma run_explained: "proc_run turn ios p q \<Longrightarrow> p = \<lparr>pr_state = s, pr_conns = []\<rparr> \<Longrightarrow> \<exists>tr. explained turn s ios tr q"
proof (induction rule: proc_run.induct)
  case (start p)
  then have "explained turn s [] [] p" by (simp add: explained_def)
  then show ?case by blast
next
  case (step ios p q new r)
  then obtain tr where tr: "explained turn s ios tr q" by blast
  from step.hyps(2) show ?case
  proof cases
    case (accept es wc)
    then show ?thesis using explained_accept [OF tr] by blast
  next
    case (serve i cn t)
    then show ?thesis using explained_serve [OF tr] by auto
  qed
qed

end

lemma coordinator_turn_state: "coordinator_turn snap m sv = (r, sv') \<Longrightarrow> \<exists>x. handle (sv_clock sv (sv_ticks sv)) m (sv_coord sv) = (x, sv_coord sv')"
  by (auto simp: coordinator_turn_def Let_def split: prod.splits if_splits)

interpretation coord: answering_server "coordinator_turn snap" for snap
  by unfold_locales (simp add: coordinator_turn_def Let_def split: prod.splits)

text \<open>Handling one by one is a run of the coordinator's state machine.\<close>

lemma serial_coord_run:
  assumes "coord_run n c (sv_coord sv)" "\<forall>(i, m) \<in> set tr. msg_ok m"
  shows "coord_run (n + length tr) c (sv_coord (snd (serial (coordinator_turn snap) tr sv)))"
  using assms
proof (induction tr arbitrary: n sv)
  case (Cons im tr)
  obtain i m where im: "im = (i, m)" by fastforce
  obtain r sv' where t: "coordinator_turn snap m sv = (r, sv')" by fastforce
  from coordinator_turn_state [OF t] have "coord_step (sv_coord sv) (sv_coord sv')"
    using Cons.prems(2) by (auto simp: im intro: coord_step.message)
  from Cons.IH [OF coord_run.more [OF Cons.prems(1) this]] Cons.prems(2) show ?case
    by (simp add: im t case_prod_beta)
qed simp

section \<open>Connections end\<close>

text \<open>How many rounds a connection can still make, at most.\<close>

definition work :: "connection \<Rightarrow> nat" where
  "work cn = (if cn_state cn = Serving then Suc (stream_size (cn_in cn)) else 0)"

abbreviation total_work :: "'s process \<Rightarrow> nat" where
  "total_work p \<equiv> sum_list (map work (pr_conns p))"

lemma serve_turn_work:
  assumes "serve_turn turn cn s = (cn', s')" "cn_state cn = Serving"
  shows "work cn' < work cn"
proof (cases "cn_state cn' = Serving")
  case True
  obtain r es where rd: "read_frame (cn_in cn) = (r, es)" by fastforce
  obtain f where "r = Inr (Some f)" "cn_in cn' = es"
    using assms(1) True rd by (auto simp: serve_turn_def split: sum.splits option.splits prod.splits)
  then show ?thesis using read_frame_size [of "cn_in cn" f es] rd True assms(2) by (simp add: work_def)
qed (use assms(2) in \<open>simp add: work_def\<close>)

inductive rounds ::
  "(message \<Rightarrow> 's \<Rightarrow> message list result \<times> 's) \<Rightarrow> nat \<Rightarrow> 's process \<Rightarrow> 's process \<Rightarrow> bool" for turn where
  no_round: "rounds turn 0 p p"
| round: "rounds turn n p q \<Longrightarrow> proc_step turn [] q r \<Longrightarrow> rounds turn (Suc n) p r"

lemma step_work:
  assumes "proc_step turn [] p q" shows "total_work q < total_work p"
  using assms
proof cases
  case (serve i cn s)
  have w: "work cn < work (pr_conns p ! i)" by (rule serve_turn_work [OF serve(4,3)])
  have "sum_list (map work ((pr_conns p)[i := cn])) + work (pr_conns p ! i) = total_work p + work cn"
    using serve(2) sum_list_update [of i "map work (pr_conns p)" "work cn"]
      elem_le_sum_list [of i "map work (pr_conns p)"] by (simp add: map_update)
  with w show ?thesis using serve(1) by simp
qed

lemma rounds_bound: "rounds turn n p q \<Longrightarrow> n + total_work q \<le> total_work p"
proof (induction rule: rounds.induct)
  case (round n p q r)
  then show ?case using step_work [OF round.hyps(2)] by simp
qed simp

lemma no_step_iff: "(\<nexists>q. proc_step turn [] p q) \<longleftrightarrow> (\<forall>cn \<in> set (pr_conns p). cn_state cn \<noteq> Serving)"
proof -
  have "\<exists>q. proc_step turn [] p q" if "cn \<in> set (pr_conns p)" "cn_state cn = Serving" for cn
    using that proc_step.serve [of _ p turn] by (metis in_set_conv_nth surj_pair)
  moreover have "\<exists>cn \<in> set (pr_conns p). cn_state cn = Serving" if "proc_step turn [] p q" for q
    using that by cases (auto intro: nth_mem)
  ultimately show ?thesis by blast
qed

lemma rounds_finish:
  "rounds turn n p q \<Longrightarrow> \<exists>m r. rounds turn m p r \<and> n \<le> m \<and> (\<forall>cn \<in> set (pr_conns r). cn_state cn \<noteq> Serving)"
proof (induction "total_work q" arbitrary: n q rule: less_induct)
  case less
  show ?case
  proof (cases "\<exists>r. proc_step turn [] q r")
    case True
    then obtain r where r: "proc_step turn [] q r" by blast
    from less.hyps [OF step_work [OF r] rounds.round [OF less.prems r]] show ?thesis by (meson Suc_leD)
  next
    case False
    with less.prems no_step_iff [of turn q] show ?thesis by blast
  qed
qed

end
