(* ===== verification/Cli_Correct.thy ===== *)
theory Cli_Correct
  imports Cli
begin

text \<open>
  What the commands do together: an object that \<^verbatim>\<open>create\<close> reported as created is given back by \<^verbatim>\<open>restore\<close>, in
  another process that opens the same directory.
\<close>

section \<open>Tidy directories\<close>

text \<open>A directory in which every block file has the contents its name promises, and a manifest is found only under the
  name of its object.\<close>

definition tidy :: "store \<Rightarrow> bool" where
  "tidy st \<longleftrightarrow> (\<forall>h data. length (digest_bytes h) = 32 \<longrightarrow> block_file st h = Some data \<longrightarrow> hash data = h) \<and>
     (\<forall>name m oid. st_files st (ManifestsDir, name) = Some (encode_manifest m) \<longrightarrow> oid_from_hex (pe_object_id m) = Inr oid \<longrightarrow>
        name = oid_to_hex oid @ ''.manifest'')"

lemma tidy_le: "tidy st \<Longrightarrow> st_files st' \<subseteq>\<^sub>m st_files st \<Longrightarrow> tidy st'"
proof -
  assume t: "tidy st" and le: "st_files st' \<subseteq>\<^sub>m st_files st"
  have "st_files st p = Some x" if "st_files st' p = Some x" for p x using le that by (metis domI map_le_def)
  with t show ?thesis unfolding tidy_def by blast
qed

text \<open>What recovery counts are blocks that exist.\<close>

definition counted_exist :: "'b cache \<Rightarrow> bool" where
  "counted_exist c \<longleftrightarrow> (\<forall>h st. tc_persistent_refs c h \<noteq> None \<longrightarrow> tc_persistent c = Some st \<longrightarrow> block_exists h st)"

lemma count_blocks_refs:
  "tc_persistent_refs (count_blocks bs c) h \<noteq> None \<Longrightarrow> tc_persistent_refs c h \<noteq> None \<or> (\<exists>b \<in> set bs. h = br_content_hash b)"
  by (induction bs arbitrary: c) (fastforce split: option.splits if_splits)+

lemma recover_meta_keeps:
  "tc_host (snd (recover_meta m rc)) = tc_host (snd rc)" "tc_accounting (snd (recover_meta m rc)) = tc_accounting (snd rc)"
  "tc_config (snd (recover_meta m rc)) = tc_config (snd rc)" "counted_exist (snd rc) \<Longrightarrow> counted_exist (snd (recover_meta m rc))"
proof -
  obtain rep c where rc: "rc = (rep, c)" by fastforce
  show "tc_host (snd (recover_meta m rc)) = tc_host (snd rc)" "tc_accounting (snd (recover_meta m rc)) = tc_accounting (snd rc)"
    "tc_config (snd (recover_meta m rc)) = tc_config (snd rc)"
    by (auto simp: rc recover_meta_def Let_def insert_entry_def split: sum.splits)
  show "counted_exist (snd (recover_meta m rc))" if "counted_exist (snd rc)"
    using that count_blocks_refs [of "pe_blocks m" c]
    by (auto simp: rc counted_exist_def recover_meta_def Let_def insert_entry_def blocks_exist_def list_all_iff split: sum.splits option.splits) blast+
qed

lemma recover_meta_store: "tc_persistent (snd (recover_meta m rc)) = tc_persistent (snd rc)"
  by (cases rc) (simp add: recover_meta_persistent)

lemma recover_fold_keeps:
  "tc_host (snd (fold recover_meta ms rc)) = tc_host (snd rc)" "tc_accounting (snd (fold recover_meta ms rc)) = tc_accounting (snd rc)"
  "tc_config (snd (fold recover_meta ms rc)) = tc_config (snd rc)" "tc_persistent (snd (fold recover_meta ms rc)) = tc_persistent (snd rc)"
  "counted_exist (snd rc) \<Longrightarrow> counted_exist (snd (fold recover_meta ms rc))"
  by (induction ms arbitrary: rc) (simp_all add: recover_meta_keeps recover_meta_store)

lemma hex_digest: "hex_path_valid (to_hex h) \<Longrightarrow> length (digest_bytes h) = 32"
  by (simp add: hex_path_valid_def to_hex_def)

text \<open>A cache just opened: nothing in host memory, and what it counts on disk is intact.\<close>

lemma opened_cache:
  assumes "open_store path capacity c = Inr tc"
  obtains st d r st1 where
    "store_open (cv_list c BlocksDir (cv_disks c path)) (cv_list c ManifestsDir (cv_disks c path)) (cv_disks c path) = (Inr (), st)"
    "tc_persistent d = Some st" "tc_entries d = Map.empty" "recover (cv_list c ManifestsDir st) d = (r, tc)"
    "tc_host tc = arena_new" "tc_accounting tc = initial_accounting cpu_ops (cli_config path capacity) []"
    "tc_config tc = cli_config path capacity" "tc_persistent tc = Some st1" "st_files st1 = st_files st" "counted_exist tc"
    "st_faults st = [] \<longrightarrow> st1 = st"
proof -
  let ?b = "cv_list c BlocksDir (cv_disks c path)" and ?m = "cv_list c ManifestsDir (cv_disks c path)"
  obtain x st where o: "store_open ?b ?m (cv_disks c path) = (x, st)" by fastforce
  let ?cfg = "cli_config path capacity"
  let ?d = "\<lparr>tc_entries = Map.empty, tc_host = arena_new, tc_persistent_refs = Map.empty, tc_storage_used = 0,
    tc_accel_used = 0, tc_accounting = initial_accounting cpu_ops ?cfg [], tc_object_count = 0,
    tc_backends = registry_register (cpu_new 0 (rc_host_capacity ?cfg)) [], tc_config = ?cfg, tc_persistent = Some st,
    tc_clock = cv_clock c, tc_ticks = 0, tc_iter = cv_iter c\<rparr>"
  obtain r tc' where rec: "recover (cv_list c ManifestsDir st) ?d = (r, tc')" by fastforce
  have cfg: "rc_block_size ?cfg \<noteq> 0" "rc_persistent_path ?cfg = Some path"
    by (simp_all add: cli_config_def config_default_def DEFAULT_BLOCK_SIZE_def)
  have x: "x = Inr ()" and tc: "tc' = tc"
    using assms o rec cfg by (auto simp: open_store_def with_backends_def Let_def res split: sum.splits)
  obtain ms st1 where sr: "store_recover (cv_list c ManifestsDir st) st = (ms, st1)" by fastforce
  let ?rc = "(\<lparr>rv_recovered = 0, rv_skipped = 0\<rparr>, ?d\<lparr>tc_persistent := Some st1\<rparr>)"
  have run: "tc = snd (fold recover_meta ms ?rc)" using rec sr tc by (auto simp: recover_def case_prod_beta)
  have files: "st_files st1 = st_files st" using store_recover_sound [OF sr] by blast
  note keeps = recover_fold_keeps [where ms = ms and rc = ?rc, folded run]
  have per: "tc_persistent tc = Some st1" using keeps(4) by simp
  have "counted_exist tc" using keeps(5) by (simp add: counted_exist_def)
  moreover have "st_faults st = [] \<longrightarrow> st1 = st" using store_recover_quiet [of st] sr by (metis snd_conv)
  ultimately show thesis using that [OF o [unfolded x], of ?d r st1] rec tc keeps(1-3) per files by simp
qed

lemma opened_disk_ok:
  assumes "counted_exist tc" "tc_persistent tc = Some st" "tidy st"
  shows "disk_ok tc"
proof -
  have ex: "block_exists h st" if "tc_persistent_refs tc h \<noteq> None" for h using that assms(1,2) by (auto simp: counted_exist_def)
  have "file_ok st h" if "tc_persistent_refs tc h \<noteq> None" for h
    using ex [OF that] assms(3) hex_digest
    by (auto simp: block_exists_def block_path_def fs_exists_def file_ok_def tidy_def split: if_splits)
  then show ?thesis using assms(2) by (auto simp: disk_ok_def)
qed

lemma map_le_ran: "f \<subseteq>\<^sub>m g \<Longrightarrow> ran f \<subseteq> ran g"
  unfolding map_le_def ran_def dom_def by force

section \<open>Room for a payload\<close>

lemma sum_refs_of: "foldl (\<lambda>n b. n + br_len b) acc (refs_of off ps) = acc + of_nat (length (concat ps))"
  by (induction ps arbitrary: off acc) (simp_all add: ref_of_def add.assoc)

lemma new_host_fresh:
  assumes "tc_host c = arena_new" "chunk payload n = Inr blocks" "length payload < 2 ^ 64"
  shows "new_host_bytes blocks c = of_nat (length payload)"
proof -
  have refs: "blocks = refs_of 0 (pieces (unat n) payload)" and n: "0 < unat n"
    using chunk_Inr [OF assms(2,3)] by (auto simp: unat_gt_0)
  have "new_host_bytes blocks c = foldl (\<lambda>n b. n + br_len b) 0 blocks"
    by (simp add: new_host_bytes_def assms(1) arena_contains_def arena_new_def)
  also have "\<dots> = of_nat (length payload)" unfolding refs sum_refs_of using concat_pieces [OF n, of payload] by simp
  finally show ?thesis .
qed

lemma host_free_initial:
  "tc_accounting c = initial_accounting ops cfg [] \<Longrightarrow> host_free c = rc_host_capacity cfg"
  by (simp add: host_free_def acct_free_def budget_free_def initial_accounting_def set_tier_capacity_def accounting_new_def
      budget_default_def set_capacity_def saturating_sub_def saturating_add_def checked_add_def)

section \<open>Creating\<close>

text \<open>Registering into a cache with nothing in host memory changes host memory and the entries only.\<close>

lemma acquire_host_frame:
  assumes "acquire_host n bytes blocks c = (r, c')"
  shows "tc_persistent c' = tc_persistent c \<and> tc_persistent_refs c' = tc_persistent_refs c \<and> tc_config c' = tc_config c \<and>
    ac_storage (tc_accounting c') = ac_storage (tc_accounting c)"
proof -
  have st: "ac_storage (snd (acct_reserve KHost n a)) = ac_storage a" "ac_storage (snd (commit_reserve KHost n a)) = ac_storage a" for a
    by (simp_all add: acct_reserve_def commit_reserve_def on_tier_def split: prod.splits)
  show ?thesis
    using assms
    by (auto simp: acquire_host_def st_then_def st split: prod.splits sum.splits dest!: on_accounting_frame acquire_blocks_frame)
qed

lemma register_fresh:
  assumes reg: "register ops namespace key generation k payload c = (Inr oid, c')" and c: "budgets_ok c" "tc_host c = arena_new"
    and room: "of_nat (length payload) \<le> host_free c" "length payload < 2 ^ 64"
  obtains e blocks where "oid = object_id (address_new namespace key generation)" "tc_entries c' (oid_to_hex oid) = Some e"
    "\<not> has_tier e Persistent" "en_compat e = k" "en_address e = address_new namespace key generation"
    "shape_byte_len (ck_shape k) (byte_size (ck_dtype k)) = Inr (en_byte_len e)"
    "tc_persistent c' = tc_persistent c" "tc_persistent_refs c' = tc_persistent_refs c" "tc_config c' = tc_config c"
    "chunk payload (rc_block_size (tc_config c)) = Inr blocks"
    "budgets_ok c'" "ac_storage (tc_accounting c') = ac_storage (tc_accounting c)"
  using reg
proof (cases rule: register_Inr)
  case (1 m blocks new_host c1 acquired c2 e t)
  have "new_host = of_nat (length payload)" using 1(15) new_host_fresh [OF c(2) 1(5) room(2)] by simp
  then have c1: "c1 = c" using 1(7) room(1) by (simp add: make_room_def not_less [symmetric])
  let ?u = "insert_entry oid e (c2\<lparr>tc_ticks := t\<rparr>)"
  have bu: "budgets_ok ?u"
    using acquire_host_budgets [OF c(1), of new_host payload blocks] make_room_fits [OF 1(7)] 1(8) c1 by (simp add: budgets_ok_def)
  then obtain t' where c': "c' = ?u\<lparr>tc_ticks := t'\<rparr>" using enforce_noop [of ?u ops] 1(14) by auto
  have f: "tc_persistent c2 = tc_persistent c" "tc_persistent_refs c2 = tc_persistent_refs c" "tc_config c2 = tc_config c"
    "ac_storage (tc_accounting c2) = ac_storage (tc_accounting c)"
    using acquire_host_frame [OF 1(8)] c1 by simp_all
  show thesis
    by (rule that [of e blocks]) (use 1(1,3,5,9,10) f bu in \<open>simp_all add: c' insert_entry_def fresh_entry_def has_tier_def budgets_ok_def\<close>)
qed

lemma created_Inr:
  assumes "cmd_create flags c = (Inr (), c')"
    and "flags ''store'' = Some path" "flags ''namespace'' = Some ns" "flags ''key'' = Some key"
    "num_flag flags ''generation'' 0 = Inr gen" "build_compat flags = Inr k" "read_payload flags c = Inr payload"
    "num_flag flags ''capacity'' DEFAULT_CAPACITY = Inr capacity"
  obtains tc tc1 tc2 oid where "open_store path capacity c = Inr tc"
    "register cpu_ops ns key gen k payload tc = (Inr oid, tc1)" "persist cpu_ops oid tc1 = (Inr (), tc2)"
    "\<forall>st. tc_persistent tc2 = Some st \<longrightarrow> cv_disks c' path = st" "cv_list c' = cv_list c" "''created object '' @ oid_to_hex oid \<in> set (cv_out c')"
proof -
  from assms obtain oid compat c1 where
    run: "in_store path capacity (st_then (register cpu_ops ns key gen k payload) (\<lambda>oid.
      st_then (persist cpu_ops oid) (\<lambda>_ tc. (Inr (oid, entry_compat_id tc oid), tc)))) c = (Inr (oid, compat), c1)"
    and out: "cv_disks c' = cv_disks c1" "cv_list c' = cv_list c1" "''created object '' @ oid_to_hex oid \<in> set (cv_out c')"
    by (auto simp: cmd_create_def req_flag_def ok_or_def st_then_Inr_iff println_def)
  from run obtain tc where o: "open_store path capacity c = Inr tc"
    by (auto simp: in_store_def Let_def split: sum.splits)
  with run obtain tc1 tc2 where r: "register cpu_ops ns key gen k payload tc = (Inr oid, tc1)" "persist cpu_ops oid tc1 = (Inr (), tc2)"
    and c1: "c1 = (case tc_persistent tc2 of Some st \<Rightarrow> c\<lparr>cv_disks := (cv_disks c)(path := st)\<rparr> | None \<Rightarrow> c)"
    by (auto simp: in_store_def st_then_Inr_iff split: prod.splits)
  show thesis
    by (rule that [OF o r]) (use c1 out in \<open>auto split: option.splits\<close>)
qed

section \<open>Restoring\<close>

lemma open_store_quiet: "st_faults (cv_disks c path) = [] \<Longrightarrow> \<exists>tc. open_store path capacity c = Inr tc"
proof -
  assume *: "st_faults (cv_disks c path) = []"
  obtain r st where o: "store_open (cv_list c BlocksDir (cv_disks c path)) (cv_list c ManifestsDir (cv_disks c path)) (cv_disks c path) = (r, st)"
    by fastforce
  have "r = Inr ()" using store_open_files(3) [OF o *] by blast
  then show ?thesis
    using o by (simp add: open_store_def with_backends_def Let_def cli_config_def config_default_def DEFAULT_BLOCK_SIZE_def
        recover_def case_prod_beta)
qed

lemma restore_recovered:
  assumes e: "tc_entries tc (oid_to_hex oid) = Some e" "en_placements e = [PPersistent]" "en_byte_len e = of_nat (length payload)"
    "\<not> is_quarantined e" and read: "materialize_payload ops oid tc = (Inr payload, tc)"
    and tc: "budgets_ok tc" "refs_ok n tc" "n + BMAX \<le> LIMIT" "tc_host tc = arena_new"
    and ch: "chunk payload (rc_block_size (tc_config tc)) = Inr blocks" "length payload < 2 ^ 64"
    and room: "of_nat (length payload) \<le> host_free tc"
  shows "\<exists>tc'. restore ops oid Host tc = (Inr payload, tc')"
proof -
  have new: "new_host_bytes blocks tc \<le> host_free tc" using new_host_fresh [OF tc(4) ch] room by simp
  from acquire_host_total [OF tc(1-3) ch this] obtain acquired tc1 where
    "acquire_host (new_host_bytes blocks tc) payload blocks tc = (Inr acquired, tc1)" by blast
  then have "add_placement ops oid Host payload tc = (Inr (), push_placement oid (PHost acquired) tc1)"
    using e(1,3) ch(1) chunk_valid [OF ch] new
    by (simp add: add_placement_def get_meta_def add_host_def Let_def not_less)
  then show ?thesis
    using e read by (simp add: restore_def entry_quarantined_def get_meta_def entry_has_tier_def has_tier_def)
qed

text \<open>The directory listings are honest: they name the files that are there.\<close>

definition honest_list :: "(dir \<Rightarrow> store \<Rightarrow> string list) \<Rightarrow> bool" where
  "honest_list ls \<longleftrightarrow> (\<forall>d st. finite_store st \<longrightarrow> set (ls d st) = {name. st_files st (d, name) \<noteq> None})"

lemma create_restarts:
  assumes run: "open_store path capacity c = Inr tc" "register cpu_ops ns key gen k payload tc = (Inr oid, tc1)"
      "persist cpu_ops oid tc1 = (Inr (), tc2)"
    and room: "length payload \<le> unat (max capacity (push_bit 20 1))" "length payload < 2 ^ 63"
    and obj: "valid_key k" "fits (compat_encode k)" "rust_address (address_new ns key gen)"
    and dir: "tidy (cv_disks c path)" "finite_store (cv_disks c path)" "honest_list (cv_list c')"
      "inj_on hash (set (pieces (unat DEFAULT_BLOCK_SIZE) payload) \<union> ran (st_files (cv_disks c path)))"
    and later: "\<forall>st. tc_persistent tc2 = Some st \<longrightarrow> cv_disks c' path = st" "st_faults (cv_disks c' path) = []" "open_store path capacity' c' = Inr tc'"
  shows "oid = object_id (address_new ns key gen) \<and> materialize_payload cpu_ops oid tc' = (Inr payload, tc') \<and> (\<exists>e'. tc_entries tc' (oid_to_hex oid) = Some e' \<and>
    en_placements e' = [PPersistent] \<and> en_byte_len e' = of_nat (length payload) \<and> \<not> is_quarantined e') \<and>
    (\<exists>blocks. chunk payload DEFAULT_BLOCK_SIZE = Inr blocks)"
proof -
  have len: "length payload < 2 ^ 64" using room(2) by simp
  obtain st d0 r0 st1 where o: "store_open (cv_list c BlocksDir (cv_disks c path)) (cv_list c ManifestsDir (cv_disks c path)) (cv_disks c path) = (Inr (), st)"
    "tc_host tc = arena_new" "tc_accounting tc = initial_accounting cpu_ops (cli_config path capacity) []"
    "tc_config tc = cli_config path capacity" "tc_persistent tc = Some st1" "st_files st1 = st_files st" "counted_exist tc"
    by (rule opened_cache [OF run(1)]) blast
  have le: "st_files st1 \<subseteq>\<^sub>m st_files (cv_disks c path)" using store_open_files(1) [OF o(1)] o(6) by simp
  have disk: "disk_ok tc" by (rule opened_disk_ok [OF o(7,5) tidy_le [OF dir(1) le]])
  have bs: "rc_block_size (tc_config tc) = DEFAULT_BLOCK_SIZE" using o(4) by (simp add: cli_config_def config_default_def)
  have free: "of_nat (length payload) \<le> host_free tc"
    using host_free_initial [OF o(3)] room(1) len by (simp add: cli_config_def word_le_nat_alt word_nat)
  have snd: "sound 0 tc" using opened_sound [OF run(1) [unfolded open_store_def Let_def]] .
  then have bud: "budgets_ok tc" "refs_ok 0 tc" by (simp_all add: sound_def)
  obtain e blocks where e: "oid = object_id (address_new ns key gen)" "tc_entries tc1 (oid_to_hex oid) = Some e"
    "\<not> has_tier e Persistent" "en_compat e = k" "en_address e = address_new ns key gen"
    "shape_byte_len (ck_shape k) (byte_size (ck_dtype k)) = Inr (en_byte_len e)"
    "tc_persistent tc1 = tc_persistent tc" "tc_persistent_refs tc1 = tc_persistent_refs tc" "tc_config tc1 = tc_config tc"
    "chunk payload (rc_block_size (tc_config tc)) = Inr blocks"
    by (rule register_fresh [OF run(2) bud(1) o(2) free len]) blast
  have inj: "inj_on hash (set (pieces (unat DEFAULT_BLOCK_SIZE) payload) \<union> ran (st_files st1))"
    by (rule inj_on_subset [OF dir(4)]) (use map_le_ran [OF le] in blast)
  have read: "materialize_payload cpu_ops oid tc1 = (Inr payload, tc1)"
    by (rule register_materialize [OF run(2) bud _ room(2)])
       (use inj bs o(2) in \<open>auto simp: BMAX_def LIMIT_def arena_new_def intro: inj_on_subset\<close>)
  have wf: "wf_oid oid" by (simp add: e(1) wf_object_id)
  have disk1: "tc_persistent tc1 = Some st1" "disk_ok tc1" using e(7,8) o(5) disk by (simp_all add: disk_ok_def)
  obtain st2 bl n where st2: "tc_persistent tc2 = Some st2" and w: "st_files st2 (ManifestsDir, oid_to_hex oid @ ''.manifest'') = Some (encode_manifest (meta_of oid e n bl))"
    "\<forall>name x. name \<noteq> oid_to_hex oid @ ''.manifest'' \<longrightarrow> st_files st2 (ManifestsDir, name) = Some x \<longrightarrow> st_files st1 (ManifestsDir, name) = Some x"
    "finite_store st1 \<longrightarrow> finite_store st2"
    by (rule persist_writes [OF run(3) e(2,3) read disk1 wf len]) blast
  have disk2: "cv_disks c' path = st2" "st_faults st2 = []" using later(1,2) st2 by auto
  obtain sd d r where q: "store_open (cv_list c' BlocksDir st2) (cv_list c' ManifestsDir st2) st2 = (Inr (), sd)"
    "tc_persistent d = Some sd" "recover (cv_list c' ManifestsDir sd) d = (r, tc')"
    by (rule opened_cache [OF later(3), unfolded disk2(1)]) blast
  have same: "same_objects st2 sd" "st_faults sd = []"
    using store_open_same_objects [OF q(1)] store_open_files(3) [OF q(1) disk2(2)] by simp_all
  have "finite_store sd"
    using w(3) dir(2) map_le_implies_dom_le [OF le] map_le_implies_dom_le [OF store_open_files(1) [OF q(1)]] by (meson finite_subset)
  then have own: "oid_to_hex oid @ ''.manifest'' \<in> set (cv_list c' ManifestsDir sd)"
    using same(1) w(1) dir(3) wf by (auto simp: same_objects_def honest_list_def)
  have only: "name = oid_to_hex oid @ ''.manifest''"
    if "st_files st2 (ManifestsDir, name) = Some (encode_manifest m')" "oid_from_hex (pe_object_id m') = Inr oid" for name m'
  proof (rule ccontr)
    assume "name \<noteq> oid_to_hex oid @ ''.manifest''"
    then have "st_files st1 (ManifestsDir, name) = Some (encode_manifest m')" using w(2) that(1) by blast
    with tidy_le [OF dir(1) le] that(2) \<open>name \<noteq> _\<close> show False by (auto simp: tidy_def)
  qed
  have "materialize_payload cpu_ops oid tc' = (Inr payload, tc') \<and> (\<exists>e'. tc_entries tc' (oid_to_hex oid) = Some e' \<and>
    en_placements e' = [PPersistent] \<and> en_byte_len e' = of_nat (length payload) \<and> \<not> is_quarantined e')"
    by (rule persist_restart_on [OF run(3) e(2,3) read disk1 wf room(2) _ _ _ _ _ st2 same q(2,3) own only])
       (use obj e(4-6,9) inj bs in simp_all)
  then show ?thesis using e(1,10) bs by auto
qed

section \<open>Creating succeeds\<close>

text \<open>With the default policy every object of at most one gibibyte is admitted.\<close>

lemma cli_admits:
  assumes "len \<le> 2 ^ 30"
  shows "is_admit (evaluate_ignoring_capacity (rc_admission (cli_config path capacity))
    (admission_candidate_of (cli_config path capacity) oid k (of_nat len)) a)"
proof -
  have u: "unat (of_nat len :: u64) = len" using assms by (intro unat_of_nat_fits) simp
  have "unat (reconstruct_cost_ns cost_default (of_nat len)) = 5000000 + len * 30"
    using assms by (simp add: unat_reconstruct_cost_ns cost_default_def u)
  then have "evaluate_ignoring_capacity (rc_admission (cli_config path capacity))
      (admission_candidate_of (cli_config path capacity) oid k (of_nat len)) a = Admit"
    unfolding ignoring_capacity_admit_iff using assms u
    by (simp add: cli_config_def config_default_def admission_default_def admission_candidate_of_def Let_def word_le_nat_alt)
  then show ?thesis by simp
qed

lemma cli_chunks:
  assumes "length payload \<le> 2 ^ 30"
  shows "\<exists>blocks. chunk payload DEFAULT_BLOCK_SIZE = Inr blocks"
proof -
  have u: "unat (of_nat (length payload) :: u64) = length payload" using assms by (intro unat_of_nat_fits) simp
  have n: "DEFAULT_BLOCK_SIZE \<noteq> 0" "unat DEFAULT_BLOCK_SIZE = 2 ^ 20" by (simp_all add: DEFAULT_BLOCK_SIZE_def)
  have "div_ceil (of_nat (length payload)) DEFAULT_BLOCK_SIZE \<le> MAX_BLOCKS_PER_TENSOR"
    using div_le_mono [OF assms, of 1048576] n(2) u by (simp add: word_le_nat_alt unat_div_ceil [OF n(1)] ceil_div_def MAX_BLOCKS_PER_TENSOR_def)
  then show ?thesis using chunk_loop_eq [OF n(1), of 0 payload] n(1) by (simp add: chunk_def)
qed

lemma new_storage_le:
  assumes "chunk payload n = Inr blocks" "length payload < 2 ^ 64"
  shows "unat (new_storage_bytes blocks c) \<le> length payload"
proof -
  have refs: "blocks = refs_of 0 (pieces (unat n) payload)" and n: "0 < unat n"
    using chunk_Inr [OF assms] by (auto simp: unat_gt_0)
  have "unat (foldl (\<lambda>n b. if Q b then n + br_len b else n) acc (refs_of off ps)) \<le> unat acc + length (concat ps)"
    if "unat acc + length (concat ps) < 2 ^ 64" for Q acc off ps
    using that
  proof (induction ps arbitrary: acc off)
    case (Cons p ps)
    have l: "unat (of_nat (length p) :: u64) = length p" using Cons.prems by (intro unat_of_nat_fits) simp
    have "unat (acc + of_nat (length p)) = unat acc + length p" using Cons.prems l by (simp add: unat_add_lem [THEN iffD1])
    then show ?case
      using Cons.IH [of "acc + of_nat (length p)" "off + length p"] Cons.IH [of acc "off + length p"] Cons.prems
      by (simp add: ref_of_def)
  qed simp
  from this [of 0 "pieces (unat n) payload"] assms(2) concat_pieces [OF n, of payload] show ?thesis
    by (simp add: new_storage_bytes_def refs)
qed

text \<open>The arguments of a create command, and what the machine must provide for it.\<close>

definition create_args :: "flags \<Rightarrow> 'w cli \<Rightarrow> string \<Rightarrow> string \<Rightarrow> string \<Rightarrow> u64 \<Rightarrow> compat_key \<Rightarrow> u8 list \<Rightarrow> u64 \<Rightarrow> bool" where
  "create_args flags c path ns key gen k payload capacity \<longleftrightarrow>
     flags ''store'' = Some path \<and> flags ''namespace'' = Some ns \<and> flags ''key'' = Some key \<and>
     num_flag flags ''generation'' 0 = Inr gen \<and> build_compat flags = Inr k \<and> read_payload flags c = Inr payload \<and>
     num_flag flags ''capacity'' DEFAULT_CAPACITY = Inr capacity"

definition fits_store :: "u8 list \<Rightarrow> u64 \<Rightarrow> bool" where
  "fits_store payload capacity \<longleftrightarrow> length payload \<le> 2 ^ 30 \<and> length payload \<le> unat (max capacity (push_bit 20 1))"

lemma create_total:
  assumes args: "create_args flags c path ns key gen k payload capacity" and room: "fits_store payload capacity"
    and obj: "shape_byte_len (ck_shape k) (byte_size (ck_dtype k)) = Inr (of_nat (length payload))"
      "oid = object_id (address_new ns key gen)"
    and dir: "tidy (cv_disks c path)" "st_faults (cv_disks c path) = []"
      "st_files (cv_disks c path) (ManifestsDir, oid_to_hex oid @ ''.manifest'') = None"
      "inj_on hash (set (pieces (unat DEFAULT_BLOCK_SIZE) payload) \<union> ran (st_files (cv_disks c path)))"
  shows "\<exists>c'. cmd_create flags c = (Inr (), c') \<and> st_faults (cv_disks c' path) = [] \<and> cv_fail c' = cv_fail c"
proof -
  have len: "length payload \<le> 2 ^ 30" "length payload < 2 ^ 63" "length payload < 2 ^ 64" using room by (simp_all add: fits_store_def)
  obtain tc where o: "open_store path capacity c = Inr tc" using open_store_quiet [OF dir(2)] by blast
  obtain st d r st1 where q: "store_open (cv_list c BlocksDir (cv_disks c path)) (cv_list c ManifestsDir (cv_disks c path)) (cv_disks c path) = (Inr (), st)"
    "tc_persistent d = Some st" "tc_entries d = Map.empty" "recover (cv_list c ManifestsDir st) d = (r, tc)"
    "tc_host tc = arena_new" "tc_accounting tc = initial_accounting cpu_ops (cli_config path capacity) []"
    "tc_config tc = cli_config path capacity" "tc_persistent tc = Some st1" "st_files st1 = st_files st" "st_faults st = [] \<longrightarrow> st1 = st"
    by (rule opened_cache [OF o]) blast
  have quiet: "st_faults st1 = []" using store_open_files(3) [OF q(1) dir(2)] q(10) by simp
  have le: "st_files st1 \<subseteq>\<^sub>m st_files (cv_disks c path)" using store_open_files(1) [OF q(1)] q(9) by simp
  have bs: "rc_block_size (tc_config tc) = DEFAULT_BLOCK_SIZE" using q(7) by (simp add: cli_config_def config_default_def)
  obtain blocks where ch: "chunk payload DEFAULT_BLOCK_SIZE = Inr blocks" using cli_chunks [OF len(1)] by blast
  have free: "of_nat (length payload) \<le> host_free tc"
    using host_free_initial [OF q(6)] room len(3) by (simp add: cli_config_def fits_store_def word_le_nat_alt word_nat)
  have bud: "budgets_ok tc" "refs_ok 0 tc" "0 + BMAX \<le> LIMIT"
    using opened_sound [OF o [unfolded open_store_def Let_def]] room
    by (simp_all add: sound_def fits_store_def BMAX_def LIMIT_def)
  have new: "tc_entries tc (oid_to_hex oid) = None"
  proof (rule recover_unknown [OF q(4,2)])
    fix name m assume "st_files st (ManifestsDir, name) = Some (encode_manifest m)"
    then have f: "st_files (cv_disks c path) (ManifestsDir, name) = Some (encode_manifest m)" using le q(9) by (metis domI map_le_def)
    show "oid_from_hex (pe_object_id m) \<noteq> Inr oid" using f dir(1,3) by (auto simp: tidy_def)
  qed (simp add: q(3))
  have inj: "inj_on hash (set (pieces (unat DEFAULT_BLOCK_SIZE) payload) \<union> ran (st_files st1))"
    by (rule inj_on_subset [OF dir(4)]) (use map_le_ran [OF le] in blast)
  obtain tc1 where r1: "register cpu_ops ns key gen k payload tc = (Inr oid, tc1)"
    using register_total [OF bud obj(2) new obj(1) len(2), where ops = cpu_ops and blocks = blocks] ch free cli_admits [OF len(1)] new_host_fresh [OF q(5) ch len(3)] bs q(7)
    by auto
  have read: "materialize_payload cpu_ops oid tc1 = (Inr payload, tc1)"
    by (rule register_materialize [OF r1 bud len(2)]) (use inj bs q(5) in \<open>auto simp: arena_new_def intro: inj_on_subset\<close>)
  obtain e where e: "tc_entries tc1 (oid_to_hex oid) = Some e" "\<not> has_tier e Persistent" "en_compat e = k"
    "shape_byte_len (ck_shape k) (byte_size (ck_dtype k)) = Inr (en_byte_len e)"
    "tc_persistent tc1 = tc_persistent tc" "tc_config tc1 = tc_config tc" "budgets_ok tc1"
    "ac_storage (tc_accounting tc1) = ac_storage (tc_accounting tc)"
    by (rule register_fresh [OF r1 bud(1) q(5) free len(3)]) blast
  obtain n where n: "numel (ck_shape k) = Inr n" using obj(1) by (auto simp: shape_byte_len_def res split: if_splits)
  let ?P = "set (pieces (unat DEFAULT_BLOCK_SIZE) payload)"
  have "block_file st1 (hash p) = None \<or> block_file st1 (hash p) = Some p" if "p \<in> ?P" for p
  proof (cases "block_file st1 (hash p)")
    case (Some x)
    then have "hash x = hash p" using tidy_le [OF dir(1) le] by (auto simp: tidy_def)
    moreover have "x \<in> ran (st_files st1)" using Some by (rule ranI)
    ultimately have "x = p" using inj that by (auto dest: inj_onD)
    with Some show ?thesis by simp
  qed simp
  then have un: "unspoilt ?P st1" using quiet by (simp add: unspoilt_def)
  have "acct_free KPersistent (tc_accounting tc1) = push_bit 31 1"
    using e(8) q(6) by (simp add: acct_free_def budget_free_def initial_accounting_def set_tier_capacity_def accounting_new_def
        budget_default_def set_capacity_def saturating_sub_def saturating_add_def checked_add_def cli_config_def config_default_def)
  then have fr: "new_storage_bytes blocks tc1 \<le> acct_free KPersistent (tc_accounting tc1)"
    using new_storage_le [OF ch len(3), of tc1] len(1) by (simp add: word_le_nat_alt)
  obtain tc2 st2 where r2: "persist cpu_ops oid tc1 = (Inr (), tc2)" "tc_persistent tc2 = Some st2" "st_faults st2 = []"
    "tc_entries tc2 (oid_to_hex oid) \<noteq> None"
    using persist_total [OF e(1,2) _ read, of st1 blocks n] e q(8) un inj obj ch n bs len(3) fr wf_object_id
    by (auto intro: inj_on_subset)
  obtain cid where cid: "entry_compat_id tc2 oid = Inr cid" using r2(4) by (auto simp: entry_compat_id_def get_meta_def)
  have "in_store path capacity (st_then (register cpu_ops ns key gen k payload) (\<lambda>oid.
      st_then (persist cpu_ops oid) (\<lambda>_ tc. (Inr (oid, entry_compat_id tc oid), tc)))) c =
      (Inr (oid, Inr cid), c\<lparr>cv_disks := (cv_disks c)(path := st2)\<rparr>)"
    using o r1 r2 cid by (simp add: in_store_def Let_def)
  then show ?thesis
    using args r2(3) by (simp add: cmd_create_def create_args_def req_flag_def ok_or_def println_def st_then_def [of "println _"] st_then_def [of "in_store _ _ _"])
qed

section \<open>From one process to the next\<close>

text \<open>The arguments of a restore command that writes the object to a file.\<close>

definition restore_args :: "flags \<Rightarrow> string \<Rightarrow> object_id \<Rightarrow> string \<Rightarrow> u64 \<Rightarrow> bool" where
  "restore_args flags path oid out capacity \<longleftrightarrow>
     flags ''store'' = Some path \<and> flags ''object'' = Some (oid_to_hex oid) \<and> tier_flag flags ''host'' = Inr Host \<and>
     flags ''out'' = Some out \<and> num_flag flags ''capacity'' DEFAULT_CAPACITY = Inr capacity"

lemma restore_created:
  assumes create: "cmd_create flags c = (Inr (), c')" "create_args flags c path ns key gen k payload capacity"
    and room: "fits_store payload capacity" "fits_store payload capacity'" and oid: "oid = object_id (address_new ns key gen)"
    and obj: "valid_key k" "fits (compat_encode k)" "rust_address (address_new ns key gen)"
    and dir: "tidy (cv_disks c path)" "finite_store (cv_disks c path)" "honest_list (cv_list c)"
      "inj_on hash (set (pieces (unat DEFAULT_BLOCK_SIZE) payload) \<union> ran (st_files (cv_disks c path)))"
    and later: "restore_args flags' path oid out capacity'" "st_faults (cv_disks c' path) = []" "cv_fail c' out = None"
  shows "''created object '' @ oid_to_hex oid \<in> set (cv_out c') \<and>
    (\<exists>c''. cmd_restore flags' c' = (Inr (), c'') \<and> cv_files c'' = cv_files c' @ [(out, payload)])"
proof -
  have len: "length payload < 2 ^ 63" "length payload < 2 ^ 64"
    and sz: "length payload \<le> unat (max capacity (push_bit 20 1))" "length payload \<le> unat (max capacity' (push_bit 20 1))"
    using room by (simp_all add: fits_store_def)
  obtain tc tc1 tc2 oid' where r: "open_store path capacity c = Inr tc"
    "register cpu_ops ns key gen k payload tc = (Inr oid', tc1)" "persist cpu_ops oid' tc1 = (Inr (), tc2)"
    "\<forall>st. tc_persistent tc2 = Some st \<longrightarrow> cv_disks c' path = st" "cv_list c' = cv_list c"
    "''created object '' @ oid_to_hex oid' \<in> set (cv_out c')"
    using create by (auto simp: create_args_def elim!: created_Inr)
  obtain tc' where o: "open_store path capacity' c' = Inr tc'" using open_store_quiet [OF later(2)] by blast
  have R: "oid' = oid \<and> materialize_payload cpu_ops oid tc' = (Inr payload, tc') \<and> (\<exists>e'. tc_entries tc' (oid_to_hex oid) = Some e' \<and>
      en_placements e' = [PPersistent] \<and> en_byte_len e' = of_nat (length payload) \<and> \<not> is_quarantined e') \<and>
      (\<exists>blocks. chunk payload DEFAULT_BLOCK_SIZE = Inr blocks)"
    using create_restarts [OF r(1-3) sz(1) len(1) obj dir(1,2) _ dir(4) r(4) later(2) o] dir(3) r(5) oid by auto
  obtain st d q st1 where op: "tc_host tc' = arena_new" "tc_accounting tc' = initial_accounting cpu_ops (cli_config path capacity') []"
    "tc_config tc' = cli_config path capacity'" "tc_persistent tc' = Some st1"
    by (rule opened_cache [OF o]) blast
  have bud: "budgets_ok tc'" "refs_ok 0 tc'" "0 + BMAX \<le> LIMIT"
    using opened_sound [OF o [unfolded open_store_def Let_def]] by (simp_all add: sound_def BMAX_def LIMIT_def)
  have free: "of_nat (length payload) \<le> host_free tc'"
    using host_free_initial [OF op(2)] sz(2) len(2) by (simp add: cli_config_def word_le_nat_alt word_nat)
  obtain tc3 where res: "restore cpu_ops oid Host tc' = (Inr payload, tc3)"
    using R restore_recovered [OF _ _ _ _ _ bud op(1) _ len(2) free, of oid _ cpu_ops] op(3)
    by (auto simp: cli_config_def config_default_def)
  have "in_store path capacity' (restore cpu_ops oid Host) c' =
      (Inr payload, case tc_persistent tc3 of Some st \<Rightarrow> c'\<lparr>cv_disks := (cv_disks c')(path := st)\<rparr> | None \<Rightarrow> c')"
    using o res by (simp add: in_store_def)
  moreover have "oid_from_hex (oid_to_hex oid) = Inr oid" by (simp add: oid oid_from_to_hex wf_object_id)
  ultimately have "\<exists>c''. cmd_restore flags' c' = (Inr (), c'') \<and> cv_files c'' = cv_files c' @ [(out, payload)]"
    using later(1,3)
    by (cases "tc_persistent tc3")
       (simp_all add: cmd_restore_def restore_args_def req_flag_def ok_or_def object_flag_def st_then_def [of "in_store _ _ _"]
         st_then_def [of "write_file _ _"] write_file_def println_def)
  with r(6) R show ?thesis by blast
qed

end
