(* ===== verification/Disk_Counts.thy ===== *)
theory Disk_Counts
  imports Durability
begin

text \<open>
  The block files of the persistent directory and their reference counts, over stores, releases and recoveries that
  may fail at any file operation; and what a read of an object can return, given what is known of its entry.
\<close>

section \<open>What reads return\<close>

text \<open>\<open>blocked bs blocks n\<close>: the block list is that of some payload of \<open>n\<close> bytes.\<close>

definition blocked :: "u64 \<Rightarrow> block_ref list \<Rightarrow> u64 \<Rightarrow> bool" where
  "blocked bs blocks n \<longleftrightarrow> (\<exists>payload. length payload < 2 ^ 63 \<and> chunk payload bs = Inr blocks \<and> n = of_nat (length payload))"

definition payload_of :: "u64 \<Rightarrow> entry \<Rightarrow> u8 list \<Rightarrow> bool" where
  "payload_of bs e bytes \<longleftrightarrow> chunk bytes bs = Inr (en_blocks e) \<and> en_byte_len e = of_nat (length bytes) \<and> length bytes < 2 ^ 63"

lemma pieces_shape:
  "0 < n \<Longrightarrow> list_all2 (\<lambda>p q. length q = length p) (pieces n xs) qs \<Longrightarrow> pieces n (concat qs) = qs"
proof (induction n xs arbitrary: qs rule: pieces.induct)
  case (1 n xs)
  show ?case
  proof (cases "xs = []")
    case True
    then show ?thesis using "1.prems" by (simp add: pieces.simps)
  next
    case False
    have ps: "pieces n xs = take n xs # pieces n (drop n xs)" using False "1.prems"(1) by (subst pieces.simps) simp
    obtain q qs' where qs: "qs = q # qs'" "length q = length (take n xs)"
      "list_all2 (\<lambda>p q. length q = length p) (pieces n (drop n xs)) qs'"
      using "1.prems"(2) unfolding ps by (auto simp: list_all2_Cons1)
    have IH: "pieces n (concat qs') = qs'" using "1.IH" False "1.prems"(1) qs(3) by simp
    have q: "q \<noteq> []" using qs(2) False "1.prems"(1) by (cases xs; cases n) auto
    have "take n (q @ concat qs') = q \<and> drop n (q @ concat qs') = concat qs'"
    proof (cases "n \<le> length xs")
      case True
      then show ?thesis using qs(2) by simp
    next
      case False
      then have "pieces n (drop n xs) = []" by (simp add: pieces.simps)
      then have "qs' = []" using qs(3) by simp
      then show ?thesis using qs(2) False by simp
    qed
    then show ?thesis using q IH "1.prems"(1) by (subst pieces.simps) (simp add: qs(1))
  qed
qed

lemma refs_of_same:
  "list_all2 (\<lambda>p q. length q = length p \<and> hash q = hash p \<and> crc32c q = crc32c p) ps qs \<Longrightarrow> refs_of off qs = refs_of off ps"
  by (induction ps qs arbitrary: off rule: list_all2_induct) (simp_all add: ref_of_def)

lemma chunk_of_pieces:
  assumes "n \<noteq> 0" "length bytes < 2 ^ 64" "div_ceil (of_nat (length bytes)) n \<le> MAX_BLOCKS_PER_TENSOR"
  shows "chunk bytes n = Inr (refs_of 0 (pieces (unat n) bytes))"
  using assms chunk_loop_eq [of n 0 bytes] counted_id [OF assms(2)] by (simp add: chunk_def not_less)

lemma list_all2_refs_of:
  "list_all2 R (refs_of off ps) qs \<Longrightarrow> list_all2 (\<lambda>p q. \<exists>off. R (ref_of off p) q) ps qs"
  by (induction ps arbitrary: off qs) (auto simp: list_all2_Cons1)

text \<open>Bytes that were verified against the blocks of a payload have exactly these blocks.\<close>

lemma chunk_verified:
  assumes "chunk payload bs = Inr blocks" "length payload < 2 ^ 63" "verified blocks bytes" "length bytes = length payload"
  shows "chunk bytes bs = Inr blocks"
proof -
  have len: "length payload < 2 ^ 64" using assms(2) by simp
  note c = chunk_Inr [OF assms(1) len]
  have n: "0 < unat bs" using c(2) by (simp add: unat_gt_0)
  obtain qs where qs: "bytes = concat qs"
    "list_all2 (\<lambda>b p. hash p = br_content_hash b \<and> br_len b = of_nat (length p) \<and> br_crc b = crc32c p) blocks qs"
    using assms(3) by (auto simp: verified_def)
  have small: "length q < 2 ^ 64" if "q \<in> set qs" for q
  proof -
    have "length q \<le> length (concat qs)" using that by (induction qs) auto
    then show ?thesis using qs(1) assms(4) len by simp
  qed
  have psmall: "length p < 2 ^ 64" if "p \<in> set (pieces (unat bs) payload)" for p
    using pieces_nonempty [OF that] unat_lt [of bs] by simp
  have "list_all2 (\<lambda>p q. \<exists>off. hash q = br_content_hash (ref_of off p) \<and> br_len (ref_of off p) = of_nat (length q) \<and>
      br_crc (ref_of off p) = crc32c q) (pieces (unat bs) payload) qs"
    using list_all2_refs_of [OF qs(2) [unfolded c(1)]] .
  then have rel: "list_all2 (\<lambda>p q. length q = length p \<and> hash q = hash p \<and> crc32c q = crc32c p) (pieces (unat bs) payload) qs"
  proof (rule list.rel_mono_strong)
    fix p q assume pq: "p \<in> set (pieces (unat bs) payload)" "q \<in> set qs"
      and "\<exists>off. hash q = br_content_hash (ref_of off p) \<and> br_len (ref_of off p) = of_nat (length q) \<and> br_crc (ref_of off p) = crc32c q"
    then have w: "(of_nat (length p) :: u64) = of_nat (length q)" "hash q = hash p" "crc32c q = crc32c p" by (auto simp: ref_of_def)
    have "length p = length q"
      using arg_cong [OF w(1), of unat] psmall [OF pq(1)] small [OF pq(2)] by (simp add: unat_of_nat_fits)
    with w show "length q = length p \<and> hash q = hash p \<and> crc32c q = crc32c p" by simp
  qed
  have "pieces (unat bs) bytes = qs"
    unfolding qs(1) by (rule pieces_shape [OF n]) (rule list_all2_mono [OF rel], simp)
  moreover have "refs_of 0 qs = blocks" using refs_of_same [OF rel] c(1) by simp
  ultimately show ?thesis
    using chunk_of_pieces [of bs bytes] c(2,3) len assms(4) by simp
qed

text \<open>What an entry says of its object, apart from where copies are.\<close>

definition entry_fine :: "u64 \<Rightarrow> string \<Rightarrow> entry \<Rightarrow> bool" where
  "entry_fine bs key e \<longleftrightarrow> (\<exists>oid. wf_oid oid \<and> key = oid_to_hex oid) \<and>
     rust_key (en_compat e) \<and> fits (compat_encode (en_compat e)) \<and> rust_address (en_address e) \<and>
     shape_byte_len (ck_shape (en_compat e)) (byte_size (ck_dtype (en_compat e))) = Inr (en_byte_len e) \<and>
     numel (ck_shape (en_compat e)) = Inr (en_numel e) \<and> blocked bs (en_blocks e) (en_byte_len e)"

text \<open>Its copies: a device holds the payload, and there is at most one persistent copy.\<close>

definition copies_fine :: "u64 \<Rightarrow> entry \<Rightarrow> bool" where
  "copies_fine bs e \<longleftrightarrow>
     (\<forall>d v. PAccelerator d \<in> set (en_placements e) \<longrightarrow> db_handle d = Cpu v \<longrightarrow> payload_of bs e v) \<and>
     length (filter (\<lambda>p. p = PPersistent) (en_placements e)) \<le> 1"

lemma first_device_in: "first_device ps = Some d \<Longrightarrow> PAccelerator d \<in> set ps"
  by (induction ps rule: first_device.induct) auto

lemma reads_fine:
  assumes "arena_inv (tc_host c)" "tc_entries c (oid_to_hex oid) = Some e" "entry_fine bs key e" "copies_fine bs e"
    "materialize_payload cpu_ops oid c = (Inr bytes, c')"
  shows "payload_of bs e bytes"
proof (cases "has_tier e Host \<or> first_device (en_placements e) = None")
  case True
  obtain payload where p: "length payload < 2 ^ 63" "chunk payload bs = Inr (en_blocks e)" "en_byte_len e = of_nat (length payload)"
    using assms(3) by (auto simp: entry_fine_def blocked_def)
  have v: "length bytes = unat (en_byte_len e)" "verified (en_blocks e) bytes"
    using materialize_payload_verified [OF assms(1,2) True assms(5)] by simp_all
  then have "length bytes = length payload" using p(1,3) by (simp add: unat_of_nat_fits)
  then show ?thesis using chunk_verified [OF p(2,1) v(2)] p by (simp add: payload_of_def)
next
  case False
  then obtain d where d: "first_device (en_placements e) = Some d" "\<not> has_tier e Host" by auto
  then have "\<not> list_ex (\<lambda>t. t = Host) (placement_tiers e)" by (force simp: has_tier_def placement_tiers_def list_ex_iff)
  then have "from_device cpu_ops e (db_backend d) d c = Inr bytes"
    using assms(2,5) d(1) by (auto simp: materialize_payload_def get_meta_def Let_def split: if_splits)
  then obtain v where "db_handle d = Cpu v" "bytes = v"
    by (auto simp: from_device_def cpu_ops_def cpu_device_to_host_def copy_from_slice_def res split: if_splits device_handle.splits)
  then show ?thesis using assms(4) first_device_in [OF d(1)] by (auto simp: copies_fine_def)
qed

section \<open>Blocks and their counts\<close>

text \<open>A file with the name of a digest has contents with that digest.\<close>

definition blocks_tidy :: "store \<Rightarrow> bool" where
  "blocks_tidy st \<longleftrightarrow> (\<forall>h data. length (digest_bytes h) = 32 \<longrightarrow> block_file st h = Some data \<longrightarrow> hash data = h)"

definition ref_count :: "'b cache \<Rightarrow> digest \<Rightarrow> nat" where
  "ref_count c h = (case tc_persistent_refs c h of None \<Rightarrow> 0 | Some r \<Rightarrow> unat r)"

text \<open>\<open>counts n M c\<close>: a counted block has its file, the references in \<open>M\<close> are counted, and no count exceeds \<open>n\<close>.\<close>

definition counts :: "nat \<Rightarrow> digest multiset \<Rightarrow> 'b cache \<Rightarrow> bool" where
  "counts n M c \<longleftrightarrow>
     (\<forall>st. tc_persistent c = Some st \<longrightarrow> blocks_tidy st) \<and>
     (\<forall>h. tc_persistent_refs c h \<noteq> None \<longrightarrow> (\<exists>st. tc_persistent c = Some st \<and> file_ok st h)) \<and>
     (\<forall>h. count M h \<le> ref_count c h \<and> ref_count c h \<le> n)"

lemma counts_mono: "counts n M c \<Longrightarrow> n \<le> n' \<Longrightarrow> M' \<subseteq># M \<Longrightarrow> counts n' M' c"
  unfolding counts_def by (meson mset_subset_eq_count order_trans)

lemma counts_file: "counts n M c \<Longrightarrow> h \<in># M \<Longrightarrow> \<exists>st. tc_persistent c = Some st \<and> file_ok st h"
proof -
  assume c: "counts n M c" and h: "h \<in># M"
  then have "0 < ref_count c h" unfolding counts_def by (meson count_greater_zero_iff less_le_trans)
  then show ?thesis using c by (auto simp: counts_def ref_count_def split: option.splits)
qed

lemma counts_cong:
  assumes "counts n M c" "tc_persistent_refs c' = tc_persistent_refs c" "tc_persistent c = Some st" "tc_persistent c' = Some st'"
    "\<And>h. length (digest_bytes h) = 32 \<Longrightarrow> block_file st' h = block_file st h"
  shows "counts n M c'"
proof -
  have "file_ok st' h" if "file_ok st h" for h using that assms(5) file_ok_length [OF that] by (simp add: file_ok_def)
  then show ?thesis using assms by (auto simp: counts_def ref_count_def blocks_tidy_def)
qed

abbreviation digests :: "block_ref list \<Rightarrow> digest multiset" where
  "digests bs \<equiv> mset (map br_content_hash bs)"

text \<open>Releasing takes the references of the list away; a file goes when its count does.\<close>

lemma remove_block_files:
  "st_files (snd (remove_block h st)) = st_files st \<or> st_files (snd (remove_block h st)) = (st_files st)((BlocksDir, to_hex h) := None)"
proof (cases "hex_path_valid (to_hex h)")
  case True
  then show ?thesis
    using fs_remove_file_files [of "(BlocksDir, to_hex h)" st]
    by (cases "fs_remove_file (BlocksDir, to_hex h) st") (auto simp: remove_block_def block_path_def)
qed (simp add: remove_block_def block_path_def)

lemma remove_block_manifests: "st_files (snd (remove_block h st)) (ManifestsDir, name) = st_files st (ManifestsDir, name)"
  using remove_block_files [of h st] by auto

definition same_manifests :: "store option \<Rightarrow> store option \<Rightarrow> bool" where
  "same_manifests x y \<longleftrightarrow>
     rel_option (\<lambda>st st'. \<forall>name. st_files st' (ManifestsDir, name) = st_files st (ManifestsDir, name)) x y"

lemma same_manifests_refl [simp]: "same_manifests x x"
  by (simp add: same_manifests_def option.rel_refl)

lemma same_manifests_trans: "same_manifests x y \<Longrightarrow> same_manifests y z \<Longrightarrow> same_manifests x z"
  by (auto simp: same_manifests_def option.rel_sel)

lemma counts_release_one:
  assumes "counts n (add_mset h M) c"
  obtains r where "tc_persistent_refs c h = Some r"
    "r - 1 = 0 \<Longrightarrow> counts n M (c\<lparr>tc_persistent := map_option (\<lambda>st. snd (remove_block h st)) (tc_persistent c),
        tc_persistent_refs := (tc_persistent_refs c)(h := None), tc_storage_used := used\<rparr>)"
    "r - 1 \<noteq> 0 \<Longrightarrow> counts n M (c\<lparr>tc_persistent_refs := (tc_persistent_refs c)(h \<mapsto> r - 1)\<rparr>)"
proof -
  have "count (add_mset h M) h \<le> ref_count c h" using assms unfolding counts_def by blast
  then obtain r where r: "tc_persistent_refs c h = Some r" "Suc (count M h) \<le> unat r"
    by (auto simp: ref_count_def split: option.splits)
  obtain st where st: "tc_persistent c = Some st" "file_ok st h" "blocks_tidy st" using assms r(1) by (auto simp: counts_def)
  let ?st = "snd (remove_block h st)"
  have keep: "file_ok ?st h'" if "h' \<noteq> h" "file_ok st h'" for h'
    using remove_block_files [of h st] that file_ok_length [OF that(2)] file_ok_length [OF st(2)] by (auto simp: file_ok_def)
  have tidy: "blocks_tidy ?st"
    using remove_block_files [of h st] st(3) by (auto simp: blocks_tidy_def split: if_splits)
  have others: "count M h' \<le> ref_count c h'" "ref_count c h' \<le> n" for h'
  proof -
    have "count (add_mset h M) h' \<le> ref_count c h' \<and> ref_count c h' \<le> n" using assms unfolding counts_def by blast
    then show "count M h' \<le> ref_count c h'" "ref_count c h' \<le> n" by (auto split: if_splits)
  qed
  show thesis
  proof (rule that [OF r(1)])
    assume "r - 1 = 0"
    then have "r = 1" by simp
    then have "count M h = 0" using r(2) by simp
    then show "counts n M (c\<lparr>tc_persistent := map_option (\<lambda>st. snd (remove_block h st)) (tc_persistent c),
        tc_persistent_refs := (tc_persistent_refs c)(h := None), tc_storage_used := used\<rparr>)"
      using assms st keep tidy others by (auto simp: counts_def ref_count_def)
  next
    assume "r - 1 \<noteq> 0"
    have "unat (r - 1) = unat r - 1" using r(2) unat_sub_fits [of 1 r] by (simp add: word_le_nat_alt)
    then show "counts n M (c\<lparr>tc_persistent_refs := (tc_persistent_refs c)(h \<mapsto> r - 1)\<rparr>)"
      using assms r others [of h] others by (auto simp: counts_def ref_count_def)
  qed
qed

lemma release_counts:
  assumes "counts n (digests bs + M) c"
  shows "counts n M (release_persistent bs c) \<and> same_manifests (tc_persistent c) (tc_persistent (release_persistent bs c))"
  using assms
proof (induction bs arbitrary: c)
  case (Cons b bs)
  let ?h = "br_content_hash b"
  have sm: "same_manifests (tc_persistent c) (map_option (\<lambda>st. snd (remove_block h st)) (tc_persistent c))" for h
    by (cases "tc_persistent c") (simp_all add: same_manifests_def remove_block_manifests)
  have "counts n (add_mset ?h (digests bs + M)) c" using Cons.prems by simp
  from counts_release_one [OF this, of "saturating_sub (tc_storage_used c) (br_len b)"] obtain r where
    r: "tc_persistent_refs c ?h = Some r" and
    zero: "r - 1 = 0 \<Longrightarrow> counts n (digests bs + M) (c\<lparr>tc_persistent := map_option (\<lambda>st. snd (remove_block ?h st)) (tc_persistent c),
        tc_persistent_refs := (tc_persistent_refs c)(?h := None), tc_storage_used := saturating_sub (tc_storage_used c) (br_len b)\<rparr>)" and
    more: "r - 1 \<noteq> 0 \<Longrightarrow> counts n (digests bs + M) (c\<lparr>tc_persistent_refs := (tc_persistent_refs c)(?h \<mapsto> r - 1)\<rparr>)" by blast
  show ?case
    using Cons.IH [OF zero] Cons.IH [OF more] r by (auto intro: same_manifests_trans [OF sm])
qed simp

text \<open>Counting again, or for the first time.\<close>

lemma counts_one:
  assumes "counts n M c" "n < 2 ^ 64 - 1" "tc_persistent c = Some st" "file_ok st h"
    "tc_persistent c' = tc_persistent c"
    "tc_persistent_refs c' = (tc_persistent_refs c)(h \<mapsto> (case tc_persistent_refs c h of Some r \<Rightarrow> r + 1 | None \<Rightarrow> 1))"
  shows "counts (Suc n) (add_mset h M) c'"
proof -
  have rc: "ref_count c h \<le> n" using assms(1) by (simp add: counts_def)
  have "ref_count c' h = Suc (ref_count c h)"
  proof (cases "tc_persistent_refs c h")
    case (Some r)
    then have "unat r + 1 < 2 ^ 64" using rc assms(2) by (simp add: ref_count_def)
    then show ?thesis using Some assms(6) by (simp add: ref_count_def unat_add_fits)
  qed (simp add: ref_count_def assms(6))
  moreover have "ref_count c' h' = ref_count c h'" if "h' \<noteq> h" for h' using that by (simp add: ref_count_def assms(6))
  ultimately have "count (add_mset h M) h' \<le> ref_count c' h' \<and> ref_count c' h' \<le> Suc n" for h'
    using assms(1) unfolding counts_def by (cases "h' = h") (auto intro: le_SucI)
  then show ?thesis using assms by (auto simp: counts_def)
qed

lemma put_counts:
  assumes "counts n M c" "n + length bs < 2 ^ 64" "blocks_of bytes bs" "put_blocks bytes bs c = (r, c')"
  shows "counts (n + length bs) (if r = Inr () then digests bs + M else M) c' \<and> same_manifests (tc_persistent c) (tc_persistent c')"
  using assms
proof (induction bs arbitrary: n M c)
  case (Cons b bs)
  let ?h = "br_content_hash b"
  have bs: "blocks_of bytes bs" and small: "n < 2 ^ 64 - 1" using Cons.prems(2,3) by (simp_all add: blocks_of_def)
  have rest: "counts (n + length (b # bs)) (if r = Inr () then digests (b # bs) + M else M) c' \<and> same_manifests (tc_persistent c) (tc_persistent c')"
    if "counts (Suc n) (add_mset ?h M) c1" "put_blocks bytes bs c1 = (r, c')" "same_manifests (tc_persistent c) (tc_persistent c1)" for c1
  proof -
    have "counts (Suc n + length bs) (if r = Inr () then digests bs + add_mset ?h M else add_mset ?h M) c' \<and>
        same_manifests (tc_persistent c1) (tc_persistent c')"
      by (rule Cons.IH [OF that(1) _ bs that(2)]) (use Cons.prems(2) in simp)
    then show ?thesis
      using same_manifests_trans [OF that(3)] by (auto intro: counts_mono split: if_splits)
  qed
  show ?case
  proof (cases "tc_persistent_refs c ?h")
    case (Some k)
    obtain st where st: "tc_persistent c = Some st" "file_ok st ?h" using Cons.prems(1) Some by (auto simp: counts_def)
    show ?thesis
      by (rule rest [of "c\<lparr>tc_persistent_refs := (tc_persistent_refs c)(?h \<mapsto> k + 1)\<rparr>"])
         (use Cons.prems(1,4) Some small st in \<open>auto intro: counts_one\<close>)
  next
    case None
    obtain p where p: "block_slice bytes b = Inr p" "?h = hash p" using Cons.prems(3) by (auto simp: blocks_of_def)
    show ?thesis
    proof (cases "tc_persistent c")
      case None2: None
      then show ?thesis using Cons.prems(1,4) None p(1) by (auto intro: counts_mono)
    next
      case st: (Some st)
      obtain r1 st1 where put: "put_block p st = (r1, st1)" by fastforce
      have tidy: "blocks_tidy st1"
        using Cons.prems(1) st put_block_files [OF put] by (fastforce simp: counts_def blocks_tidy_def)
      have c1: "counts n M (c\<lparr>tc_persistent := Some st1\<rparr>)"
        using Cons.prems(1) st tidy put_block_file_ok [OF put] by (auto simp: counts_def ref_count_def)
      have sm: "same_manifests (tc_persistent c) (Some st1)"
        using put_block_manifests [OF put] by (simp add: same_manifests_def st)
      show ?thesis
      proof (cases r1)
        case (Inl e)
        then show ?thesis using Cons.prems(4) None p(1) st put c1 sm by (auto intro: counts_mono)
      next
        case (Inr h1)
        have ok: "file_ok st1 ?h" using put_block_stored [OF put [unfolded Inr]] p(2) by (auto simp: file_ok_def)
        let ?c1 = "c\<lparr>tc_persistent := Some st1, tc_persistent_refs := (tc_persistent_refs c)(?h \<mapsto> 1),
          tc_storage_used := tc_storage_used c + br_len b\<rparr>"
        show ?thesis
          by (rule rest [of ?c1])
             (use Cons.prems(4) None p(1) st put Inr sm in \<open>simp_all add: counts_one [OF c1 small _ ok]\<close>)
      qed
    qed
  qed
qed simp

lemma count_counts:
  assumes "counts n M c" "n + length bs < 2 ^ 64" "tc_persistent c = Some st" "\<forall>b \<in> set bs. file_ok st (br_content_hash b)"
  shows "counts (n + length bs) (digests bs + M) (count_blocks bs c)"
  using assms
proof (induction bs arbitrary: n M c)
  case (Cons b bs)
  let ?h = "br_content_hash b"
  let ?c = "case tc_persistent_refs c ?h of
      Some r \<Rightarrow> c\<lparr>tc_persistent_refs := (tc_persistent_refs c)(?h \<mapsto> r + 1)\<rparr>
    | None \<Rightarrow> c\<lparr>tc_persistent_refs := (tc_persistent_refs c)(?h \<mapsto> 1), tc_storage_used := tc_storage_used c + br_len b\<rparr>"
  have p: "tc_persistent ?c = tc_persistent c" by (simp split: option.splits)
  have "counts (Suc n) (add_mset ?h M) ?c"
    by (rule counts_one [OF Cons.prems(1) _ Cons.prems(3)]) (use Cons.prems(2,4) in \<open>auto split: option.splits\<close>)
  from Cons.IH [OF this] Cons.prems(2-4) p show ?case by simp
qed simp

end
