(* ===== verification/Disk_Safety.thy ===== *)
theory Disk_Safety
  imports Disk_Counts
begin

text \<open>
  The directory over its whole life, through any number of processes.  After any sequence of commands and restarts,
  whichever file operations fail, every object with a persistent copy has all its blocks in the directory, intact, and,
  if its layout validates, its manifest; so a process that opens the directory later, after a crash at any point, recovers
  the object and reads its payload.  The invariant is an interpretation of \<open>cache_steps\<close> for the CPU backend.
\<close>

section \<open>Manifests\<close>

abbreviation manifest_name :: "object_id \<Rightarrow> string" where
  "manifest_name oid \<equiv> oid_to_hex oid @ ''.manifest''"

lemma tmp_extension: "path_extension (tmp_name name pid) \<noteq> Some ''manifest''"
proof -
  have dot: "c \<noteq> CHR ''.''" if c: "c \<in> set (show_w pid)" for c
  proof -
    obtain k where k: "k < 10" "c = char_of (48 + k :: nat)" using show_nat_digits c by (auto simp: show_w_def)
    then have "of_char c = 48 + k" by (simp add: of_char_of)
    then show ?thesis by auto
  qed
  have "takeWhile (\<lambda>c. c \<noteq> CHR ''.'') (rev (tmp_name name pid)) = rev (show_w pid) @ ''pmt''"
    using dot by (simp add: tmp_name_def takeWhile_append)
  then have "path_extension (tmp_name name pid) = None \<or> path_extension (tmp_name name pid) = Some (''tmp'' @ show_w pid)"
    by (simp add: path_extension_def Let_def)
  then show ?thesis by auto
qed

lemma manifest_name_extension: "wf_oid oid \<Longrightarrow> path_extension (manifest_name oid) = Some ''manifest''"
proof -
  assume "wf_oid oid"
  then have "oid_to_hex oid \<noteq> []" by (auto simp: oid_to_hex_def to_hex_def wf_oid_def dest: arg_cong [of _ _ length])
  then show ?thesis by (simp add: manifest_extension)
qed

lemma oid_to_hex_inj: "wf_oid i \<Longrightarrow> wf_oid j \<Longrightarrow> oid_to_hex i = oid_to_hex j \<Longrightarrow> i = j"
  by (metis oid_from_to_hex sum.inject(2))

text \<open>Writing a manifest, whether it succeeds or fails, touches no block and no other manifest.\<close>

lemma write_manifest_any:
  assumes "write_manifest m st = (r, st')" "wf_oid oid" "pe_object_id m = oid_to_hex oid"
  shows "block_file st' h = block_file st h"
    and "path_extension name = Some ''manifest'' \<Longrightarrow> name \<noteq> manifest_name oid \<Longrightarrow>
      st_files st' (ManifestsDir, name) = st_files st (ManifestsDir, name)"
    and "r = Inr () \<Longrightarrow> st_files st' (ManifestsDir, manifest_name oid) = Some (encode_manifest m)"
    and "r \<noteq> Inr () \<Longrightarrow> st_files st' (ManifestsDir, manifest_name oid) = st_files st (ManifestsDir, manifest_name oid) \<or>
      st_files st' (ManifestsDir, manifest_name oid) = None"
proof -
  have w: "atomic_write (ManifestsDir, manifest_name oid) (encode_manifest m) st = (r, st')"
    using assms by (simp add: write_manifest_def Let_def manifest_path_ok)
  note o = atomic_write_outcome [OF w]
  show "block_file st' h = block_file st h" using o by simp
  show "st_files st' (ManifestsDir, name) = st_files st (ManifestsDir, name)"
    if "path_extension name = Some ''manifest''" "name \<noteq> manifest_name oid"
    using conjunct1 [OF o] that tmp_extension [of "manifest_name oid" "st_pid st"] by auto
  show "r = Inr () \<Longrightarrow> st_files st' (ManifestsDir, manifest_name oid) = Some (encode_manifest m)" using o by simp
  show "r \<noteq> Inr () \<Longrightarrow> st_files st' (ManifestsDir, manifest_name oid) = st_files st (ManifestsDir, manifest_name oid) \<or>
      st_files st' (ManifestsDir, manifest_name oid) = None" using o by simp
qed

lemma remove_manifest_any:
  assumes "wf_oid oid"
  shows "block_file (snd (remove_manifest (oid_to_hex oid) st)) h = block_file st h"
    and "name \<noteq> manifest_name oid \<Longrightarrow>
      st_files (snd (remove_manifest (oid_to_hex oid) st)) (ManifestsDir, name) = st_files st (ManifestsDir, name)"
    and "st_files (snd (remove_manifest (oid_to_hex oid) st)) p = Some x \<Longrightarrow> st_files st p = Some x"
  using assms fs_remove_file_files [of "(ManifestsDir, manifest_name oid)" st]
  by (cases "fs_remove_file (ManifestsDir, manifest_name oid) st"; auto simp: remove_manifest_def manifest_path_ok split: if_splits)+

text \<open>A manifest as the program writes it, also for a key whose layout does not validate.  Such a manifest is never mistaken
  for another one: what decodes from its bytes is the manifest itself.\<close>

definition written :: "persist_meta \<Rightarrow> bool" where
  "written m \<longleftrightarrow> rust_str (pe_object_id m) \<and> rust_str (pe_namespace m) \<and> rust_str (pe_key m) \<and> rust_key (pe_compat m) \<and>
     fits (compat_encode (pe_compat m)) \<and> length (pe_blocks m) \<le> unat MAX_BLOCKS_PER_TENSOR \<and> (\<forall>b \<in> set (pe_blocks m). block_ok b)"

lemma written_body: "written m \<Longrightarrow> valid_key (pe_compat m) \<Longrightarrow> body_ok m"
  by (simp add: written_def body_ok_def)

lemma encode_manifest_inject:
  assumes "written m" "meta_ok m'" "encode_manifest m' = encode_manifest m"
  shows "m' = m"
proof -
  have len: "length (digest_bytes (hash x)) = 32" for x by simp
  have body: "manifest_body m' = manifest_body m"
    using assms(3) len by (simp add: encode_manifest_def Let_def)
  have m': "body_ok m'" "valid_key (pe_compat m')" using assms(2) by (simp_all add: meta_ok_def body_ok_def)
  have "compat_encode (pe_compat m') = compat_encode (pe_compat m)"
    using body assms(1) m'(1) by (simp add: manifest_body_def written_def body_ok_def prefixes)
  then have "pe_compat m' = pe_compat m"
    using compat_encode_inject [of "pe_compat m'" "pe_compat m"] assms(1) m'(2) by (simp add: written_def valid_key_def)
  then have "body_ok m" using written_body [OF assms(1)] m'(2) by simp
  with man.enc_inject [OF m'(1)] body show ?thesis by blast
qed

text \<open>Every manifest is under the name of its object and lists the blocks of a payload.\<close>

definition listed :: "u64 \<Rightarrow> store \<Rightarrow> bool" where
  "listed bs st \<longleftrightarrow> (\<forall>name m. meta_ok m \<longrightarrow> path_extension name = Some ''manifest'' \<longrightarrow>
     st_files st (ManifestsDir, name) = Some (encode_manifest m) \<longrightarrow>
     (\<exists>oid. wf_oid oid \<and> oid_from_hex (pe_object_id m) = Inr oid \<and> name = manifest_name oid) \<and>
     blocked bs (pe_blocks m) (pe_byte_len m))"

definition describes :: "persist_meta \<Rightarrow> entry \<Rightarrow> bool" where
  "describes m e \<longleftrightarrow> meta_ok m \<and> pe_blocks m = en_blocks e \<and> pe_byte_len m = en_byte_len e \<and> pe_compat m = en_compat e \<and>
     address_new (pe_namespace m) (pe_key m) (pe_generation m) = en_address e"

definition kept :: "'b cache \<Rightarrow> bool" where
  "kept c \<longleftrightarrow> (\<forall>oid e. wf_oid oid \<longrightarrow> tc_entries c (oid_to_hex oid) = Some e \<longrightarrow> has_tier e Persistent \<longrightarrow> valid_key (en_compat e) \<longrightarrow>
     (\<exists>st m. tc_persistent c = Some st \<and> st_files st (ManifestsDir, manifest_name oid) = Some (encode_manifest m) \<and> describes m e))"

lemma keptD:
  assumes "kept c" "wf_oid oid" "tc_entries c (oid_to_hex oid) = Some e" "has_tier e Persistent" "valid_key (en_compat e)"
    "tc_persistent c = Some st"
  shows "\<exists>m. st_files st (ManifestsDir, manifest_name oid) = Some (encode_manifest m) \<and> describes m e"
  using assms(1) [unfolded kept_def, rule_format, OF assms(2-5)] assms(6) by simp

section \<open>The invariant\<close>

definition disk_refs :: "entry \<Rightarrow> digest multiset" where
  "disk_refs e = (if has_tier e Persistent then digests (en_blocks e) else {#})"

definition disk_part :: "u64 \<Rightarrow> nat \<Rightarrow> 'b cache \<Rightarrow> bool" where
  "disk_part bs n c \<longleftrightarrow> rc_block_size (tc_config c) = bs \<and>
     (\<forall>key e. tc_entries c key = Some e \<longrightarrow> entry_fine bs key e \<and> copies_fine bs e) \<and>
     counts n (refs_by disk_refs (tc_entries c)) c \<and> (\<forall>st. tc_persistent c = Some st \<longrightarrow> listed bs st) \<and> kept c"

definition disk_inv :: "u64 \<Rightarrow> nat \<Rightarrow> cpu_backend cache \<Rightarrow> bool" where
  "disk_inv bs n c \<longleftrightarrow> refs_ok n c \<and> disk_part bs n c"

lemma disk_part_mono: "disk_part bs n c \<Longrightarrow> n \<le> m \<Longrightarrow> disk_part bs m c"
  unfolding disk_part_def by (blast intro: counts_mono)

text \<open>A change of the entries that adds no persistent copy.\<close>

lemma disk_part_entries:
  assumes "disk_part bs n c" "finite (dom (tc_entries c))" "finite (dom (tc_entries c'))"
    "tc_config c' = tc_config c" "tc_persistent c' = tc_persistent c" "tc_persistent_refs c' = tc_persistent_refs c"
    and e: "\<And>key e'. tc_entries c' key = Some e' \<Longrightarrow> entry_fine bs key e' \<and> copies_fine bs e' \<and>
      (has_tier e' Persistent \<longrightarrow> (\<exists>e. tc_entries c key = Some e \<and> has_tier e Persistent \<and> en_blocks e' = en_blocks e \<and>
         en_byte_len e' = en_byte_len e \<and> en_compat e' = en_compat e \<and> en_address e' = en_address e))"
  shows "disk_part bs n c'"
proof -
  have "refs_by disk_refs (tc_entries c') \<subseteq># refs_by disk_refs (tc_entries c)"
    by (rule refs_by_mono [OF assms(2,3)]) (use e in \<open>fastforce simp: disk_refs_def\<close>)
  then have "counts n (refs_by disk_refs (tc_entries c')) c" using assms(1) by (auto simp: disk_part_def intro: counts_mono)
  then have "counts n (refs_by disk_refs (tc_entries c')) c'" using assms(5,6) by (simp add: counts_def ref_count_def)
  moreover have "kept c'"
    unfolding kept_def
  proof (intro allI impI)
    fix oid e' assume oid: "wf_oid oid" and e': "tc_entries c' (oid_to_hex oid) = Some e'" "has_tier e' Persistent" "valid_key (en_compat e')"
    from e [OF e'(1)] e'(2) obtain e where "tc_entries c (oid_to_hex oid) = Some e" "has_tier e Persistent"
      "en_blocks e' = en_blocks e" "en_byte_len e' = en_byte_len e" "en_compat e' = en_compat e" "en_address e' = en_address e" by blast
    with assms(1) oid e'(3) show "\<exists>st m. tc_persistent c' = Some st \<and> st_files st (ManifestsDir, manifest_name oid) = Some (encode_manifest m) \<and> describes m e'"
      unfolding disk_part_def kept_def describes_def assms(5) by metis
  qed
  ultimately show ?thesis using assms(1,4,5) e by (auto simp: disk_part_def)
qed

lemma disk_part_frame:
  assumes "disk_part bs n c" "tc_entries c' = tc_entries c" "tc_config c' = tc_config c" "tc_persistent c' = tc_persistent c"
    "tc_persistent_refs c' = tc_persistent_refs c"
  shows "disk_part bs n c'"
  using assms by (simp add: disk_part_def counts_def ref_count_def kept_def)

lemma disk_part_reread:
  assumes "disk_part bs n c" "tc_persistent c = Some st" "st_files st' = st_files st"
  shows "disk_part bs n (c\<lparr>tc_persistent := Some st'\<rparr>)"
proof -
  have "counts n (refs_by disk_refs (tc_entries c)) (c\<lparr>tc_persistent := Some st'\<rparr>)"
    by (rule counts_cong [where c = c and st = st and st' = st']) (use assms in \<open>simp_all add: disk_part_def\<close>)
  then show ?thesis using assms by (auto simp: disk_part_def listed_def kept_def)
qed

subsection \<open>Copies in memory\<close>

lemma disk_part_push:
  assumes "disk_part bs n c" "finite (dom (tc_entries c))" "p \<noteq> PPersistent"
    "\<And>e d v. tc_entries c (oid_to_hex oid) = Some e \<Longrightarrow> p = PAccelerator d \<Longrightarrow> db_handle d = Cpu v \<Longrightarrow> payload_of bs e v"
  shows "disk_part bs n (push_placement oid p c)"
proof (cases "tc_entries c (oid_to_hex oid)")
  case (Some e)
  let ?e = "e\<lparr>en_placements := en_placements e @ [p]\<rparr>"
  have fine: "entry_fine bs (oid_to_hex oid) e" "copies_fine bs e" using assms(1) Some by (simp_all add: disk_part_def)
  have e': "entry_fine bs (oid_to_hex oid) ?e" "copies_fine bs ?e" "has_tier ?e Persistent = has_tier e Persistent"
    using fine assms(3) assms(4) [OF Some]
    by (auto simp: entry_fine_def copies_fine_def payload_of_def has_tier_def) (cases p; simp)+
  show ?thesis
    by (rule disk_part_entries [OF assms(1,2)])
       (use Some assms(1,2) e' in \<open>auto simp: push_placement_def upd_entry_def disk_part_def split: if_splits\<close>)
qed (use assms(1) in \<open>simp add: push_placement_def upd_entry_def\<close>)

definition same_disk :: "'b cache \<Rightarrow> 'b cache \<Rightarrow> bool" where
  "same_disk c c' \<longleftrightarrow> tc_entries c' = tc_entries c \<and> tc_config c' = tc_config c \<and> tc_persistent c' = tc_persistent c \<and>
     tc_persistent_refs c' = tc_persistent_refs c"

lemma same_disk_part: "same_disk c c' \<Longrightarrow> disk_part bs n c \<Longrightarrow> disk_part bs n c'"
  by (rule disk_part_frame) (simp_all add: same_disk_def)

lemma on_accounting_disk: "same_disk c u \<Longrightarrow> same_disk c (snd (on_accounting f u))"
  by (cases "on_accounting f u") (auto simp: same_disk_def dest: on_accounting_frame)

lemma acquire_host_disk: "same_disk c (snd (acquire_host n bytes blocks c))"
proof -
  have "same_disk c u \<Longrightarrow> same_disk c (snd (acquire_blocks bytes blocks u))" for u
    by (cases "acquire_blocks bytes blocks u") (auto simp: same_disk_def dest: acquire_blocks_frame)
  moreover have "same_disk c c" by (simp add: same_disk_def)
  ultimately show ?thesis
    unfolding acquire_host_def by (intro st_then_preserves [where P = "same_disk c"]) (auto intro: on_accounting_disk)
qed

lemma add_host_disk:
  assumes "disk_part bs n c" "finite (dom (tc_entries c))"
  shows "disk_part bs n (snd (add_host oid bytes len c))"
proof -
  have acq: "disk_part bs n (snd (st_then (acquire_host k bytes blocks) (\<lambda>acquired c. (Inr (), push_placement oid (PHost acquired) c)) c))"
    for k blocks
  proof (cases "acquire_host k bytes blocks c")
    case (Pair r c1)
    have f: "same_disk c c1" using acquire_host_disk [of c k bytes blocks] Pair by simp
    have c1: "disk_part bs n c1" by (rule same_disk_part [OF f assms(1)])
    have "disk_part bs n (push_placement oid (PHost a) c1)" for a
      by (rule disk_part_push [OF c1]) (use f assms(2) in \<open>simp_all add: same_disk_def\<close>)
    with c1 show ?thesis by (cases r) (simp_all add: st_then_def Pair)
  qed
  then show ?thesis
    by (cases "chunk bytes (rc_block_size (tc_config c))"; cases "validate_block_list (projr (chunk bytes (rc_block_size (tc_config c)))) len")
       (simp_all add: add_host_def Let_def assms(1))
qed

lemma add_accelerator_disk:
  assumes "disk_part bs n c" "finite (dom (tc_entries c))" "tc_entries c (oid_to_hex oid) = Some e" "payload_of bs e bytes"
  shows "disk_part bs n (snd (add_accelerator cpu_ops oid i bytes c))"
proof -
  have put: "disk_part bs n (put_backend cpu_ops i be c)" for be
    by (rule disk_part_frame [OF assms(1)]) (simp_all add: put_backend_def)
  have "disk_part bs n (push_placement oid (PAccelerator dev) ((put_backend cpu_ops i be c)\<lparr>tc_accel_used := used\<rparr>))"
    if "db_handle dev = Cpu bytes" for dev be used
    by (rule disk_part_push [OF disk_part_frame [OF assms(1)]])
       (use assms that in \<open>simp_all add: put_backend_def\<close>)
  moreover have "db_handle dev' = Cpu bytes"
    if "be_allocate cpu_ops k be = (Inr dev, be1)" "be_to_device cpu_ops bytes dev be1 = ((Inr u, dev'), be2)" for k be dev be1 u dev' be2
    using that by (auto simp: cpu_ops_def cpu_allocate_def cpu_to_device_def copy_from_slice_def
        split: option.splits if_splits sum.splits device_handle.splits)
  ultimately show ?thesis
    using put assms(1) by (auto simp: add_accelerator_def Let_def split: sum.splits prod.splits)
qed

subsection \<open>A persistent copy\<close>

lemma wf_oid_hex: "wf_oid i \<Longrightarrow> oid_to_hex j = oid_to_hex i \<Longrightarrow> wf_oid j"
  by (auto simp: wf_oid_def oid_to_hex_def to_hex_def dest: arg_cong [of _ _ length])

lemma entry_fine_wf: "entry_fine bs (oid_to_hex oid) e \<Longrightarrow> wf_oid oid"
  using wf_oid_hex by (auto simp: entry_fine_def)

lemma persistent_tier: "has_tier e Persistent \<longleftrightarrow> PPersistent \<in> set (en_placements e)"
proof -
  have "placement_tier p = Persistent \<longleftrightarrow> p = PPersistent" for p by (cases p) simp_all
  then show ?thesis by (auto simp: has_tier_def list_ex_iff)
qed

lemma meta_of_ok:
  assumes "entry_fine bs (oid_to_hex oid) e"
  shows "written (meta_of oid e (en_numel e) (en_blocks e))"
    "valid_key (en_compat e) \<Longrightarrow> describes (meta_of oid e (en_numel e) (en_blocks e)) e"
proof -
  obtain payload where p: "length payload < 2 ^ 63" "chunk payload bs = Inr (en_blocks e)" "en_byte_len e = of_nat (length payload)"
    using assms by (auto simp: entry_fine_def blocked_def)
  have len: "length payload < 2 ^ 64" using p(1) by simp
  have "block_ok b" if "b \<in> set (en_blocks e)" for b
    using list_all2_set1 [OF chunk_slices [OF p(2) len] that] by (auto simp: block_ok_def)
  then show w: "written (meta_of oid e (en_numel e) (en_blocks e))"
    using assms chunk_length [OF p(2)] rust_str_oid [OF entry_fine_wf [OF assms]]
    by (simp add: written_def meta_of_def rust_address_def entry_fine_def)
  assume "valid_key (en_compat e)"
  then have "body_ok (meta_of oid e (en_numel e) (en_blocks e))" using written_body [OF w] by (simp add: meta_of_def)
  then show "describes (meta_of oid e (en_numel e) (en_blocks e)) e"
    using assms p(3) chunk_valid [OF p(2) len]
    by (cases "en_address e") (simp add: describes_def meta_ok_def meta_of_def address_new_def entry_fine_def)
qed

text \<open>While the blocks of \<open>e\<close> are stored and its manifest is written.\<close>

definition storing :: "u64 \<Rightarrow> nat \<Rightarrow> 'b cache \<Rightarrow> entry \<Rightarrow> 'b cache \<Rightarrow> bool" where
  "storing bs n c e u \<longleftrightarrow> tc_entries u = tc_entries c \<and> tc_config u = tc_config c \<and>
     counts n (digests (en_blocks e) + refs_by disk_refs (tc_entries c)) u \<and>
     (\<forall>st. tc_persistent u = Some st \<longrightarrow> listed bs st) \<and> kept u"

lemma storing_part: "disk_part bs k c \<Longrightarrow> storing bs n c e u \<Longrightarrow> disk_part bs n u"
  unfolding storing_def disk_part_def by (auto intro: counts_mono)

lemma storing_same: "storing bs n c e u \<Longrightarrow> same_disk u v \<Longrightarrow> storing bs n c e v"
  by (simp add: storing_def same_disk_def counts_def ref_count_def kept_def)

lemma listed_write:
  assumes "listed bs st" "write_manifest m st = (r, st')" "wf_oid oid" "pe_object_id m = oid_to_hex oid" "written m"
    "blocked bs (pe_blocks m) (pe_byte_len m)"
  shows "listed bs st'"
  unfolding listed_def
proof (intro allI impI)
  fix name m' assume m': "meta_ok m'" "path_extension name = Some ''manifest''" "st_files st' (ManifestsDir, name) = Some (encode_manifest m')"
  note w = write_manifest_any [OF assms(2-4)]
  show "(\<exists>oid. wf_oid oid \<and> oid_from_hex (pe_object_id m') = Inr oid \<and> name = manifest_name oid) \<and> blocked bs (pe_blocks m') (pe_byte_len m')"
  proof (cases "name = manifest_name oid \<and> r = Inr ()")
    case True
    then have "encode_manifest m' = encode_manifest m" using w(3) m'(3) by simp
    then have "m' = m" by (rule encode_manifest_inject [OF assms(5) m'(1)])
    then show ?thesis using assms(3,4,6) True oid_from_to_hex [OF assms(3)] by auto
  next
    case False
    then have "st_files st (ManifestsDir, name) = Some (encode_manifest m')" using w(2) [OF m'(2)] w(4) m'(3) by (metis option.distinct(1))
    then show ?thesis using assms(1) m'(1,2) by (simp add: listed_def)
  qed
qed

lemma kept_write:
  assumes "kept u" "tc_persistent u = Some st" "write_manifest m st = (r, st')" "wf_oid oid" "pe_object_id m = oid_to_hex oid"
    "tc_entries u (oid_to_hex oid) = Some e" "\<not> has_tier e Persistent"
  shows "kept (u\<lparr>tc_persistent := Some st'\<rparr>)"
  unfolding kept_def
proof (intro allI impI)
  fix oid' e' assume o: "wf_oid oid'" "tc_entries (u\<lparr>tc_persistent := Some st'\<rparr>) (oid_to_hex oid') = Some e'" "has_tier e' Persistent" "valid_key (en_compat e')"
  then have ne: "oid_to_hex oid' \<noteq> oid_to_hex oid" using assms(6,7) by auto
  obtain m' where m': "st_files st (ManifestsDir, manifest_name oid') = Some (encode_manifest m')" "describes m' e'"
    using keptD [OF assms(1) o(1) _ o(3,4) assms(2)] o(2) by auto
  have "st_files st' (ManifestsDir, manifest_name oid') = st_files st (ManifestsDir, manifest_name oid')"
    by (rule write_manifest_any(2) [OF assms(3-5) manifest_name_extension [OF o(1)]]) (use ne in auto)
  with m' show "\<exists>st m. tc_persistent (u\<lparr>tc_persistent := Some st'\<rparr>) = Some st \<and>
      st_files st (ManifestsDir, manifest_name oid') = Some (encode_manifest m) \<and> describes m e'" by auto
qed

lemma storing_write:
  assumes u: "storing bs n c e u" and e: "tc_entries c (oid_to_hex oid) = Some e" "\<not> has_tier e Persistent"
    "entry_fine bs (oid_to_hex oid) e"
    and run: "on_store (write_manifest (meta_of oid e (en_numel e) (en_blocks e))) u = (r, u')"
  shows "storing bs n c e u' \<and> (r = Inr () \<longrightarrow> (\<exists>st. tc_persistent u' = Some st \<and>
    st_files st (ManifestsDir, manifest_name oid) = Some (encode_manifest (meta_of oid e (en_numel e) (en_blocks e)))))"
proof (cases "tc_persistent u")
  case None
  then show ?thesis using run u by (auto simp: on_store_def)
next
  case (Some st)
  let ?m = "meta_of oid e (en_numel e) (en_blocks e)"
  obtain st' where w: "write_manifest ?m st = (r, st')" and u': "u' = u\<lparr>tc_persistent := Some st'\<rparr>"
    using run Some by (auto simp: on_store_def split: prod.splits)
  have oid: "wf_oid oid" by (rule entry_fine_wf [OF e(3)])
  have id: "pe_object_id ?m = oid_to_hex oid" by (simp add: meta_of_def)
  have "counts n (digests (en_blocks e) + refs_by disk_refs (tc_entries c)) u'"
    by (rule counts_cong [where c = u and st = st and st' = st'])
       (use u Some write_manifest_any(1) [OF w oid id] in \<open>simp_all add: storing_def u'\<close>)
  moreover have "listed bs st'"
    by (rule listed_write [OF _ w oid id meta_of_ok(1) [OF e(3)]]) (use u Some e(3) in \<open>simp_all add: storing_def meta_of_def entry_fine_def\<close>)
  moreover have "kept u'"
    unfolding u' by (rule kept_write [OF _ Some w oid id _ e(2)]) (use u e(1) in \<open>simp_all add: storing_def\<close>)
  ultimately show ?thesis using u write_manifest_any(3) [OF w oid id] by (auto simp: storing_def u')
qed

lemma storing_push:
  assumes c: "disk_part bs k c" "finite (dom (tc_entries c))" and u: "storing bs n c e u"
    and e: "tc_entries c (oid_to_hex oid) = Some e" "\<not> has_tier e Persistent"
    and m: "tc_persistent u = Some st" "st_files st (ManifestsDir, manifest_name oid) = Some (encode_manifest (meta_of oid e (en_numel e) (en_blocks e)))"
  shows "disk_part bs n (push_placement oid PPersistent u)"
proof -
  let ?e = "e\<lparr>en_placements := en_placements e @ [PPersistent]\<rparr>" and ?u = "push_placement oid PPersistent u"
  have fine: "entry_fine bs (oid_to_hex oid) e" "copies_fine bs e" using c(1) e(1) by (simp_all add: disk_part_def)
  have u': "?u = u\<lparr>tc_entries := (tc_entries c)(oid_to_hex oid \<mapsto> ?e)\<rparr>"
    using u e(1) by (simp add: push_placement_def upd_entry_def storing_def)
  have t: "has_tier ?e Persistent" by (simp add: persistent_tier)
  have "filter (\<lambda>p. p = PPersistent) (en_placements e) = []" using e(2) by (auto simp: persistent_tier filter_empty_conv)
  then have e': "entry_fine bs (oid_to_hex oid) ?e" "copies_fine bs ?e"
    using fine by (auto simp: entry_fine_def copies_fine_def payload_of_def)
  have "refs_by disk_refs ((tc_entries c)(oid_to_hex oid \<mapsto> ?e)) = digests (en_blocks e) + refs_by disk_refs (tc_entries c)"
    using refs_by_update [OF c(2) e(1), of disk_refs ?e] t e(2) by (simp add: disk_refs_def)
  then have "counts n (refs_by disk_refs (tc_entries ?u)) ?u"
    using u unfolding u' by (simp add: storing_def counts_def ref_count_def)
  moreover have "kept ?u"
    unfolding kept_def
  proof (intro allI impI)
    fix oid' f assume o: "wf_oid oid'" "tc_entries ?u (oid_to_hex oid') = Some f" "has_tier f Persistent" "valid_key (en_compat f)"
    show "\<exists>st m. tc_persistent ?u = Some st \<and> st_files st (ManifestsDir, manifest_name oid') = Some (encode_manifest m) \<and> describes m f"
    proof (cases "oid_to_hex oid' = oid_to_hex oid")
      case True
      then have f: "f = ?e" using o(2) by (simp add: u')
      then have "describes (meta_of oid e (en_numel e) (en_blocks e)) f"
        using meta_of_ok(2) [OF fine(1)] o(4) by (simp add: describes_def)
      then show ?thesis using m True by (auto simp: u')
    next
      case False
      then show ?thesis using u o by (simp add: u' storing_def kept_def)
    qed
  qed
  ultimately show ?thesis
    using c(1) u e' by (auto simp: disk_part_def storing_def u' split: if_splits)
qed

lemma listed_cong:
  "listed bs st \<Longrightarrow> (\<And>name. st_files st' (ManifestsDir, name) = st_files st (ManifestsDir, name)) \<Longrightarrow> listed bs st'"
  by (simp add: listed_def)

lemma kept_cong: "kept c \<Longrightarrow> tc_entries c' = tc_entries c \<Longrightarrow> same_manifests (tc_persistent c) (tc_persistent c') \<Longrightarrow> kept c'"
  unfolding kept_def by (fastforce simp: same_manifests_def option_rel_Some1)

lemma put_blocks_storing:
  assumes c: "disk_part bs n c" and e: "tc_entries c (oid_to_hex oid) = Some e" "payload_of bs e bytes" and n: "n + BMAX \<le> LIMIT"
    and s: "same_disk c c1" and put: "put_blocks bytes (en_blocks e) c1 = (r, c2)"
  shows "if r = Inr () then storing bs (n + BMAX) c e c2 else disk_part bs (n + BMAX) c2"
proof -
  let ?M = "refs_by disk_refs (tc_entries c)"
  have len: "length (en_blocks e) \<le> BMAX" "blocks_of bytes (en_blocks e)"
    using e(2) chunk_length [of bytes bs "en_blocks e"] chunk_blocks_of [of bytes bs "en_blocks e"]
    by (simp_all add: payload_of_def BMAX_eq)
  have f: "tc_entries c2 = tc_entries c" "tc_config c2 = tc_config c" using put_blocks_frame [OF put] s by (simp_all add: same_disk_def)
  have "counts n ?M c1" using c s by (simp add: disk_part_def counts_def ref_count_def same_disk_def)
  from put_counts [OF this _ len(2) put] len(1) n have
    p: "counts (n + length (en_blocks e)) (if r = Inr () then digests (en_blocks e) + ?M else ?M) c2"
      "same_manifests (tc_persistent c) (tc_persistent c2)" using s by (simp_all add: LIMIT_def same_disk_def)
  have cn: "counts (n + BMAX) (if r = Inr () then digests (en_blocks e) + ?M else ?M) c2"
    by (rule counts_mono [OF p(1)]) (simp_all add: len(1))
  have "kept c2" by (rule kept_cong [OF _ f(1) p(2)]) (use c in \<open>simp add: disk_part_def\<close>)
  moreover have "listed bs st" if "tc_persistent c2 = Some st" for st
    using c p(2) that by (auto simp: disk_part_def same_manifests_def option_rel_Some2 intro: listed_cong)
  ultimately show ?thesis using cn c f by (auto simp: storing_def disk_part_def split: if_splits)
qed

lemma st_then_value: "st_then (Pair (Inr x)) f = f x"
  by (rule ext) (simp add: st_then_def)

lemma add_persistent_disk:
  assumes c: "disk_part bs n c" "finite (dom (tc_entries c))" "n + BMAX \<le> LIMIT"
    and e: "tc_entries c (oid_to_hex oid) = Some e" "\<not> has_tier e Persistent" "payload_of bs e bytes"
  shows "disk_part bs (n + BMAX) (snd (add_persistent oid bytes e c))"
proof -
  let ?m = "meta_of oid e (en_numel e) (en_blocks e)" and ?N = "n + BMAX"
  have cN: "disk_part bs ?N c" by (rule disk_part_mono [OF c(1)]) simp
  have fine: "entry_fine bs (oid_to_hex oid) e" using c(1) e(1) by (simp add: disk_part_def)
  have ch: "chunk bytes (rc_block_size (tc_config c)) = Inr (en_blocks e)" using c(1) e(3) by (simp add: payload_of_def disk_part_def)
  have num: "numel (ck_shape (en_compat e)) = Inr (en_numel e)" using fine by (simp add: entry_fine_def)
  have manifest: "disk_part bs ?N (snd (st_then (on_store (write_manifest ?m)) (\<lambda>_ c. (Inr (), push_placement oid PPersistent c)) u))"
    if u: "storing bs ?N c e u" for u
  proof (cases "on_store (write_manifest ?m) u")
    case (Pair r u')
    note w = storing_write [OF u e(1,2) fine Pair]
    show ?thesis
    proof (cases r)
      case (Inr x)
      then obtain st where "tc_persistent u' = Some st" "st_files st (ManifestsDir, manifest_name oid) = Some (encode_manifest ?m)" using w by auto
      then show ?thesis using storing_push [OF c(1,2) _ e(1,2)] w Inr by (simp add: st_then_def Pair)
    qed (use w storing_part [OF c(1)] in \<open>auto simp: st_then_def Pair\<close>)
  qed
  have commit: "disk_part bs ?N (snd (st_then (on_accounting f) (\<lambda>_.
      st_then (on_store (write_manifest ?m)) (\<lambda>_ c. (Inr (), push_placement oid PPersistent c))) u))"
    if u: "storing bs ?N c e u" for f u
  proof (cases "on_accounting f u")
    case (Pair r u')
    have u': "storing bs ?N c e u'" using storing_same [OF u on_accounting_disk [of u u f]] Pair by (simp add: same_disk_def)
    show ?thesis using manifest [OF u'] storing_part [OF c(1) u'] by (cases r) (simp_all add: st_then_def [of "on_accounting f"] Pair)
  qed
  have put: "disk_part bs ?N (snd (st_then (put_blocks bytes (en_blocks e)) (\<lambda>_. st_then (on_accounting f) (\<lambda>_.
      st_then (on_store (write_manifest ?m)) (\<lambda>_ c. (Inr (), push_placement oid PPersistent c)))) u))"
    if u: "same_disk c u" for f u
  proof (cases "put_blocks bytes (en_blocks e) u")
    case (Pair r u')
    note p = put_blocks_storing [OF c(1) e(1,3) c(3) u Pair]
    show ?thesis
      using p commit by (cases r) (simp_all add: st_then_def [of "put_blocks bytes (en_blocks e)"] Pair)
  qed
  have reserve: "disk_part bs ?N (snd (st_then (on_accounting g) (\<lambda>_. st_then (put_blocks bytes (en_blocks e)) (\<lambda>_. st_then (on_accounting f) (\<lambda>_.
      st_then (on_store (write_manifest ?m)) (\<lambda>_ c. (Inr (), push_placement oid PPersistent c))))) c))" for f g
  proof (cases "on_accounting g c")
    case (Pair r u)
    have u: "same_disk c u" using on_accounting_disk [of c c g] Pair by (simp add: same_disk_def)
    show ?thesis using put [OF u] same_disk_part [OF u cN] by (cases r) (simp_all add: st_then_def [of "on_accounting g"] Pair)
  qed
  show ?thesis
    using reserve cN by (cases "validate_block_list (en_blocks e) (en_byte_len e)")
      (simp_all add: add_persistent_def ch num Let_def meta_of_def st_then_value)
qed

lemma add_placement_disk:
  assumes "disk_inv bs n c" "n + BMAX \<le> LIMIT" "tc_entries c (oid_to_hex oid) = Some e" "\<not> has_tier e t" "payload_of bs e bytes"
  shows "disk_inv bs (n + BMAX) (snd (add_placement cpu_ops oid t bytes c))"
proof -
  have c: "disk_part bs n c" "finite (dom (tc_entries c))" using assms(1) by (simp_all add: disk_inv_def refs_ok_def)
  have cN: "disk_part bs (n + BMAX) c" by (rule disk_part_mono [OF c(1)]) simp
  have "disk_part bs (n + BMAX) (snd (add_placement cpu_ops oid t bytes c))"
    using assms(3-5) cN add_host_disk [OF cN c(2)] add_accelerator_disk [OF cN c(2) assms(3,5)] add_persistent_disk [OF c assms(2,3)]
    by (cases t) (simp_all add: add_placement_def get_meta_def)
  moreover have "refs_ok (n + BMAX) (snd (add_placement cpu_ops oid t bytes c))"
    by (rule refs.add) (use assms(1,2) in \<open>simp_all add: disk_inv_def\<close>)
  ultimately show ?thesis by (simp add: disk_inv_def)
qed

subsection \<open>Removal\<close>

lemma remove_at_split: "i < length xs \<Longrightarrow> \<exists>ys zs. xs = ys @ xs ! i # zs \<and> remove_at i xs = ys @ zs"
  using id_take_nth_drop [of i xs] by (auto simp: remove_at_def)

lemma dropped_fine:
  assumes "entry_fine bs key e" "copies_fine bs e" "i < length (en_placements e)"
  defines "e' \<equiv> e\<lparr>en_placements := remove_at i (en_placements e)\<rparr>"
  shows "entry_fine bs key e'" "copies_fine bs e'" "has_tier e' Persistent \<Longrightarrow> has_tier e Persistent"
    "en_placements e ! i = PPersistent \<Longrightarrow> \<not> has_tier e' Persistent"
proof -
  obtain ys zs where s: "en_placements e = ys @ (en_placements e ! i) # zs" "remove_at i (en_placements e) = ys @ zs"
    using remove_at_split [OF assms(3)] by blast
  have "set (en_placements e) = insert (en_placements e ! i) (set ys \<union> set zs)" by (subst s(1)) auto
  then have set: "set (remove_at i (en_placements e)) \<subseteq> set (en_placements e)" unfolding s(2) by auto
  have len: "length (filter (\<lambda>p. p = PPersistent) (en_placements e)) =
      (if en_placements e ! i = PPersistent then 1 else 0) + length (filter (\<lambda>p. p = PPersistent) (remove_at i (en_placements e)))"
    unfolding s(2) by (subst s(1)) auto
  show "entry_fine bs key e'" using assms(1) by (simp add: e'_def entry_fine_def)
  show "copies_fine bs e'"
    using assms(2) set len by (auto simp: e'_def copies_fine_def payload_of_def split: if_splits)
  show "has_tier e' Persistent \<Longrightarrow> has_tier e Persistent" using set by (auto simp: e'_def persistent_tier)
  show "\<not> has_tier e' Persistent" if "en_placements e ! i = PPersistent"
  proof -
    have "filter (\<lambda>p. p = PPersistent) (remove_at i (en_placements e)) = []"
      using len assms(2) that by (simp add: copies_fine_def)
    then show ?thesis by (auto simp: e'_def persistent_tier filter_empty_conv)
  qed
qed

lemma release_blocks_disk: "same_disk c (snd (release_blocks bs c))"
proof (induction bs arbitrary: c)
  case (Cons b bs)
  have trans: "same_disk x y \<Longrightarrow> same_disk y z \<Longrightarrow> same_disk x z" for x y z :: "'a cache" by (simp add: same_disk_def)
  obtain freed a where r: "release (br_content_hash b) (tc_host c) = (freed, a)" by fastforce
  have c1: "same_disk c (c\<lparr>tc_host := a\<rparr>)" by (simp add: same_disk_def)
  have "same_disk c (snd (st_then (on_accounting f) (\<lambda>_. release_blocks bs) (c\<lparr>tc_host := a\<rparr>)))" for f
    by (rule st_then_preserves [where P = "same_disk c"]) (use Cons.IH c1 in \<open>auto intro: trans on_accounting_disk\<close>)
  with Cons.IH [of "c\<lparr>tc_host := a\<rparr>"] c1 show ?case by (auto simp: Let_def r intro: trans)
qed (simp add: same_disk_def)

lemma unlist_disk:
  assumes "disk_part bs n c" "\<And>e. tc_entries c (oid_to_hex oid) = Some e \<Longrightarrow> \<not> has_tier e Persistent"
  shows "disk_part bs n (remove_manifest_of oid c)"
proof (cases "wf_oid oid \<and> tc_persistent c \<noteq> None")
  case False
  then have "map_option (\<lambda>st. snd (remove_manifest (oid_to_hex oid) st)) (tc_persistent c) = tc_persistent c"
    by (cases "tc_persistent c")
       (auto simp: remove_manifest_def manifest_path_def hex_path_valid_def wf_oid_def oid_to_hex_def to_hex_def)
  then have "remove_manifest_of oid c = c" by (simp add: remove_manifest_of_def)
  then show ?thesis using assms(1) by simp
next
  case True
  then obtain st where st: "tc_persistent c = Some st" and oid: "wf_oid oid" by auto
  let ?st = "snd (remove_manifest (oid_to_hex oid) st)"
  note rm = remove_manifest_any [OF oid, where st = st]
  have c': "remove_manifest_of oid c = c\<lparr>tc_persistent := Some ?st\<rparr>" by (simp add: remove_manifest_of_def st)
  have "counts n (refs_by disk_refs (tc_entries c)) (remove_manifest_of oid c)"
    by (rule counts_cong [where c = c and st = st and st' = ?st]) (use assms(1) st rm(1) c' in \<open>simp_all add: disk_part_def\<close>)
  moreover have "listed bs ?st" using assms(1) st rm(3) by (auto simp: disk_part_def listed_def)
  moreover have "kept (remove_manifest_of oid c)"
    unfolding kept_def c'
  proof (intro allI impI)
    fix oid' e assume o: "wf_oid oid'" "tc_entries (c\<lparr>tc_persistent := Some ?st\<rparr>) (oid_to_hex oid') = Some e" "has_tier e Persistent"
      "valid_key (en_compat e)"
    then have "manifest_name oid' \<noteq> manifest_name oid" using assms(2) by auto
    note same = rm(2) [OF this]
    obtain m where "st_files st (ManifestsDir, manifest_name oid') = Some (encode_manifest m)" "describes m e"
      using keptD [of c oid' e st] assms(1) o st by (auto simp: disk_part_def)
    with same show "\<exists>st m. tc_persistent (c\<lparr>tc_persistent := Some ?st\<rparr>) = Some st \<and>
        st_files st (ManifestsDir, manifest_name oid') = Some (encode_manifest m) \<and> describes m e" by auto
  qed
  ultimately show ?thesis using assms(1) by (auto simp: disk_part_def c')
qed

lemma remove_placement_disk:
  assumes "disk_inv bs n c"
  shows "disk_inv bs n (snd (remove_placement cpu_ops oid t c))"
proof (cases "remove_placement cpu_ops oid t c")
  case (Pair r c')
  have c: "disk_part bs n c" and fin: "finite (dom (tc_entries c))" using assms by (simp_all add: disk_inv_def refs_ok_def)
  have refs: "refs_ok n c'" using refs.remove [of n c cpu_ops oid t] assms Pair by (simp add: disk_inv_def)
  from Pair have "disk_part bs n c'"
  proof (cases rule: remove_placement_cases)
    case (freed e i)
    let ?e = "e\<lparr>en_placements := remove_at i (en_placements e)\<rparr>" and ?d = "drop_placement oid i c"
    note f = dropped_fine [OF _ _ freed(2), of bs "oid_to_hex oid"]
    have fine: "entry_fine bs (oid_to_hex oid) e" "copies_fine bs e" using c freed(1) by (simp_all add: disk_part_def)
    have d: "?d = c\<lparr>tc_entries := (tc_entries c)(oid_to_hex oid \<mapsto> ?e)\<rparr>" using freed(1) by (simp add: upd_entry_def)
    have dp: "disk_part bs n ?d"
      by (rule disk_part_entries [OF c fin])
         (use c fin freed(1) f [OF fine] in \<open>auto simp: d disk_part_def split: if_splits\<close>)
    show ?thesis
    proof (cases "en_placements e ! i")
      case (PHost refs)
      then show ?thesis using freed(4) same_disk_part [OF release_blocks_disk dp, of refs] by simp
    next
      case (PAccelerator dev)
      then have "same_disk ?d c'"
        using freed(4) by (auto simp: same_disk_def put_backend_def Let_def split: sum.splits prod.splits)
      then show ?thesis by (rule same_disk_part [OF _ dp])
    next
      case PPersistent
      have no: "\<not> has_tier ?e Persistent" by (rule f(4) [OF fine PPersistent])
      have "has_tier e Persistent" using PPersistent freed(2) by (metis nth_mem persistent_tier)
      then have "digests (en_blocks e) + refs_by disk_refs (tc_entries ?d) = refs_by disk_refs (tc_entries c)"
        using refs_by_update [OF fin freed(1), of disk_refs ?e] no by (simp add: disk_refs_def d add.commute)
      then have "counts n (digests (en_blocks e) + refs_by disk_refs (tc_entries ?d)) ?d"
        using c by (simp add: disk_part_def counts_def ref_count_def)
      note rel = release_counts [OF this]
      let ?u = "release_persistent (en_blocks e) ?d"
      have "kept ?u" by (rule kept_cong [of ?d]) (use dp rel in \<open>simp_all add: disk_part_def\<close>)
      moreover have "listed bs st" if "tc_persistent ?u = Some st" for st
        using dp rel that by (auto simp: disk_part_def same_manifests_def option_rel_Some2 intro: listed_cong)
      ultimately have "disk_part bs n ?u" using dp rel by (simp add: disk_part_def)
      then have "disk_part bs n (remove_manifest_of oid ?u)" by (rule unlist_disk) (use no in \<open>simp add: d\<close>)
      then show ?thesis using freed(4) PPersistent by simp
    qed
  qed (use c in simp)
  with refs Pair show ?thesis by (simp add: disk_inv_def)
qed

subsection \<open>Objects come and go\<close>

text \<open>Registrations with values that a Rust program can have: strings are valid and lengths are those of an allocation.  The
  layout of the key need not fit its shape, which \<open>register\<close> does not check.\<close>

definition storable :: "string \<Rightarrow> string \<Rightarrow> compat_key \<Rightarrow> u8 list \<Rightarrow> bool" where
  "storable namespace key k payload \<longleftrightarrow> rust_key k \<and> fits (compat_encode k) \<and> rust_str namespace \<and> rust_str key \<and>
     length payload < 2 ^ 63"

lemma touch_disk:
  assumes "disk_inv bs n c" "\<And>e. entry_core (f e) = entry_core e"
  shows "disk_inv bs n (upd_entry oid f c)"
proof -
  have c: "disk_part bs n c" "finite (dom (tc_entries c))" using assms(1) by (simp_all add: disk_inv_def refs_ok_def)
  have same: "entry_fine b key (f e) = entry_fine b key e" "copies_fine b (f e) = copies_fine b e"
    "has_tier (f e) Persistent = has_tier e Persistent" "en_address (f e) = en_address e" "en_compat (f e) = en_compat e"
    "en_byte_len (f e) = en_byte_len e" "en_blocks (f e) = en_blocks e" for b key e
    using assms(2) [of e] by (simp_all add: entry_core_def entry_fine_def copies_fine_def payload_of_def has_tier_def)
  have "disk_part bs n (upd_entry oid f c)"
    by (rule disk_part_entries [OF c])
       (use c in \<open>auto simp: upd_entry_def same disk_part_def split: option.splits if_splits\<close>)
  moreover have "refs_ok n (upd_entry oid f c)" by (rule refs.touch) (use assms in \<open>simp_all add: disk_inv_def\<close>)
  ultimately show ?thesis by (simp add: disk_inv_def)
qed

lemma admit_disk:
  assumes c: "disk_inv bs n c" "n + BMAX \<le> LIMIT" and oid: "oid = object_id (address_new namespace key generation)"
    "tc_entries c (oid_to_hex oid) = None" and ch: "chunk payload (rc_block_size (tc_config c)) = Inr blocks" "length blocks \<le> BMAX"
    and k: "storable namespace key k payload" "validate_block_list blocks byte_len = Inr ()"
      "shape_byte_len (ck_shape k) (byte_size (ck_dtype k)) = Inr byte_len" "byte_len = of_nat (length payload)"
      "numel (ck_shape k) = Inr num" and fit: "new_host \<le> host_free c" and run: "acquire_host new_host payload blocks c = (r, c')"
  shows "disk_inv bs (n + BMAX) c' \<and> (\<forall>acquired e time. r = Inr acquired \<longrightarrow>
    fresh_entry (address_new namespace key generation) k num blocks byte_len acquired e \<longrightarrow>
    disk_inv bs (n + BMAX) (insert_entry oid e (c'\<lparr>tc_ticks := time\<rparr>)))"
proof -
  have same: "same_disk c c'" using acquire_host_disk [of c new_host payload blocks] run by simp
  have cN: "disk_part bs (n + BMAX) c" using c(1) by (auto simp: disk_inv_def intro: disk_part_mono)
  have c': "disk_part bs (n + BMAX) c'" by (rule same_disk_part [OF same cN])
  have "rust_key k" using k(1) by (simp add: storable_def)
  note refs = refs.admit [OF _ c(2) ch(2) this k(2,3,5) fit run, where address = "address_new namespace key generation"]
  have "disk_part bs (n + BMAX) (insert_entry oid e (c'\<lparr>tc_ticks := time\<rparr>))"
    if e: "fresh_entry (address_new namespace key generation) k num blocks byte_len acquired e" for acquired e time
  proof (rule disk_part_entries [OF c'])
    show "finite (dom (tc_entries c'))" "finite (dom (tc_entries (insert_entry oid e (c'\<lparr>tc_ticks := time\<rparr>))))"
      using c(1) same by (simp_all add: disk_inv_def refs_ok_def same_disk_def insert_entry_def)
    have "wf_oid oid" "rust_address (address_new namespace key generation)"
      using k(1) by (simp_all add: oid(1) storable_def rust_address_def address_new_def)
    moreover have "blocked bs blocks byte_len"
      using ch(1) k(1,4) c(1) by (auto simp: blocked_def storable_def disk_inv_def disk_part_def)
    ultimately have fine: "entry_fine bs (oid_to_hex oid) e"
      using e k(1,3,5) unfolding entry_fine_def fresh_entry_def storable_def by (intro conjI exI [of _ oid]) simp_all
    fix key' e' assume "tc_entries (insert_entry oid e (c'\<lparr>tc_ticks := time\<rparr>)) key' = Some e'"
    then consider "key' = oid_to_hex oid" "e' = e" | "tc_entries c' key' = Some e'"
      by (cases "key' = oid_to_hex oid") (simp_all add: insert_entry_def)
    then show "entry_fine bs key' e' \<and> copies_fine bs e' \<and> (has_tier e' Persistent \<longrightarrow>
        (\<exists>e. tc_entries c' key' = Some e \<and> has_tier e Persistent \<and> en_blocks e' = en_blocks e \<and> en_byte_len e' = en_byte_len e \<and>
          en_compat e' = en_compat e \<and> en_address e' = en_address e))"
    proof cases
      case 1
      then show ?thesis using fine e by (simp add: fresh_entry_def copies_fine_def persistent_tier)
    next
      case 2
      then show ?thesis using c' by (auto simp: disk_part_def)
    qed
  qed (simp_all add: insert_entry_def)
  with refs c' c(1) show ?thesis by (simp add: disk_inv_def)
qed

lemma found_entry:
  assumes part: "disk_part bs n c" and fin: "finite (dom (tc_entries c))"
    and cnt: "counts k (digests (pe_blocks m) + refs_by disk_refs (tc_entries c)) (count_blocks (pe_blocks m) c)"
    and m: "meta_ok m" and st: "tc_persistent c = Some st" "st_files st (ManifestsDir, manifest_name oid) = Some (encode_manifest m)"
    and oid: "wf_oid oid" "oid_from_hex (pe_object_id m) = Inr oid" and bl: "blocked bs (pe_blocks m) (pe_byte_len m)"
      "blocks_exist st (pe_blocks m)"
  shows "disk_part bs k (snd (recover_meta m (rep, c)))"
proof -
  let ?u = "snd (recover_meta m (rep, c))" and ?key = "oid_to_hex oid"
  have frame: "tc_entries (count_blocks bs c) = tc_entries c" "tc_config (count_blocks bs c) = tc_config c"
    "tc_persistent (count_blocks bs c) = tc_persistent c" for bs and c :: "'a cache"
    by (induction bs arbitrary: c) (auto split: option.splits)
  obtain e where u: "?u = insert_entry oid e ((count_blocks (pe_blocks m) c)\<lparr>tc_ticks := tc_ticks (count_blocks (pe_blocks m) c) + 1\<rparr>)"
    and e: "en_address e = address_new (pe_namespace m) (pe_key m) (pe_generation m)" "en_compat e = pe_compat m"
      "en_byte_len e = pe_byte_len m" "en_numel e = pe_numel m" "en_blocks e = pe_blocks m" "en_placements e = [PPersistent]"
    using st(1) oid(2) bl(2) by (simp add: recover_meta_def Let_def)
  have ents: "tc_entries ?u = (tc_entries c)(?key \<mapsto> e)" by (simp add: u insert_entry_def frame)
  have pers: "tc_persistent ?u = Some st" by (simp add: recover_meta_persistent st(1))
  have "rust_address (en_address e)" using m by (simp add: e(1) rust_address_def address_new_def meta_ok_def body_ok_def)
  then have fine: "entry_fine bs ?key e" using m bl(1) oid(1) by (auto simp: entry_fine_def e(2-5) meta_ok_def body_ok_def valid_key_def)
  have copies: "copies_fine bs e" by (simp add: copies_fine_def e(6))
  have "refs_by disk_refs (tc_entries ?u) = digests (pe_blocks m) + refs_by disk_refs ((tc_entries c)(?key := None))"
    using refs_by_None [of "(tc_entries c)(?key := None)" ?key disk_refs e] fin by (simp add: ents disk_refs_def persistent_tier e(5,6))
  then have "refs_by disk_refs (tc_entries ?u) \<subseteq># digests (pe_blocks m) + refs_by disk_refs (tc_entries c)"
    using refs_by_delete [OF fin, of disk_refs ?key] by simp
  then have "counts k (refs_by disk_refs (tc_entries ?u)) (count_blocks (pe_blocks m) c)" by (rule counts_mono [OF cnt order_refl])
  then have "counts k (refs_by disk_refs (tc_entries ?u)) ?u" by (simp add: u insert_entry_def counts_def ref_count_def)
  moreover have "kept ?u"
    unfolding kept_def
  proof (intro allI impI)
    fix oid' f assume o: "wf_oid oid'" "tc_entries ?u (oid_to_hex oid') = Some f" "has_tier f Persistent" "valid_key (en_compat f)"
    have "\<exists>m. st_files st (ManifestsDir, manifest_name oid') = Some (encode_manifest m) \<and> describes m f"
    proof (cases "oid_to_hex oid' = ?key")
      case True
      then have "f = e" using o(2) by (simp add: ents)
      then have "describes m f" using m by (simp add: describes_def e)
      then show ?thesis using st(2) True by auto
    next
      case False
      then show ?thesis using keptD [of c oid' f st] part o st(1) by (simp add: disk_part_def ents)
    qed
    with pers show "\<exists>st m. tc_persistent ?u = Some st \<and> st_files st (ManifestsDir, manifest_name oid') = Some (encode_manifest m) \<and> describes m f"
      by blast
  qed
  moreover have "tc_config ?u = tc_config c" by (simp add: u insert_entry_def frame)
  ultimately show ?thesis using part fine copies st(1) pers by (auto simp: disk_part_def ents split: if_splits)
qed

lemma found_disk:
  assumes c: "disk_inv bs n c" "n + BMAX \<le> LIMIT" and m: "meta_ok m" and st: "tc_persistent c = Some st"
    "path_extension name = Some ''manifest''" "st_files st (ManifestsDir, name) = Some (encode_manifest m)"
  shows "disk_inv bs (n + BMAX) (snd (recover_meta m (rep, c)))"
proof -
  have part: "disk_part bs n c" and fin: "finite (dom (tc_entries c))" using c(1) by (simp_all add: disk_inv_def refs_ok_def)
  have cN: "disk_part bs (n + BMAX) c" by (rule disk_part_mono [OF part]) simp
  obtain oid where oid: "wf_oid oid" "oid_from_hex (pe_object_id m) = Inr oid" "name = manifest_name oid"
    and bl: "blocked bs (pe_blocks m) (pe_byte_len m)"
    using part m st unfolding disk_part_def listed_def by blast
  have "refs_ok n (snd (recover_meta m (rep, c)))" by (rule refs.recovered) (use c(1) m in \<open>simp_all add: disk_inv_def\<close>)
  then have refs: "refs_ok (n + BMAX) (snd (recover_meta m (rep, c)))" by (rule refs_ok_mono) simp
  have "disk_part bs (n + BMAX) (snd (recover_meta m (rep, c)))"
  proof (cases "blocks_exist st (pe_blocks m)")
    case False
    then show ?thesis using cN st(1) oid(2) by (simp add: recover_meta_def)
  next
    case True
    have tidy: "blocks_tidy st" using part st(1) by (simp add: disk_part_def counts_def)
    have "file_ok st (br_content_hash b)" if "b \<in> set (pe_blocks m)" for b
    proof -
      have "block_exists (br_content_hash b) st" using True that by (simp add: blocks_exist_def list_all_iff)
      then obtain data where "block_file st (br_content_hash b) = Some data" "hex_path_valid (to_hex (br_content_hash b))"
        by (auto simp: block_exists_def block_path_def fs_exists_def split: if_splits)
      moreover from this(2) have "length (digest_bytes (br_content_hash b)) = 32" by (simp add: hex_path_valid_def to_hex_def)
      ultimately show ?thesis using tidy by (auto simp: file_ok_def blocks_tidy_def)
    qed
    moreover have len: "length (pe_blocks m) \<le> BMAX" using m by (simp add: meta_ok_def body_ok_def BMAX_eq)
    ultimately have "counts (n + length (pe_blocks m)) (digests (pe_blocks m) + refs_by disk_refs (tc_entries c)) (count_blocks (pe_blocks m) c)"
      by (intro count_counts) (use part st(1) c(2) in \<open>auto simp: disk_part_def LIMIT_def\<close>)
    then have cnt: "counts (n + BMAX) (digests (pe_blocks m) + refs_by disk_refs (tc_entries c)) (count_blocks (pe_blocks m) c)"
      by (rule counts_mono) (simp_all add: len)
    show ?thesis by (rule found_entry [OF part fin cnt m st(1) _ oid(1,2) bl True]) (use st(3) oid(3) in simp)
  qed
  with refs show ?thesis by (simp add: disk_inv_def)
qed

interpretation disk: cache_steps cpu_ops "disk_inv bs" "payload_of bs" storable for bs
proof
  show "disk_inv bs m c" if "disk_inv bs n c" "n \<le> m" for n m c
    using that by (auto simp: disk_inv_def intro: refs_ok_mono disk_part_mono)
  show "disk_inv bs n (c\<lparr>tc_ticks := time\<rparr>)" if "disk_inv bs n c" for n c time
    using that refs.tick [of n c time] by (auto simp: disk_inv_def intro: disk_part_frame)
  show "disk_inv bs n (c\<lparr>tc_persistent := Some st'\<rparr>)" if "disk_inv bs n c" "tc_persistent c = Some st" "st_files st' = st_files st" for n c st st'
    using that refs.disk [of n c "Some st'"] by (auto simp: disk_inv_def intro: disk_part_reread)
  show "payload_of bs e bytes" if "disk_inv bs n c" "tc_entries c (oid_to_hex oid) = Some e" "materialize_payload cpu_ops oid c = (Inr bytes, c')"
    for n c oid e bytes c'
    by (rule reads_fine [OF _ that(2) _ _ that(3)]) (use that(1,2) in \<open>auto simp: disk_inv_def disk_part_def refs_ok_def\<close>)
  show "disk_inv bs n (c\<lparr>tc_entries := (tc_entries c)(key := None), tc_object_count := cnt\<rparr>)" if "disk_inv bs n c" for n c key cnt
  proof -
    have "disk_part bs n (c\<lparr>tc_entries := (tc_entries c)(key := None), tc_object_count := cnt\<rparr>)"
      by (rule disk_part_entries [of bs n c]) (use that in \<open>auto simp: disk_inv_def refs_ok_def disk_part_def split: if_splits\<close>)
    then show ?thesis using that refs.forget [where n = n and c = c and key = key and cnt = cnt] by (simp add: disk_inv_def)
  qed
  show "disk_inv bs n (remove_manifest_of oid c)" if "disk_inv bs n c" "tc_entries c (oid_to_hex oid) = None" for n c oid
    using that refs.disk [of n c "map_option (\<lambda>st. snd (remove_manifest (oid_to_hex oid) st)) (tc_persistent c)"] unlist_disk [of bs n c oid]
    by (simp add: disk_inv_def remove_manifest_of_def)
qed (fact touch_disk add_placement_disk remove_placement_disk admit_disk found_disk)+

section \<open>Histories\<close>

text \<open>A directory as this program leaves it.\<close>

definition sound_dir :: "u64 \<Rightarrow> store \<Rightarrow> bool" where
  "sound_dir bs st \<longleftrightarrow> blocks_tidy st \<and> listed bs st"

lemma sound_dir_le: "sound_dir bs st \<Longrightarrow> st_files st' \<subseteq>\<^sub>m st_files st \<Longrightarrow> sound_dir bs st'"
proof -
  assume s: "sound_dir bs st" and le: "st_files st' \<subseteq>\<^sub>m st_files st"
  have "st_files st p = Some x" if "st_files st' p = Some x" for p x using le that by (metis domI map_le_def)
  with s show ?thesis unfolding sound_dir_def blocks_tidy_def listed_def by blast
qed

lemma sound_dir_empty: "st_files dir = Map.empty \<Longrightarrow> sound_dir bs dir"
  by (simp add: sound_dir_def blocks_tidy_def listed_def)

fun storable_cmd :: "cmd \<Rightarrow> bool" where
  "storable_cmd (CRegister namespace key _ k payload) \<longleftrightarrow> storable namespace key k payload"
| "storable_cmd _ \<longleftrightarrow> True"

text \<open>The life of a directory: a process opens it while it is empty, runs commands, and at any time, also in the middle of a
  command whose further file operations then fail, another process may open it as it was left.  All processes cut
  payloads into blocks of one size and have CPU backends; any file operation may fail.\<close>

inductive disk_history :: "u64 \<Rightarrow> nat \<Rightarrow> cpu_backend cache \<Rightarrow> bool" for bs where
  opened: "with_backends cpu_ops cpu_new cfg extra dir blocks manifests names clock iter = Inr c \<Longrightarrow> rc_block_size cfg = bs \<Longrightarrow>
    st_files dir = Map.empty \<Longrightarrow> disk_history bs (length names) c"
| command: "disk_history bs n c \<Longrightarrow> storable_cmd cmd \<Longrightarrow> disk_history bs (n + cost cmd) (exec cpu_ops cmd c)"
| reopened: "disk_history bs n c \<Longrightarrow> tc_persistent c = Some st \<Longrightarrow> st_files dir = st_files st \<Longrightarrow>
    with_backends cpu_ops cpu_new cfg extra dir blocks manifests names clock iter = Inr d \<Longrightarrow> rc_block_size cfg = bs \<Longrightarrow>
    disk_history bs (n + length names) d"

lemma opened_disk_inv:
  assumes "with_backends cpu_ops cpu_new cfg extra dir blocks manifests names clock iter = Inr c" "rc_block_size cfg = bs" "sound_dir bs dir"
    "length names * BMAX \<le> LIMIT"
  shows "disk_inv bs (length names * BMAX) c"
proof -
  obtain p where c: "c = snd (recover names (blank cpu_ops cpu_new cfg extra clock iter p))"
    and p: "p = (if rc_persistent_path cfg = None then None else Some (snd (store_open blocks manifests dir)))"
    using with_backends_cases [OF assms(1)] by blast
  have "sound_dir bs st" if "p = Some st" for st
    using sound_dir_le [OF assms(3)] store_open_files(1) [of blocks manifests dir] p that by (metis option.inject option.distinct(1) prod.collapse)
  then have "disk_part bs 0 (blank cpu_ops cpu_new cfg extra clock iter p)"
    using assms(2) by (auto simp: blank_def disk_part_def counts_def ref_count_def kept_def refs_by_def sound_dir_def)
  moreover have "refs_ok 0 (blank cpu_ops cpu_new cfg extra clock iter p)" by (simp add: blank_def refs_ok_def refs_by_def)
  ultimately have "disk_inv bs 0 (blank cpu_ops cpu_new cfg extra clock iter p)" by (simp add: disk_inv_def)
  from disk.keep_recover_names [OF this, of names] assms(4) c show ?thesis by simp
qed

text \<open>The directory stays sound, so that the next process starts where this one did.\<close>

lemma disk_inv_dir: "disk_inv bs n c \<Longrightarrow> tc_persistent c = Some st \<Longrightarrow> sound_dir bs st"
  by (simp add: disk_inv_def disk_part_def sound_dir_def counts_def)

lemma disk_history_inv: "disk_history bs n c \<Longrightarrow> n * BMAX \<le> LIMIT \<Longrightarrow> disk_inv bs (n * BMAX) c"
proof (induction rule: disk_history.induct)
  case (opened cfg extra dir blocks manifests names clock iter c)
  then show ?case by (intro opened_disk_inv sound_dir_empty)
next
  case (command n c cmd)
  have "disk_inv bs (n * BMAX + cost cmd * BMAX) (exec cpu_ops cmd c)"
    by (rule disk.keep_cmd) (use command in \<open>auto simp: add_mult_distrib split: cmd.split\<close>)
  then show ?case by (simp add: add_mult_distrib)
next
  case (reopened n c st dir cfg extra blocks manifests names clock iter d)
  then have "sound_dir bs st" by (intro disk_inv_dir [of bs "n * BMAX" c]) (simp_all add: add_mult_distrib)
  then have "sound_dir bs dir" by (rule sound_dir_le) (simp add: reopened(3))
  with reopened have "disk_inv bs (length names * BMAX) d" by (intro opened_disk_inv) (simp_all add: add_mult_distrib)
  then show ?case by (rule disk.mono) (simp add: add_mult_distrib)
qed

lemma durable_intact:
  assumes "disk_inv bs n c" "tc_entries c (oid_to_hex oid) = Some e" "has_tier e Persistent"
  shows "tc_persistent c = Some st \<Longrightarrow> b \<in> set (en_blocks e) \<Longrightarrow> file_ok st (br_content_hash b)"
    and "valid_key (en_compat e) \<Longrightarrow> \<exists>st m. tc_persistent c = Some st \<and>
      st_files st (ManifestsDir, manifest_name oid) = Some (encode_manifest m) \<and> describes m e"
proof -
  have part: "disk_part bs n c" and fin: "finite (dom (tc_entries c))" using assms(1) by (simp_all add: disk_inv_def refs_ok_def)
  have oid: "wf_oid oid" using part assms(2) entry_fine_wf unfolding disk_part_def by blast
  show "\<exists>st m. tc_persistent c = Some st \<and> st_files st (ManifestsDir, manifest_name oid) = Some (encode_manifest m) \<and> describes m e"
    if "valid_key (en_compat e)"
    using part oid assms(2,3) that unfolding disk_part_def kept_def by blast
  assume st: "tc_persistent c = Some st" and b: "b \<in> set (en_blocks e)"
  have "br_content_hash b \<in># refs_by disk_refs (tc_entries c)"
    using refs_by_remove [OF fin assms(2), of disk_refs] assms(3) b by (simp add: disk_refs_def)
  from counts_file [OF _ this, of n c] part st show "file_ok st (br_content_hash b)" by (simp add: disk_part_def)
qed

section \<open>After a crash\<close>

text \<open>The contents of the block files.\<close>

definition block_data :: "store \<Rightarrow> u8 list set" where
  "block_data st = {data. \<exists>h. block_file st h = Some data}"

lemma crash_recovers:
  assumes inv: "disk_inv bs n c" and e: "tc_entries c (oid_to_hex oid) = Some e" "has_tier e Persistent" "valid_key (en_compat e)"
    and st: "tc_persistent c = Some st" and payload: "payload_of bs e payload"
    and inj: "inj_on hash (set (pieces (unat bs) payload) \<union> block_data st)"
    and cfg: "rc_block_size cfg \<noteq> 0" "rc_persistent_path cfg \<noteq> None" and name: "manifest_name oid \<in> set names"
  obtains d e' where "with_backends ops cpu cfg extra (st\<lparr>st_faults := [], st_pid := pid\<rparr>) blocks manifests names clock iter = Inr d"
    "materialize_payload ops' oid d = (Inr payload, d)" "tc_entries d (oid_to_hex oid) = Some e'"
    "en_compat e' = en_compat e" "en_address e' = en_address e" "en_byte_len e' = en_byte_len e" "en_durable e'"
proof -
  let ?disk = "st\<lparr>st_faults := [], st_pid := pid\<rparr>"
  obtain sd where o: "store_open blocks manifests ?disk = (Inr (), sd)" and quiet: "st_faults sd = []"
    using store_open_files(3) [of blocks manifests ?disk] by (cases "store_open blocks manifests ?disk") auto
  have same: "same_objects ?disk sd" by (rule store_open_same_objects [OF o])
  from durable_intact(2) [OF inv e] st obtain m where m: "st_files st (ManifestsDir, manifest_name oid) = Some (encode_manifest m)" "describes m e"
    by auto
  have files: "\<forall>b \<in> set (en_blocks e). file_ok st (br_content_hash b)" using durable_intact(1) [OF inv e(1,2) st] by blast
  have oid: "wf_oid oid" using inv e(1) entry_fine_wf unfolding disk_inv_def disk_part_def by blast
  have le: "st_files sd \<subseteq>\<^sub>m st_files st" using same by (simp add: same_objects_def)
  have dir: "listed bs sd" using sound_dir_le [OF disk_inv_dir [OF inv st] le] by (simp add: sound_dir_def)
  have man: "st_files sd (ManifestsDir, manifest_name oid) = Some (encode_manifest m)" using same m(1) oid by (simp add: same_objects_def)
  have bf: "block_file sd h = block_file st h" if "length (digest_bytes h) = 32" for h using same that by (simp add: same_objects_def)
  have m': "meta_ok m" "pe_blocks m = en_blocks e" "pe_byte_len m = en_byte_len e" using m(2) by (simp_all add: describes_def)
  obtain oid' where "wf_oid oid'" "oid_from_hex (pe_object_id m) = Inr oid'" "manifest_name oid = manifest_name oid'"
    using dir m'(1) manifest_name_extension [OF oid] man unfolding listed_def by blast
  then have mo: "oid_from_hex (pe_object_id m) = Inr oid" using oid_to_hex_inj [OF oid] by auto
  have p: "chunk payload bs = Inr (pe_blocks m)" "pe_byte_len m = of_nat (length payload)" "length payload < 2 ^ 63"
    using payload m' by (simp_all add: payload_of_def)
  obtain r d where d: "recover names (blank ops cpu cfg extra clock iter (Some sd)) = (r, d)" by fastforce
  have "materialize_payload ops' oid d = (Inr payload, d) \<and> (\<exists>e'. tc_entries d (oid_to_hex oid) = Some e' \<and> recovered_from m e')"
  proof (rule recovered_materialize [where m = m and st = sd and bs = bs and name = "manifest_name oid" and names = names,
        OF _ quiet p _ m'(1) mo name manifest_name_extension [OF oid] man _ _ d])
    show "\<forall>b \<in> set (pe_blocks m). file_ok sd (br_content_hash b)"
      using files m'(2) bf file_ok_length unfolding file_ok_def by metis
    show "block_file sd (hash q) = Some q" if q: "q \<in> set (pieces (unat bs) payload)" for q
    proof -
      have sl: "list_all2 (\<lambda>b p. block_slice payload b = Inr p \<and> br_content_hash b = hash p) (en_blocks e) (pieces (unat bs) payload)"
        using chunk_slices [OF p(1)] p(3) m'(2) by (auto elim: list_all2_mono)
      obtain b where b: "b \<in> set (en_blocks e)" "br_content_hash b = hash q" using list_all2_set2 [OF sl q] by blast
      then obtain x where x: "block_file st (hash q) = Some x" "hash x = hash q" using files by (auto simp: file_ok_def)
      then have "x \<in> block_data st" by (auto simp: block_data_def)
      then have "x = q" using inj q x(2) by (auto dest: inj_onD)
      then show ?thesis using x(1) bf [of "hash q"] by simp
    qed
    show "m'' = m" if "meta_ok m''" "path_extension name' = Some ''manifest''" "st_files sd (ManifestsDir, name') = Some (encode_manifest m'')"
      "oid_from_hex (pe_object_id m'') = Inr oid" for name' m''
    proof -
      have "name' = manifest_name oid" using dir that unfolding listed_def by fastforce
      then have "encode_manifest m'' = encode_manifest m" using that(3) man by simp
      then show ?thesis using decode_encode_manifest [OF that(1)] decode_encode_manifest [OF m'(1)] by (metis sum.inject(2))
    qed
  qed (simp add: blank_def)
  then obtain e' where e': "materialize_payload ops' oid d = (Inr payload, d)" "tc_entries d (oid_to_hex oid) = Some e'" "recovered_from m e'" by blast
  have "with_backends ops cpu cfg extra ?disk blocks manifests names clock iter = Inr d"
    using with_backends_opens [OF cfg o, of ops cpu extra names clock iter] d by simp
  then show thesis
    by (rule that [OF _ e'(1,2)]) (use e'(3) m(2) in \<open>simp_all add: recovered_from_def describes_def\<close>)
qed

end
