(* ===== verification/Threads.thy ===== *)
theory Threads
  imports Cache_Correct
begin

text \<open>
  The cache of \<^verbatim>\<open>runtime.rs\<close> shared by threads.  A method holds the mutex for one stretch or for several, and between two
  stretches other threads may run.  A method is a program whose actions are these stretches; run without interruption it
  is the method of \<open>Runtime\<close>, and \<open>concurrent\<close> lets any number of such programs interleave.
\<close>

section \<open>Programs of atomic actions\<close>

datatype ('s, 'a) prog = Ret 'a | Act "'s \<Rightarrow> ('s, 'a) prog \<times> 's"

primrec run :: "('s, 'a) prog \<Rightarrow> 's \<Rightarrow> 'a \<times> 's" where
  "run (Ret a) s = (a, s)"
| "run (Act f) s = (let (q, s') = map_prod run id (f s) in q s')"

primrec bind :: "('s, 'a) prog \<Rightarrow> ('a \<Rightarrow> ('s, 'b) prog) \<Rightarrow> ('s, 'b) prog" where
  "bind (Ret a) g = g a"
| "bind (Act f) g = Act (\<lambda>s. map_prod (\<lambda>p. bind p g) id (f s))"

text \<open>One stretch: a computation that fails, or gives what is left to do.\<close>

definition stretch :: "('s \<Rightarrow> ('s, 'a result) prog result \<times> 's) \<Rightarrow> ('s, 'a result) prog" where
  "stretch f = Act (\<lambda>s. map_prod (case_sum (\<lambda>e. Ret (Inl e)) id) id (f s))"

definition atom :: "('s \<Rightarrow> 'a \<times> 's) \<Rightarrow> ('s, 'a) prog" where
  "atom f = Act (\<lambda>s. map_prod Ret id (f s))"

definition pr_then :: "('s, 'a result) prog \<Rightarrow> ('a \<Rightarrow> ('s, 'b result) prog) \<Rightarrow> ('s, 'b result) prog" where
  "pr_then p g = bind p (case_sum (\<lambda>e. Ret (Inl e)) g)"

lemma run_Act [simp]: "f s = (p, s') \<Longrightarrow> run (Act f) s = run p s'"
  by simp

declare run.simps(2) [simp del]

lemma prog_induct [case_names Ret Act]:
  assumes "\<And>a. Q (Ret a)" "\<And>f. (\<And>s p s'. f s = (p, s') \<Longrightarrow> Q p) \<Longrightarrow> Q (Act f)"
  shows "Q p"
proof (induction p)
  case (Act f)
  show ?case
    by (rule assms(2)) (use Act.IH in \<open>metis fsts.intros rangeI fst_conv\<close>)
qed (rule assms(1))

lemma run_bind [simp]: "run (bind p g) s = (let (a, s') = run p s in run (g a) s')"
proof (induction p arbitrary: s rule: prog_induct)
  case (Act f)
  obtain p s' where f: "f s = (p, s')" by fastforce
  from Act.IH [OF this, of s'] show ?case by (simp add: f)
qed simp

lemma run_atom [simp]: "run (atom f) s = f s"
  by (cases "f s") (simp add: atom_def)

lemma run_stretch: "run (stretch f) s = st_then f run s"
  by (cases "f s"; cases "fst (f s)") (auto simp: stretch_def st_then_def)

lemma run_then: "run (pr_then p g) s = st_then (run p) (\<lambda>x. run (g x)) s"
  by (cases "run p s"; cases "fst (run p s)") (auto simp: pr_then_def st_then_def)

lemma st_then_assoc: "st_then (st_then f g) h s = st_then f (\<lambda>x. st_then (g x) h) s"
  by (simp add: st_then_def split: sum.splits prod.splits)

section \<open>The methods\<close>

text \<open>Registration.  When the payload does not fit, the mutex is released for the eviction and taken again; the last
  stretch enforces the capacity.\<close>

definition register_admit ::
  "'b backend_ops \<Rightarrow> address \<Rightarrow> compat_key \<Rightarrow> u8 list \<Rightarrow> u64 \<Rightarrow> u64 \<Rightarrow> block_ref list \<Rightarrow> u64 \<Rightarrow>
    ('b, ('b cache, object_id result) prog) op" where
  "register_admit ops address k payload byte_len n blocks new_host =
     st_then (acquire_host new_host payload blocks) (\<lambda>acquired.
     st_then now_ns (\<lambda>created.
     st_then now_ns (\<lambda>last_use c.
       (Inr (pr_then (atom (enforce_capacity ops)) (\<lambda>_. Ret (Inr (object_id address)))),
        insert_entry (object_id address)
          \<lparr>en_address = address, en_compat = k, en_compat_id = compat_id k, en_byte_len = byte_len,
           en_numel = n, en_blocks = blocks, en_placements = [PHost acquired], en_created_ns = created,
           en_last_use_ns = last_use, en_reuse_count = 0, en_durable = False, en_flags = move_flags_default\<rparr> c))))"

definition register_evicting ::
  "'b backend_ops \<Rightarrow> address \<Rightarrow> compat_key \<Rightarrow> u8 list \<Rightarrow> u64 \<Rightarrow> u64 \<Rightarrow> block_ref list \<Rightarrow> u64 \<Rightarrow> ('b cache, object_id result) prog" where
  "register_evicting ops address k payload byte_len n blocks new_host =
     pr_then (atom (evict_to_free ops new_host)) (\<lambda>_.
     stretch (\<lambda>c.
       if new_host > host_free c then (Inl (AdmissionRejected ''no capacity after eviction''), c)
       else register_admit ops address k payload byte_len n blocks new_host c))"

definition register_check ::
  "'b backend_ops \<Rightarrow> string \<Rightarrow> string \<Rightarrow> u64 \<Rightarrow> compat_key \<Rightarrow> u8 list \<Rightarrow> ('b, ('b cache, object_id result) prog) op" where
  "register_check ops namespace key generation k payload c =
     (let address = address_new namespace key generation; oid = object_id address in
      st_then (Pair (shape_byte_len (ck_shape k) (byte_size (ck_dtype k)))) (\<lambda>byte_len.
      if byte_len \<noteq> of_nat (length payload)
      then Pair (Inl (Geometry (''payload length '' @ show_nat (length payload) @ '' does not match declared byte_len '' @ show_w byte_len)))
      else
      st_then (Pair (numel (ck_shape k))) (\<lambda>n.
      st_then (Pair (chunk payload (rc_block_size (tc_config c)))) (\<lambda>blocks.
      st_then (Pair (validate_block_list blocks byte_len)) (\<lambda>_ c.
      if tc_entries c (oid_to_hex oid) \<noteq> None
      then (Inl (Exists (''object '' @ oid_to_hex oid @ '' already registered'')), c)
      else
        let decision = evaluate_ignoring_capacity (rc_admission (tc_config c))
              (admission_candidate_of (tc_config c) oid k byte_len) (tc_accounting c) in
        if \<not> is_admit decision then (Inl (AdmissionRejected (reason decision)), c)
        else
          let new_host = new_host_bytes blocks c in
          if new_host > host_free c then (Inr (register_evicting ops address k payload byte_len n blocks new_host), c)
          else register_admit ops address k payload byte_len n blocks new_host c)))) c)"

definition register_locked ::
  "'b backend_ops \<Rightarrow> string \<Rightarrow> string \<Rightarrow> u64 \<Rightarrow> compat_key \<Rightarrow> u8 list \<Rightarrow> ('b cache, object_id result) prog" where
  "register_locked ops namespace key generation k payload = stretch (register_check ops namespace key generation k payload)"

text \<open>A lookup decides in its first stretch and updates the use statistics in its second, where the entry may be gone.\<close>

definition lookup_locked :: "string \<Rightarrow> string \<Rightarrow> u64 \<Rightarrow> compat_key \<Rightarrow> ('b cache, lookup_result result) prog" where
  "lookup_locked namespace key generation k = stretch (\<lambda>c.
     (let oid = object_id (address_new namespace key generation) in
      case tc_entries c (oid_to_hex oid) of
        None \<Rightarrow> (Inl (NotFound (''object '' @ oid_to_hex oid)), c)
      | Some e \<Rightarrow>
          if en_compat_id e \<noteq> compat_id k
          then (Inl (Compatibility (''object '' @ oid_to_hex oid @ '' has incompatible compat identity (requested '' @
                  to_hex (compat_id k) @ '', stored '' @ to_hex (en_compat_id e) @ '')'')), c)
          else
            let byte_len = en_byte_len e;
                plan = decide (rc_cost (tc_config c)) byte_len Host (placement_tiers e) False;
                res = \<lparr>lr_hit = True, lr_object_id = oid, lr_generation = generation, lr_source_tier = preferred_tier e,
                  lr_compat_ok = True, lr_bytes = byte_len,
                  lr_reconstruction_avoided_ns =
                    (if pl_action plan \<noteq> AReconstruct then reconstruct_cost_ns (rc_cost (tc_config c)) byte_len else 0),
                  lr_transfer_cost_ns = pl_cost_ns plan, lr_rationale = pl_rationale plan\<rparr>
            in (Inr (atom (\<lambda>c.
                 (Inr res,
                  case tc_entries c (oid_to_hex oid) of
                    None \<Rightarrow> c
                  | Some _ \<Rightarrow>
                      upd_entry oid (\<lambda>e. e\<lparr>en_reuse_count := saturating_add (en_reuse_count e) 1,
                          en_last_use_ns := tc_clock c (tc_ticks c)\<rparr>) (c\<lparr>tc_ticks := tc_ticks c + 1\<rparr>)))), c)))"

definition enforce_then :: "'b backend_ops \<Rightarrow> 'a \<Rightarrow> ('b cache, 'a result) prog" where
  "enforce_then ops x = atom (\<lambda>c. (Inr x, snd (enforce_capacity ops c)))"

definition restore_locked :: "'b backend_ops \<Rightarrow> object_id \<Rightarrow> tier \<Rightarrow> ('b cache, u8 list result) prog" where
  "restore_locked ops oid t = stretch (\<lambda>c.
     st_then (Pair (entry_quarantined c oid)) (\<lambda>q.
     if q then Pair (Inl (Integrity ''object is quarantined''))
     else
     st_then (materialize_payload ops oid) (\<lambda>bytes c.
     st_then (Pair (entry_has_tier c oid t)) (\<lambda>has.
     st_then (if has then Pair (Inr ()) else add_placement ops oid t bytes) (\<lambda>_.
       Pair (Inr (enforce_then ops bytes)))) c)) c)"

definition promote_locked :: "'b backend_ops \<Rightarrow> object_id \<Rightarrow> tier \<Rightarrow> ('b cache, unit result) prog" where
  "promote_locked ops oid t = stretch (\<lambda>c.
     st_then (Pair (entry_has_tier c oid t)) (\<lambda>has.
     if has then Pair (Inr (Ret (Inr ())))
     else
     st_then (Pair (entry_quarantined c oid)) (\<lambda>q.
     if q then Pair (Inl (Integrity ''object is quarantined''))
     else
     st_then (materialize_payload ops oid) (\<lambda>bytes.
     st_then (add_placement ops oid t bytes) (\<lambda>_. Pair (Inr (enforce_then ops ())))))) c)"

text \<open>Recovery reads the manifests without the mutex, one after the other, and then takes it for all of them.\<close>

fun recover_read :: "string list \<Rightarrow> persist_meta list \<Rightarrow> ('b cache, recovery_report result) prog" where
  "recover_read [] ms = atom (\<lambda>c.
     let (rep, c) = fold recover_meta ms (\<lparr>rv_recovered = 0, rv_skipped = 0\<rparr>, c) in (Inr rep, c))"
| "recover_read (name # names) ms = Act (\<lambda>c.
     case tc_persistent c of
       None \<Rightarrow> (recover_read names ms, c)
     | Some st \<Rightarrow> let (found, st) = recover_entry name st in (recover_read names (ms @ found), c\<lparr>tc_persistent := Some st\<rparr>))"

definition recover_locked :: "string list \<Rightarrow> ('b cache, recovery_report result) prog" where
  "recover_locked names = Act (\<lambda>c.
     (if tc_persistent c = None then Ret (Inr \<lparr>rv_recovered = 0, rv_skipped = 0\<rparr>) else recover_read names [], c))"

text \<open>All other methods hold the mutex from their first to their last access.  What a thread returns does not matter to
  the others.\<close>

definition forget_result :: "('s, 'a) prog \<Rightarrow> ('s, unit) prog" where
  "forget_result p = bind p (\<lambda>_. Ret ())"

fun thread :: "'b backend_ops \<Rightarrow> cmd \<Rightarrow> ('b cache, unit) prog" where
  "thread ops (CRegister namespace key generation k payload) = forget_result (register_locked ops namespace key generation k payload)"
| "thread ops (CLookup namespace key generation k) = forget_result (lookup_locked namespace key generation k)"
| "thread ops (CRestore oid t) = forget_result (restore_locked ops oid t)"
| "thread ops (CPromote oid t) = forget_result (promote_locked ops oid t)"
| "thread ops (CDemote oid t) = forget_result (atom (demote ops oid t))"
| "thread ops (CPersist oid) = forget_result (atom (persist ops oid))"
| "thread ops (CEvict oid) = forget_result (atom (evict ops oid))"
| "thread ops (CDelete oid) = forget_result (atom (delete ops oid))"
| "thread ops (CVerify oid) = forget_result (atom (verify ops oid))"
| "thread ops (CRecover names) = forget_result (recover_locked names)"

section \<open>Without interruption\<close>

lemma run_enforce_then: "run (enforce_then ops x) = (\<lambda>c. (Inr x, snd (enforce_capacity ops c)))"
  by (simp add: enforce_then_def fun_eq_iff)

lemma run_restore: "run (restore_locked ops oid t) c = restore ops oid t c"
  unfolding restore_locked_def run_stretch restore_def st_then_assoc
  by (simp add: st_then_def run_enforce_then split: sum.splits prod.splits)

lemma run_promote: "run (promote_locked ops oid t) c = promote ops oid t c"
  unfolding promote_locked_def run_stretch promote_def
  by (simp add: st_then_def run_enforce_then split: sum.splits prod.splits)

lemma run_lookup: "run (lookup_locked namespace key generation k) c = lookup namespace key generation k c"
  by (simp add: lookup_locked_def run_stretch lookup_def Let_def st_then_def split: option.splits)

lemma run_admit:
  "st_then (register_admit ops address k payload byte_len n blocks new_host) run c =
     st_then (acquire_host new_host payload blocks) (\<lambda>acquired.
     st_then now_ns (\<lambda>created.
     st_then now_ns (\<lambda>last_use c.
     st_then (enforce_capacity ops) (\<lambda>_. Pair (Inr (object_id address)))
       (insert_entry (object_id address) \<lparr>en_address = address, en_compat = k, en_compat_id = compat_id k, en_byte_len = byte_len,
          en_numel = n, en_blocks = blocks, en_placements = [PHost acquired], en_created_ns = created,
          en_last_use_ns = last_use, en_reuse_count = 0, en_durable = False, en_flags = move_flags_default\<rparr> c)))) c"
  by (simp add: register_admit_def st_then_def now_ns_def run_then split: sum.splits prod.splits)

lemma run_evicting:
  "new_host > host_free c \<Longrightarrow> run (register_evicting ops address k payload byte_len n blocks new_host) c =
     st_then (make_room ops new_host) (\<lambda>_. st_then (register_admit ops address k payload byte_len n blocks new_host) run) c"
  by (simp add: register_evicting_def run_then run_stretch [abs_def] make_room_def st_then_def split: sum.splits prod.splits)

lemma run_register: "run (register_locked ops namespace key generation k payload) c = register ops namespace key generation k payload c"
proof -
  let ?run = "\<lambda>rc. case rc of (Inl e, c) \<Rightarrow> (Inl e, c) | (Inr p, c) \<Rightarrow> run p c"
  have room: "?run (if new_host > host_free c then (Inr (register_evicting ops address k payload byte_len n blocks new_host), c)
        else register_admit ops address k payload byte_len n blocks new_host c) =
      st_then (make_room ops new_host) (\<lambda>_. st_then (register_admit ops address k payload byte_len n blocks new_host) run) c"
    for new_host address byte_len n blocks
    by (cases "new_host > host_free c") (simp_all add: run_evicting make_room_def, simp_all add: st_then_def)
  let ?b = "shape_byte_len (ck_shape k) (byte_size (ck_dtype k))" and ?n = "numel (ck_shape k)"
    and ?bl = "chunk payload (rc_block_size (tc_config c))"
  have start: "run (stretch f) c = ?run (f c)" for f
    by (simp add: run_stretch st_then_def)
  show ?thesis
    unfolding register_locked_def register_check_def register_def start Let_def
    by (cases ?b; cases ?n; cases ?bl; cases "validate_block_list (projr ?bl) (projr ?b)";
        cases "projr ?b = of_nat (length payload)")
       (simp_all add: room run_admit [abs_def])
qed

lemma run_recover_read:
  "tc_persistent c = Some st \<Longrightarrow> store_recover names st = (found, st') \<Longrightarrow> run (recover_read names ms) c =
     (let (rep, c) = fold recover_meta (ms @ found) (\<lparr>rv_recovered = 0, rv_skipped = 0\<rparr>, c\<lparr>tc_persistent := Some st'\<rparr>) in (Inr rep, c))"
proof (induction names arbitrary: c st ms found)
  case (Cons name names)
  obtain m1 st1 where e: "recover_entry name st = (m1, st1)" by fastforce
  obtain m2 st2 where r: "store_recover names st1 = (m2, st2)" by fastforce
  have "run (recover_read (name # names) ms) c = run (recover_read names (ms @ m1)) (c\<lparr>tc_persistent := Some st1\<rparr>)"
    by (simp add: Cons.prems(1) e)
  moreover have "found = m1 @ m2" "st' = st2" using Cons.prems(2) e r by auto
  ultimately show ?case using Cons.IH [of "c\<lparr>tc_persistent := Some st1\<rparr>" st1 m2] r by simp
next
  case Nil
  then have "c\<lparr>tc_persistent := Some st'\<rparr> = c" by simp
  with Nil(2) show ?case by simp
qed

lemma run_recover: "run (recover_locked names) c = recover names c"
proof (cases "tc_persistent c")
  case (Some st)
  obtain found st' where r: "store_recover names st = (found, st')" by fastforce
  have "run (recover_locked names) c = run (recover_read names []) c" by (simp add: recover_locked_def Some)
  then show ?thesis by (simp add: run_recover_read [OF Some r] recover_def Some r)
qed (simp add: recover_locked_def recover_def)

lemma run_forget: "snd (run (forget_result p) c) = snd (run p c)"
  by (simp add: forget_result_def case_prod_beta)

lemma run_thread: "snd (run (thread ops cmd) c) = exec ops cmd c"
  by (cases cmd) (simp_all add: run_forget run_register run_lookup run_restore run_promote run_recover)

text \<open>What the first stretch of a registration ends with.\<close>

lemma register_check_cases:
  assumes "register_check ops namespace key generation k payload c = (r, c')"
  obtains (refused) e where "r = Inl e" "c' = c"
  | (evicting) byte_len n blocks where "shape_byte_len (ck_shape k) (byte_size (ck_dtype k)) = Inr byte_len" "numel (ck_shape k) = Inr n"
      "chunk payload (rc_block_size (tc_config c)) = Inr blocks" "validate_block_list blocks byte_len = Inr ()" "length blocks \<le> BMAX"
      "tc_entries c (oid_to_hex (object_id (address_new namespace key generation))) = None" "new_host_bytes blocks c > host_free c"
      "r = Inr (register_evicting ops (address_new namespace key generation) k payload byte_len n blocks (new_host_bytes blocks c))" "c' = c"
  | (admitted) byte_len n blocks where "shape_byte_len (ck_shape k) (byte_size (ck_dtype k)) = Inr byte_len" "numel (ck_shape k) = Inr n"
      "chunk payload (rc_block_size (tc_config c)) = Inr blocks" "validate_block_list blocks byte_len = Inr ()" "length blocks \<le> BMAX"
      "tc_entries c (oid_to_hex (object_id (address_new namespace key generation))) = None" "new_host_bytes blocks c \<le> host_free c"
      "register_admit ops (address_new namespace key generation) k payload byte_len n blocks (new_host_bytes blocks c) c = (r, c')"
proof -
  let ?b = "shape_byte_len (ck_shape k) (byte_size (ck_dtype k))" and ?n = "numel (ck_shape k)"
    and ?bl = "chunk payload (rc_block_size (tc_config c))" and ?oid = "object_id (address_new namespace key generation)"
  note run = assms [unfolded register_check_def Let_def]
  show thesis
  proof (cases "\<exists>e. r = Inl e \<and> c' = c")
    case False
    then obtain byte_len n blocks where ok: "?b = Inr byte_len" "byte_len = of_nat (length payload)" "?n = Inr n" "?bl = Inr blocks"
        "validate_block_list blocks byte_len = Inr ()"
      using run by (cases ?b; cases ?n; cases ?bl; cases "validate_block_list (projr ?bl) (projr ?b)") (auto split: if_splits)
    have len: "length blocks \<le> BMAX" using chunk_length [OF ok(4)] by (simp add: BMAX_eq)
    have rest: "tc_entries c (oid_to_hex ?oid) = None"
        "(if new_host_bytes blocks c > host_free c then (Inr (register_evicting ops (address_new namespace key generation) k payload byte_len n blocks (new_host_bytes blocks c)), c)
          else register_admit ops (address_new namespace key generation) k payload byte_len n blocks (new_host_bytes blocks c) c) = (r, c')"
      using run False ok by (auto split: if_splits)
    show thesis
    proof (cases "new_host_bytes blocks c > host_free c")
      case True
      then show thesis by (intro evicting [OF ok(1,3-5) len rest(1) True]) (use rest(2) in auto)
    next
      case False
      then show thesis by (intro admitted [OF ok(1,3-5) len rest(1)]) (use rest(2) in simp_all)
    qed
  qed (use refused in blast)
qed

section \<open>Registrations that race\<close>

lemma evict_by_metas: "metas (snd (evict_by ops enough c)) = metas c"
proof -
  have vol: "metas (remove_volatile ops oid ts c) = metas c" for oid ts and c :: "'a cache"
    by (induction ts arbitrary: c) (simp_all add: remove_placement_metas)
  have loop: "metas (snd (evict_loop ops enough es c)) = metas c" for es and c :: "'a cache"
    by (induction es arbitrary: c) (auto simp: Let_def vol split: sum.splits)
  obtain es c1 where e: "evict_candidates (tc_iter c (tc_entries c)) c = (es, c1)" by fastforce
  have "metas c1 = metas c" using evict_candidates_frame [OF e] by (auto simp: metas_def)
  then show ?thesis by (simp add: evict_by_def e loop)
qed

lemma admit_inserts:
  "register_admit ops address k payload byte_len n blocks new_host c = (Inr p, c') \<Longrightarrow>
     metas c' (oid_to_hex (object_id address)) = Some (address, k, compat_id k, byte_len, n, blocks) \<and>
     p = pr_then (atom (enforce_capacity ops)) (\<lambda>_. Ret (Inr (object_id address)))"
  by (auto simp: register_admit_def res now_ns_def metas_def insert_entry_def entry_meta_def)

lemma evicting_inserts:
  assumes "run (register_evicting ops address k payload byte_len n blocks new_host) c = (Inr oid, c')"
  shows "oid = object_id address \<and> metas c' (oid_to_hex oid) = Some (address, k, compat_id k, byte_len, n, blocks)"
proof -
  obtain u x v where adm: "register_admit ops address k payload byte_len n blocks new_host u = (Inr x, v)" "run x v = (Inr oid, c')"
    using assms by (auto simp: register_evicting_def run_then run_stretch res split: if_splits)
  note adm = admit_inserts [OF adm(1)] adm(2)
  have "oid = object_id address" "enforce_capacity ops v = (Inr (), c')" using adm by (auto simp: run_then res)
  moreover have "metas (snd (enforce_capacity ops v)) = metas v" by (simp add: enforce_capacity_def Let_def evict_by_metas)
  ultimately show ?thesis using adm(1) by simp
qed

text \<open>Two threads register the same object while the host tier is full.  When both find it absent and then both get room,
  the second registration replaces the object of the first, with whatever key and payload it has, and both report success.\<close>

lemma register_race:
  assumes "register_check ops namespace key generation k1 payload1 c = (Inr p1, c)" "register_check ops namespace key generation k2 payload2 c = (Inr p2, c)"
    "run p1 c = (Inr oid1, c1)" "run p2 c1 = (Inr oid2, c2)"
  shows "oid1 = oid2 \<and> (\<exists>e1. tc_entries c1 (oid_to_hex oid1) = Some e1 \<and> en_compat e1 = k1) \<and>
    (\<exists>e2. tc_entries c2 (oid_to_hex oid2) = Some e2 \<and> en_compat e2 = k2)"
proof -
  have "oid = object_id (address_new namespace key generation) \<and> (\<exists>e. tc_entries u' (oid_to_hex oid) = Some e \<and> en_compat e = k)"
    if "register_check ops namespace key generation k payload c = (Inr p, c)" "run p u = (Inr oid, u')" for k payload p u oid u'
    using that(1)
  proof (cases rule: register_check_cases)
    case (evicting byte_len n blocks)
    then show ?thesis
      using that(2) evicting_inserts [of ops "address_new namespace key generation" k payload byte_len n blocks "new_host_bytes blocks c" u oid u']
      by (auto simp: metas_def entry_meta_def)
  next
    case (admitted byte_len n blocks)
    from admit_inserts [OF admitted(8)] have "tc_entries c (oid_to_hex (object_id (address_new namespace key generation))) \<noteq> None"
      by (auto simp: metas_def)
    with admitted(6) show ?thesis by simp
  qed simp
  from this [OF assms(1,3)] this [OF assms(2,4)] show ?thesis by blast
qed

section \<open>Interleaving\<close>

definition opens :: "'b backend_ops \<Rightarrow> 'b cache \<Rightarrow> bool" where
  "opens ops c \<longleftrightarrow> (\<exists>cpu cfg extra disk blocks manifests names clock iter.
     with_backends ops cpu cfg extra disk blocks manifests names clock iter = Inr c)"

lemma opens_sound: "opens ops c \<Longrightarrow> sound 0 c"
  using opened_sound by (auto simp: opens_def)

text \<open>A cache that was opened, on which \<open>n\<close> calls have been started, each by a thread of its own, with what is left to do
  for each of them.  A thread that makes several calls is covered: it starts the next when it likes.\<close>

inductive concurrent :: "'b backend_ops \<Rightarrow> nat \<Rightarrow> 'b cache \<Rightarrow> ('b cache, unit) prog list \<Rightarrow> bool" for ops where
  opened: "opens ops c \<Longrightarrow> concurrent ops 0 c []"
| spawn: "concurrent ops n c ts \<Longrightarrow> cmd_ok cmd \<Longrightarrow> concurrent ops (Suc n) c (ts @ [thread ops cmd])"
| step: "concurrent ops n c ts \<Longrightarrow> i < length ts \<Longrightarrow> ts ! i = Act f \<Longrightarrow> f c = (p, c') \<Longrightarrow> concurrent ops n c' (ts[i := p])"

text \<open>Calls one after the other are a special case.\<close>

lemma concurrent_run: "concurrent ops n c ts \<Longrightarrow> i < length ts \<Longrightarrow> ts ! i = p \<Longrightarrow> \<exists>ts'. concurrent ops n (snd (run p c)) ts'"
proof (induction p arbitrary: c ts rule: prog_induct)
  case (Act f)
  obtain p c' where f: "f c = (p, c')" by fastforce
  have "concurrent ops n c' (ts[i := p])" using concurrent.step [OF Act.prems f] .
  from Act.IH [OF f this] Act.prems(2) f show ?case by simp
qed auto

lemma reachable_concurrent: "reachable ops n c \<Longrightarrow> \<exists>ts. concurrent ops n c ts"
proof (induction rule: reachable.induct)
  case (opened cpu cfg extra disk blocks manifests names clock iter c)
  then have "opens ops c" unfolding opens_def by blast
  then show ?case using concurrent.opened by blast
next
  case (command n c cmd)
  then obtain ts where "concurrent ops (Suc n) c (ts @ [thread ops cmd])" using concurrent.spawn by blast
  from concurrent_run [OF this, of "length ts" "thread ops cmd"] show ?case by (simp add: run_thread)
qed

section \<open>Invariants under interleaving\<close>

text \<open>A program that keeps \<open>P\<close> with every action, whatever the others do in between, and adds at most \<open>k\<close> times \<open>BMAX\<close>
  references.\<close>

inductive tame :: "(nat \<Rightarrow> 's \<Rightarrow> bool) \<Rightarrow> nat \<Rightarrow> ('s, 'a) prog \<Rightarrow> bool" for P where
  ret [simp, intro]: "tame P k (Ret a)"
| act: "(\<And>n s p s'. P n s \<Longrightarrow> n + k * BMAX \<le> LIMIT \<Longrightarrow> f s = (p, s') \<Longrightarrow>
          \<exists>j \<le> k. P (n + j * BMAX) s' \<and> tame P (k - j) p) \<Longrightarrow> tame P k (Act f)"

inductive_cases tame_ActE: "tame P k (Act f)"

text \<open>One action of one of several programs.\<close>

lemma tame_spend:
  assumes "tame P (ks ! i) (Act f)" "i < length ks" "P (j * BMAX) s" "f s = (q, s')" "j + sum_list ks \<le> n" "n * BMAX \<le> LIMIT"
  obtains m where "P ((j + m) * BMAX) s'" "tame P (ks ! i - m) q" "j + m + sum_list (ks[i := ks ! i - m]) \<le> n"
proof -
  have le: "ks ! i \<le> sum_list ks" using assms(2) by (rule elem_le_sum_list)
  then have "j * BMAX + ks ! i * BMAX \<le> LIMIT"
    using assms(5,6) mult_le_mono1 [of "j + ks ! i" n BMAX] by (simp add: add_mult_distrib)
  with assms(1,3,4) obtain m where m: "m \<le> ks ! i" "P (j * BMAX + m * BMAX) s'" "tame P (ks ! i - m) q"
    by (elim tame_ActE) blast
  have "sum_list (ks[i := ks ! i - m]) + m = sum_list ks"
    using sum_list_update [OF assms(2), of "ks ! i - m"] m(1) le by simp
  with m assms(5) show thesis by (intro that [of m]) (simp_all add: add_mult_distrib)
qed

lemma tame_mono: "tame P j p \<Longrightarrow> j \<le> k \<Longrightarrow> tame P k p"
proof (induction arbitrary: k rule: tame.induct)
  case (act j f)
  show ?case
  proof (rule tame.act)
    fix n s p s' assume *: "P n s" "n + k * BMAX \<le> LIMIT" "f s = (p, s')"
    have "n + j * BMAX \<le> LIMIT" using *(2) mult_le_mono1 [OF act.prems, of BMAX] by linarith
    with act.IH [OF *(1) _ *(3)] obtain i where i: "i \<le> j" "P (n + i * BMAX) s'" "\<And>k. j - i \<le> k \<Longrightarrow> tame P k p" by blast
    show "\<exists>i \<le> k. P (n + i * BMAX) s' \<and> tame P (k - i) p"
      by (rule exI [of _ i]) (use i act.prems in auto)
  qed
qed simp

lemma tame_bind:
  assumes "tame P j p" "\<And>a. tame P k (g a)"
  shows "tame P (j + k) (bind p g)"
  using assms(1)
proof (induction rule: tame.induct)
  case (ret j a)
  then show ?case using tame_mono [OF assms(2)] by simp
next
  case (act j f)
  show ?case
    unfolding bind.simps
  proof (rule tame.act)
    fix n s q s' assume *: "P n s" "n + (j + k) * BMAX \<le> LIMIT" "map_prod (\<lambda>p. bind p g) id (f s) = (q, s')"
    then obtain p where p: "f s = (p, s')" "q = bind p g" by (cases "f s") auto
    have "n + j * BMAX \<le> LIMIT" using *(2) by (simp add: algebra_simps)
    with act.IH [OF *(1) _ p(1)] obtain i where i: "i \<le> j" "P (n + i * BMAX) s'" "tame P (j - i + k) (bind p g)" by blast
    then show "\<exists>i \<le> j + k. P (n + i * BMAX) s' \<and> tame P (j + k - i) q"
      by (intro exI [of _ i]) (simp add: p(2) Nat.add_diff_assoc2)
  qed
qed

lemma tame_atom:
  assumes "\<And>n s. P n s \<Longrightarrow> n + k * BMAX \<le> LIMIT \<Longrightarrow> P (n + k * BMAX) (snd (f s))"
  shows "tame P k (atom f)"
  unfolding atom_def
  by (rule tame.act, rule exI [of _ k]) (use assms in \<open>fastforce simp: map_prod_def split: prod.splits\<close>)

lemma tame_stretch:
  assumes "\<And>n s r s'. P n s \<Longrightarrow> n + k * BMAX \<le> LIMIT \<Longrightarrow> f s = (r, s') \<Longrightarrow>
    \<exists>j \<le> k. P (n + j * BMAX) s' \<and> (\<forall>p. r = Inr p \<longrightarrow> tame P (k - j) p)"
  shows "tame P k (stretch f)"
  unfolding stretch_def
proof (rule tame.act)
  fix n s q s' assume *: "P n s" "n + k * BMAX \<le> LIMIT" "map_prod (case_sum (\<lambda>e. Ret (Inl e)) id) id (f s) = (q, s')"
  then obtain r where r: "f s = (r, s')" "q = case_sum (\<lambda>e. Ret (Inl e)) id r" by (cases "f s") auto
  from assms [OF *(1,2) r(1)] r(2) show "\<exists>j \<le> k. P (n + j * BMAX) s' \<and> tame P (k - j) q"
    by (cases r) auto
qed

lemma tame_once:
  assumes "\<And>n s. P n s \<Longrightarrow> n + BMAX \<le> LIMIT \<Longrightarrow> P (n + BMAX) (snd (f s))" "\<And>s p s'. f s = (Inr p, s') \<Longrightarrow> tame P 0 p"
  shows "tame P 1 (stretch f)"
proof (rule tame_stretch, rule exI [of _ 1])
  fix n s r s' assume "P n s" "n + 1 * BMAX \<le> LIMIT" "f s = (r, s')"
  then show "1 \<le> (1 :: nat) \<and> P (n + 1 * BMAX) s' \<and> (\<forall>p. r = Inr p \<longrightarrow> tame P (1 - 1) p)"
    using assms(1) [of n s] assms(2) [of s _ s'] by auto
qed

lemma tame_then: "tame P j p \<Longrightarrow> (\<And>a. tame P k (g a)) \<Longrightarrow> tame P (j + k) (pr_then p g)"
  unfolding pr_then_def by (rule tame_bind) (auto split: sum.split)

lemma tame_then0: "tame P 0 p \<Longrightarrow> (\<And>a. tame P k (g a)) \<Longrightarrow> tame P k (pr_then p g)"
  using tame_then [of P 0 p k g] by simp

lemma tame_bind1: "tame P 1 p \<Longrightarrow> (\<And>a. tame P k (g a)) \<Longrightarrow> tame P (Suc k) (bind p g)"
  using tame_bind [of P 1 p k g] by simp

lemma tame_then1: "tame P 1 p \<Longrightarrow> (\<And>a. tame P k (g a)) \<Longrightarrow> tame P (Suc k) (pr_then p g)"
  using tame_then [of P 1 p k g] by simp

lemma tame_then_last: "tame P k p \<Longrightarrow> (\<And>a. tame P 0 (g a)) \<Longrightarrow> tame P k (pr_then p g)"
  using tame_then [of P k p 0 g] by simp

lemma tame_Ret_then: "(\<And>x. r = Inr x \<Longrightarrow> tame P k (g x)) \<Longrightarrow> tame P k (pr_then (Ret r) g)"
  by (cases r) (simp_all add: pr_then_def)

lemma tame_forget: "tame P k p \<Longrightarrow> tame P k (forget_result p)"
  using tame_bind [of P k p 0 "\<lambda>_. Ret ()"] by (simp add: forget_result_def)

context cache_invariant
begin

lemma tame_enforce: "tame P 0 (enforce_then ops x)" "tame P 0 (pr_then (atom (enforce_capacity ops)) (\<lambda>_. Ret r))"
  by (auto simp: enforce_then_def intro!: tame_then0 tame_atom every.enforce)

lemma admit_tame:
  assumes "P n c" "n + BMAX \<le> LIMIT" "length blocks \<le> BMAX" "rust_key k" "validate_block_list blocks byte_len = Inr ()"
    "shape_byte_len (ck_shape k) (byte_size (ck_dtype k)) = Inr byte_len" "numel (ck_shape k) = Inr num"
    "new_host \<le> host_free c" "register_admit ops address k payload byte_len num blocks new_host c = (r, c')"
  shows "P (n + BMAX) c' \<and> (\<forall>p. r = Inr p \<longrightarrow> tame P 0 p)"
proof (cases "acquire_host new_host payload blocks c")
  case (Pair r1 c1)
  note ad = admit [OF assms(1-8) Pair, of address "object_id address"]
  show ?thesis
  proof (cases r1)
    case (Inl e)
    then show ?thesis using ad assms(9) Pair by (auto simp: register_admit_def st_then_def)
  next
    case (Inr acquired)
    then show ?thesis
      using ad assms(9) Pair tame_enforce(2)
      by (auto simp: register_admit_def st_then_def now_ns_def fresh_entry_def)
  qed
qed

lemma evict_to_free_keep: "P n c \<Longrightarrow> P n (snd (evict_to_free ops k c))"
  by (simp add: evict_to_free_def every.by_score)

lemma tame_evicting:
  assumes "length blocks \<le> BMAX" "rust_key k" "validate_block_list blocks byte_len = Inr ()"
    "shape_byte_len (ck_shape k) (byte_size (ck_dtype k)) = Inr byte_len" "numel (ck_shape k) = Inr num"
  shows "tame P 1 (register_evicting ops address k payload byte_len num blocks new_host)"
  unfolding register_evicting_def
proof (rule tame_then0)
  show "tame P 0 (atom (evict_to_free ops new_host))" by (rule tame_atom) (simp add: evict_to_free_keep)
  fix x
  show "tame P 1 (stretch (\<lambda>c. if new_host > host_free c then (Inl (AdmissionRejected ''no capacity after eviction''), c)
       else register_admit ops address k payload byte_len num blocks new_host c))"
  proof (rule tame_stretch, rule exI [of _ 1])
    fix n c r c'
    assume "P n c" "n + 1 * BMAX \<le> LIMIT" "(if new_host > host_free c then (Inl (AdmissionRejected ''no capacity after eviction''), c)
       else register_admit ops address k payload byte_len num blocks new_host c) = (r, c')"
    then show "1 \<le> (1 :: nat) \<and> P (n + 1 * BMAX) c' \<and> (\<forall>p. r = Inr p \<longrightarrow> tame P (1 - 1) p)"
      using admit_tame [OF _ _ assms, of n c new_host address payload r c'] by (auto intro: mono simp: not_less split: if_splits)
  qed
qed

lemma tame_register:
  assumes "rust_key k"
  shows "tame P 1 (register_locked ops namespace key generation k payload)"
  unfolding register_locked_def
proof (rule tame_stretch)
  fix n c r c' assume c: "P n c" "n + 1 * BMAX \<le> LIMIT" and run: "register_check ops namespace key generation k payload c = (r, c')"
  from run show "\<exists>j \<le> 1. P (n + j * BMAX) c' \<and> (\<forall>p. r = Inr p \<longrightarrow> tame P (1 - j) p)"
  proof (cases rule: register_check_cases)
    case (evicting byte_len num blocks)
    have "tame P 1 (register_evicting ops (address_new namespace key generation) k payload byte_len num blocks (new_host_bytes blocks c))"
      by (rule tame_evicting) (use assms evicting in auto)
    then show ?thesis using c(1) evicting by (intro exI [of _ 0]) simp
  next
    case (admitted byte_len num blocks)
    have "P (n + BMAX) c' \<and> (\<forall>p. r = Inr p \<longrightarrow> tame P 0 p)"
      by (rule admit_tame [OF c(1) _ admitted(5) assms admitted(4,1,2,7,8)]) (use c(2) in simp)
    then show ?thesis by (intro exI [of _ 1]) simp
  qed (use c(1) in auto)
qed

lemma tame_lookup: "tame P 0 (lookup_locked namespace key generation k)"
  unfolding lookup_locked_def
  by (rule tame_stretch)
     (auto simp: Let_def entry_core_def intro!: tame_atom touch tick split: option.splits if_splits)

lemma more: "P n c \<Longrightarrow> P (n + BMAX) c"
  by (erule mono) simp

lemma keep_pure: "P n c \<Longrightarrow> (\<And>x. P (n + BMAX) (snd (g x c))) \<Longrightarrow> P (n + BMAX) (snd (st_then (Pair r) g c))"
  by (cases r) (auto intro: mono)

lemma keep_read: "P n c \<Longrightarrow> (\<And>bytes u. P n u \<Longrightarrow> P (n + BMAX) (snd (g bytes u))) \<Longrightarrow>
    P (n + BMAX) (snd (st_then (materialize_payload ops oid) g c))"
  by (rule every.then_keep [of n]) (auto intro: every.materialize)

lemma keep_add: "P n c \<Longrightarrow> n + BMAX \<le> LIMIT \<Longrightarrow> P (n + BMAX) (snd (st_then (add_placement ops oid t bytes) (\<lambda>_. Pair r) c))"
  by (rule every.then_keep [of "n + BMAX"]) (auto intro: add)

lemma tame_restore: "tame P 1 (restore_locked ops oid t)"
proof -
  let ?f = "\<lambda>c. st_then (Pair (entry_quarantined c oid)) (\<lambda>q.
     if q then Pair (Inl (Integrity ''object is quarantined''))
     else
     st_then (materialize_payload ops oid) (\<lambda>bytes c.
     st_then (Pair (entry_has_tier c oid t)) (\<lambda>has.
     st_then (if has then Pair (Inr ()) else add_placement ops oid t bytes) (\<lambda>_.
       Pair (Inr (enforce_then ops bytes)))) c)) c"
  have "P (n + BMAX) (snd (?f c))" if "P n c" "n + BMAX \<le> LIMIT" for n c
    using that by (auto intro!: keep_pure keep_read keep_add simp: more)
  moreover have "tame P 0 p" if "?f c = (Inr p, c')" for c c' p
    using that by (auto simp: res tame_enforce split: if_splits)
  ultimately show ?thesis
    unfolding restore_locked_def by (intro tame_once) auto
qed

lemma tame_promote: "tame P 1 (promote_locked ops oid t)"
proof -
  let ?f = "\<lambda>c. st_then (Pair (entry_has_tier c oid t)) (\<lambda>has.
     if has then Pair (Inr (Ret (Inr ())))
     else
     st_then (Pair (entry_quarantined c oid)) (\<lambda>q.
     if q then Pair (Inl (Integrity ''object is quarantined''))
     else
     st_then (materialize_payload ops oid) (\<lambda>bytes.
     st_then (add_placement ops oid t bytes) (\<lambda>_. Pair (Inr (enforce_then ops ())))))) c"
  have "P (n + BMAX) (snd (?f c))" if "P n c" "n + BMAX \<le> LIMIT" for n c
    using that by (auto intro!: keep_pure keep_read keep_add simp: more)
  moreover have "tame P 0 p" if "?f c = (Inr p, c')" for c c' p
    using that by (auto simp: res tame_enforce split: if_splits)
  ultimately show ?thesis
    unfolding promote_locked_def by (intro tame_once) auto
qed

lemma tame_recover_read: "\<forall>m \<in> set ms. meta_ok m \<Longrightarrow> tame P 0 (recover_read names ms)"
proof (induction names arbitrary: ms)
  case Nil
  have "P n (snd (let (rep, c) = fold recover_meta ms (\<lparr>rv_recovered = 0, rv_skipped = 0\<rparr>, c) in (Inr rep, c)))" if "P n c" for n c
    using keep_metas [of n "(\<lparr>rv_recovered = 0, rv_skipped = 0\<rparr>, c)" ms] that Nil by (simp add: case_prod_beta)
  then show ?case unfolding recover_read.simps by (intro tame_atom) simp
next
  case (Cons name names)
  have found: "tame P 0 (recover_read names (ms @ found))" if "recover_entry name st = (found, st')" for st found st'
    by (rule Cons.IH) (use Cons.prems recover_entry_sound [OF that] in auto)
  have none: "tame P 0 (recover_read names ms)" using Cons by simp
  show ?case
    unfolding recover_read.simps
    by (rule tame.act) (auto simp: none disk found split: option.splits prod.splits)
qed

lemma tame_recover: "tame P 0 (recover_locked names)"
  unfolding recover_locked_def by (rule tame.act) (auto simp: tame_recover_read)

lemma tame_thread:
  assumes "cmd_ok cmd"
  shows "tame P 1 (thread ops cmd)"
proof -
  have free: "tame P 1 (atom f)" if "\<And>n c. P n c \<Longrightarrow> P n (snd (f c))" for f :: "'b cache \<Rightarrow> 'x \<times> 'b cache"
    by (rule tame_mono [of P 0]) (use that in \<open>auto intro: tame_atom\<close>)
  have paid: "tame P 1 (atom f)" if "\<And>n c. P n c \<Longrightarrow> n + BMAX \<le> LIMIT \<Longrightarrow> P (n + BMAX) (snd (f c))" for f :: "'b cache \<Rightarrow> 'x \<times> 'b cache"
    by (rule tame_atom) (use that in simp)
  note threads = tame_register tame_restore tame_promote tame_mono [OF tame_lookup zero_le] tame_mono [OF tame_recover zero_le]
    paid [OF every.keep_demote] paid [OF every.keep_persist] free [OF every.keep_evict] free [OF every.keep_delete] free [OF every.keep_verify]
  show ?thesis
    using assms by (cases cmd) (simp_all add: threads [THEN tame_forget] del: One_nat_def)
qed

text \<open>Whatever the interleaving, an invariant of the opened cache holds all the time.\<close>

lemma keep_concurrent:
  assumes "concurrent ops n c ts" "n * BMAX \<le> LIMIT" "\<And>c. opens ops c \<Longrightarrow> P 0 c"
  shows "\<exists>j ks. P (j * BMAX) c \<and> list_all2 (tame P) ks ts \<and> j + sum_list ks \<le> n"
  using assms(1,2)
proof (induction rule: concurrent.induct)
  case (opened c)
  then show ?case using assms(3) by (intro exI [of _ 0] exI [of _ "[]"]) simp
next
  case (spawn n c ts cmd)
  then obtain j ks where j: "P (j * BMAX) c" "list_all2 (tame P) ks ts" "j + sum_list ks \<le> n" by auto
  show ?case
    by (rule exI [of _ j], rule exI [of _ "ks @ [1]"]) (use j tame_thread [OF spawn.hyps(2)] in \<open>auto intro: list_all2_appendI\<close>)
next
  case (step n c ts i f p c')
  then obtain j ks where j: "P (j * BMAX) c" "list_all2 (tame P) ks ts" "j + sum_list ks \<le> n" by auto
  have i: "i < length ks" "tame P (ks ! i) (Act f)" using j(2) step.hyps(2,3) by (auto simp: list_all2_conv_all_nth)
  obtain m where m: "P ((j + m) * BMAX) c'" "tame P (ks ! i - m) p" "j + m + sum_list (ks[i := ks ! i - m]) \<le> n"
    by (rule tame_spend [OF i(2,1) j(1) step.hyps(4) j(3) step.prems])
  moreover have "list_all2 (tame P) (ks[i := ks ! i - m]) (ts[i := p])" using j(2) m(2) by (rule list_all2_update_cong)
  ultimately show ?case by blast
qed

lemma always:
  assumes "concurrent ops n c ts" "n * BMAX \<le> LIMIT" "\<And>c. opens ops c \<Longrightarrow> P 0 c"
  shows "P (n * BMAX) c"
proof -
  obtain j ks where j: "P (j * BMAX) c" "j + sum_list ks \<le> n" using keep_concurrent [OF assms(1,2)] assms(3) by blast
  show ?thesis by (rule mono [OF j(1)]) (use j(2) in \<open>simp add: mult_le_mono1\<close>)
qed

end

text \<open>A moment of a cache that threads share.  The invariants of reachable caches are invariants of shared ones.\<close>

definition shared :: "'b backend_ops \<Rightarrow> nat \<Rightarrow> 'b cache \<Rightarrow> bool" where
  "shared ops n c \<longleftrightarrow> (\<exists>ts. concurrent ops n c ts)"

lemma concurrent_sound:
  assumes "concurrent ops n c ts" "n * BMAX \<le> LIMIT"
  shows "sound (n * BMAX) c"
  unfolding sound_def
  by (intro conjI acct.always [OF assms] refs.always [OF assms] desc.always [OF assms])
     (auto dest: opens_sound simp: sound_def)

lemma shared_sound: "shared ops n c \<Longrightarrow> n * BMAX \<le> LIMIT \<Longrightarrow> sound (n * BMAX) c"
  using concurrent_sound by (auto simp: shared_def)

lemma reachable_shared: "reachable ops n c \<Longrightarrow> shared ops n c"
  using reachable_concurrent by (auto simp: shared_def)

end
