(* ===== verification/Node_Threads.thy ===== *)
theory Node_Threads
  imports Process Threads
begin

text \<open>
  A node process with all its connections at once (\<^verbatim>\<open>run_node\<close> of \<^verbatim>\<open>server.rs\<close>).  A handler of \<^verbatim>\<open>node.rs\<close> is a program of
  atomic actions: the stretches of the cache's methods and the calls on the network.  Run without interruption it is the
  handler of \<open>Node\<close>; the threads of the connections interleave them in any order.
\<close>

section \<open>Handlers as programs\<close>

type_synonym ('b, 'w, 'a) nprog = "('b node \<times> 'w, 'a result) prog"

primrec on_cache :: "('b cache, 'a) prog \<Rightarrow> ('b node \<times> 'w, 'a) prog" where
  "on_cache (Ret a) = Ret a"
| "on_cache (Act f) = Act (\<lambda>s. let (q, c) = map_prod on_cache id (f (nd_tc (fst s))) in (q, (fst s)\<lparr>nd_tc := c\<rparr>, snd s))"

definition call :: "('b node \<Rightarrow> 'w \<Rightarrow> 'a result \<times> 'w) \<Rightarrow> ('b, 'w, 'a) nprog" where
  "call f = atom (on_net f)"

text \<open>The identity of a node never changes, so that it does not matter when it is read.\<close>

definition ask :: "('b node \<Rightarrow> ('b, 'w, 'a) nprog) \<Rightarrow> ('b, 'w, 'a) nprog" where
  "ask g = Act (\<lambda>s. (g (fst s), s))"

definition exchange :: "'w net \<Rightarrow> ('b node \<Rightarrow> string) \<Rightarrow> ('b node \<Rightarrow> message) \<Rightarrow> string \<Rightarrow> ('b, 'w, message) nprog" where
  "exchange net addr req closed =
     pr_then (call (\<lambda>n. connect net (addr n))) (\<lambda>cn.
     pr_then (call (\<lambda>n. send_frame net cn (req n))) (\<lambda>_.
     call (\<lambda>_. recv_reply net cn closed)))"

definition coordinator_calls :: "'w net \<Rightarrow> message \<Rightarrow> ('b, 'w, message) nprog" where
  "coordinator_calls net req = exchange net nd_coordinator_addr (\<lambda>_. req) ''coordinator closed connection''"

definition fetch_calls :: "'w net \<Rightarrow> string \<Rightarrow> string \<Rightarrow> u8 list \<Rightarrow> ('b, 'w, u8 list) nprog" where
  "fetch_calls net owner_addr obj cpt =
     pr_then (exchange net (\<lambda>_. owner_addr) (\<lambda>_. Fetch obj cpt) ''owner closed connection'') (\<lambda>reply.
       Ret (case reply of
         FetchReply _ data crc \<Rightarrow>
           if crc32c data \<noteq> crc then Inl (Integrity ''fetch payload CRC mismatch'') else Inr data
       | ErrorMsg _ m \<Rightarrow> Inl (Protocol m)
       | other \<Rightarrow> Inl (unexpected ''fetch'' other)))"

definition store_calls :: "'w net \<Rightarrow> string \<Rightarrow> string \<Rightarrow> string \<Rightarrow> u64 \<Rightarrow> u8 list \<Rightarrow> u8 list \<Rightarrow> ('b, 'w, unit) nprog" where
  "store_calls net peer_addr namespace key generation cpt data =
     pr_then (exchange net (\<lambda>_. peer_addr) (\<lambda>n. Store namespace key generation data (crc32c data) cpt (nd_id n)) ''peer closed connection'')
       (\<lambda>reply. Ret (case reply of
         StoreAck _ \<Rightarrow> Inr ()
       | ErrorMsg _ m \<Rightarrow> Inl (Protocol (''store rejected by peer: '' @ m))
       | other \<Rightarrow> Inl (unexpected ''store'' other)))"

definition migrate_calls ::
  "'b backend_ops \<Rightarrow> 'w net \<Rightarrow> string \<Rightarrow> string \<Rightarrow> string \<Rightarrow> u64 \<Rightarrow> ('b, 'w, unit) nprog" where
  "migrate_calls ops net obj new_owner new_owner_addr fence =
     pr_then (call (\<lambda>n. connect net (nd_coordinator_addr n))) (\<lambda>cn.
     pr_then (call (\<lambda>_. send_frame net cn (Migrate obj new_owner new_owner_addr fence))) (\<lambda>_.
     pr_then (call (\<lambda>_. recv_reply net cn ''coordinator closed during migration'')) (\<lambda>instr.
     case instr of
       Migrate obj new_owner _ fence \<Rightarrow>
         pr_then (Ret (oid_from_hex obj)) (\<lambda>oid.
         pr_then (atom (with_tc (\<lambda>c. metadata c oid))) (\<lambda>meta.
         pr_then (atom (with_tc (\<lambda>c. entry_compat c oid))) (\<lambda>cpt.
         pr_then (on_cache (restore_locked ops oid Host)) (\<lambda>data.
         pr_then (store_calls net new_owner_addr (em_namespace meta) (em_key meta) (em_generation meta) (compat_encode cpt) data) (\<lambda>_.
         call (\<lambda>_. send_frame net cn (MigrateAck obj new_owner fence)))))))
     | ErrorMsg _ m \<Rightarrow> Ret (Inl (Protocol m))
     | other \<Rightarrow> Ret (Inl (unexpected ''migrate'' other)))))"

definition store_local_calls ::
  "'b backend_ops \<Rightarrow> string \<Rightarrow> string \<Rightarrow> u64 \<Rightarrow> compat_key \<Rightarrow> u8 list \<Rightarrow> ('b, 'w, unit) nprog" where
  "store_local_calls ops namespace key generation k data =
     bind (on_cache (register_locked ops namespace key generation k data)) (\<lambda>r. case r of
       Inr _ \<Rightarrow> Ret (Inr ())
     | Inl (Exists _) \<Rightarrow>
         let oid = object_id (address_new namespace key generation) in
         pr_then (atom (with_tc (\<lambda>c. entry_compat_id c oid))) (\<lambda>stored.
         if stored \<noteq> compat_id k
         then Ret (Inl (Compatibility ''store conflicts with an existing incompatible object''))
         else
           pr_then (on_cache (restore_locked ops oid Host)) (\<lambda>existing.
           Ret (if existing \<noteq> data then Inl (Integrity ''store payload differs from the existing object'') else Inr ())))
     | Inl e \<Rightarrow> Ret (Inl e))"

definition peer_store_calls ::
  "'b backend_ops \<Rightarrow> 'w net \<Rightarrow> string \<Rightarrow> string \<Rightarrow> u64 \<Rightarrow> u8 list \<Rightarrow> u32 \<Rightarrow> u8 list \<Rightarrow> ('b, 'w, message list) nprog" where
  "peer_store_calls ops net namespace key generation data crc cpt =
     (if crc \<noteq> crc32c data then Ret (Inl (Integrity ''Store payload CRC mismatch''))
      else
        pr_then (Ret (compat_decode cpt)) (\<lambda>k.
        pr_then (store_local_calls ops namespace key generation k data) (\<lambda>_.
        pr_then (coordinator_calls net (Lookup namespace key generation cpt)) (\<lambda>lk.
        pr_then (case lk of
            LookupResult False _ _ _ \<Rightarrow> ask (\<lambda>n.
              pr_then (coordinator_calls net (Create namespace key generation (of_nat (length data)) cpt (nd_id n)))
                (\<lambda>_. Ret (Inr ())))
          | _ \<Rightarrow> Ret (Inr ())) (\<lambda>_.
        Ret (Inr [StoreAck (oid_to_hex (object_id (address_new namespace key generation)))]))))))"

definition peer_fetch_calls :: "'b backend_ops \<Rightarrow> string \<Rightarrow> u8 list \<Rightarrow> ('b, 'w, message list) nprog" where
  "peer_fetch_calls ops obj cpt =
     pr_then (Ret (oid_from_hex obj)) (\<lambda>oid.
     pr_then (atom (with_tc (\<lambda>c. entry_compat_id c oid))) (\<lambda>stored.
     pr_then (Ret (compat_decode cpt)) (\<lambda>k.
     if stored \<noteq> compat_id k
     then Ret (Inl (Compatibility (''object '' @ oid_to_hex oid @ '' is not compatible with request'')))
     else
       pr_then (on_cache (restore_locked ops oid Host)) (\<lambda>bytes.
       Ret (Inr [FetchReply obj bytes (crc32c bytes)])))))"

definition peer_lookup_calls ::
  "'b backend_ops \<Rightarrow> 'w net \<Rightarrow> string \<Rightarrow> string \<Rightarrow> u64 \<Rightarrow> u8 list \<Rightarrow> ('b, 'w, message list) nprog" where
  "peer_lookup_calls ops net namespace key generation cpt =
     pr_then (coordinator_calls net (Lookup namespace key generation cpt)) (\<lambda>lk.
     case lk of
       LookupResult True owner owner_addr generation \<Rightarrow> ask (\<lambda>n.
         if owner = Some (nd_id n) then Ret (Inr [LookupResult True owner (Some (nd_addr n)) generation])
         else
           (case owner_addr of
              Some addr \<Rightarrow>
                pr_then (fetch_calls net addr (oid_to_hex (object_id (address_new namespace key generation))) cpt) (\<lambda>data.
                pr_then (Ret (compat_decode cpt)) (\<lambda>k.
                bind (on_cache (register_locked ops namespace key generation k data)) (\<lambda>r. Ret (case r of
                  Inl (Panic m) \<Rightarrow> Inl (Panic m)
                | _ \<Rightarrow> Inr [LookupResult True owner (Some addr) generation]))))
            | None \<Rightarrow> Ret (Inr [LookupResult True owner None generation])))
     | LookupResult False _ _ generation \<Rightarrow> Ret (Inr [LookupResult False None None generation])
     | other \<Rightarrow> Ret (Inl (unexpected ''coordinator'' other)))"

fun handle_calls :: "'b backend_ops \<Rightarrow> 'w net \<Rightarrow> message \<Rightarrow> ('b, 'w, message list) nprog" where
  "handle_calls ops net (Register _ _) = Ret (Inl (Protocol ''nodes do not serve Register''))"
| "handle_calls ops net (Store namespace key generation data crc cpt source) =
     peer_store_calls ops net namespace key generation data crc cpt"
| "handle_calls ops net (Fetch obj cpt) = peer_fetch_calls ops obj cpt"
| "handle_calls ops net (Lookup namespace key generation cpt) = peer_lookup_calls ops net namespace key generation cpt"
| "handle_calls ops net (CreateAck obj epoch fence owner) = Ret (Inr [CreateAck obj epoch fence owner])"
| "handle_calls ops net (Migrate obj new_owner new_owner_addr fence) =
     pr_then (migrate_calls ops net obj new_owner new_owner_addr fence) (\<lambda>_.
     Ret (Inr [MigrateAck obj new_owner fence]))"
| "handle_calls ops net msg =
     Ret (Inr [ErrorMsg ''unsupported'' (''node does not handle '' @ show_w (msg_tag (msg_type_of msg)))])"

section \<open>Without interruption\<close>

lemma run_on_cache: "run (on_cache p) s = on_tc (run p) s"
proof (induction p arbitrary: s rule: prog_induct)
  case (Act f)
  obtain q c where f: "f (nd_tc (fst s)) = (q, c)" by fastforce
  show ?case
    using Act.IH [OF f, of "((fst s)\<lparr>nd_tc := c\<rparr>, snd s)"] f by (cases s) (simp add: on_tc_def split: prod.splits)
qed (auto simp: on_tc_def)

lemma run_call: "run (call f) = on_net f"
  by (simp add: call_def fun_eq_iff)

lemma run_ask: "run (ask g) = (\<lambda>(n, w). run (g n) (n, w))"
  by (simp add: ask_def fun_eq_iff)

lemma run_pr_then: "run (pr_then p g) = st_then (run p) (\<lambda>x. run (g x))"
  by (simp add: run_then fun_eq_iff)

lemma run_Ret: "run (Ret a) = Pair a"
  by (simp add: fun_eq_iff)

lemma on_net_then: "on_net (\<lambda>n. st_then (f n) (g n)) = st_then (on_net f) (\<lambda>x. on_net (\<lambda>n. g n x))"
  by (auto simp: on_net_def st_then_def fun_eq_iff split: prod.splits sum.splits)

lemma on_net_pure: "on_net (\<lambda>n. Pair r) = Pair r"
  by (auto simp: on_net_def fun_eq_iff)


text \<open>Rules that follow a handler step by step.\<close>

lemma run_thenI: "run p = f \<Longrightarrow> (\<And>x. run (g x) = h x) \<Longrightarrow> run (pr_then p g) = st_then f h"
  by (simp add: run_pr_then)

lemma run_cacheI: "(\<And>c. run p c = f c) \<Longrightarrow> run (on_cache p) = on_tc f"
  by (simp add: fun_eq_iff run_on_cache on_tc_def)

lemma run_askI: "(\<And>n. run (g n) = f n) \<Longrightarrow> run (ask g) = (\<lambda>(n, w). f n (n, w))"
  by (simp add: run_ask)

lemma run_exchange:
  "run (exchange net addr req closed) =
     on_net (\<lambda>n. st_then (connect net (addr n)) (\<lambda>cn. st_then (send_frame net cn (req n)) (\<lambda>_. recv_reply net cn closed)))"
  by (simp add: exchange_def run_pr_then run_call on_net_then)

lemma run_coordinator: "run (coordinator_calls net req) = coordinator_roundtrip net req"
  by (simp add: coordinator_calls_def run_exchange coordinator_roundtrip_def)

lemma run_exchange_then:
  assumes "\<And>reply w. f reply w = (h reply, w)"
  shows "run (pr_then (exchange net addr req closed) (\<lambda>reply. Ret (h reply))) =
    on_net (\<lambda>n. st_then (connect net (addr n)) (\<lambda>cn. st_then (send_frame net cn (req n)) (\<lambda>_. st_then (recv_reply net cn closed) f)))"
proof -
  have f: "f = (\<lambda>reply. Pair (h reply))" using assms by (simp add: fun_eq_iff)
  have assoc: "st_then (st_then p q) r = st_then p (\<lambda>x. st_then (q x) r)" for p :: "('c, 'd, 'x) nop" and q :: "'x \<Rightarrow> ('c, 'd, 'y) nop"
    and r :: "'y \<Rightarrow> ('c, 'd, 'z) nop"
    by (simp add: fun_eq_iff st_then_assoc)
  show ?thesis
    unfolding f by (simp add: run_pr_then run_exchange run_Ret on_net_then assoc on_net_pure)
qed

lemma run_fetch: "run (fetch_calls net owner_addr obj cpt) = fetch_from net owner_addr obj cpt"
  unfolding fetch_calls_def fetch_from_def by (rule run_exchange_then) (simp split: message.split)

lemma run_store: "run (store_calls net peer_addr namespace key generation cpt data) = store_to net peer_addr namespace key generation cpt data"
  unfolding store_calls_def store_to_def by (rule run_exchange_then) (simp split: message.split)

lemmas run_steps = run_thenI run_askI run_coordinator run_fetch run_store run_Ret run_call run_cacheI run_restore run_register

lemma run_atom': "run (atom f) = f"
  by (simp add: fun_eq_iff)

lemma run_migrate: "run (migrate_calls ops net obj new_owner new_owner_addr fence) = migrate ops net obj new_owner new_owner_addr fence"
  unfolding migrate_calls_def migrate_def
  by (intro run_steps) (auto split: message.split intro!: run_steps simp: run_atom')

lemma run_store_local: "run (store_local_calls ops namespace key generation k data) = store_local ops namespace key generation k data"
proof
  fix s
  let ?oid = "object_id (address_new namespace key generation)"
  let ?check = "pr_then (atom (with_tc (\<lambda>c. entry_compat_id c ?oid))) (\<lambda>stored.
         if stored \<noteq> compat_id k
         then Ret (Inl (Compatibility ''store conflicts with an existing incompatible object''))
         else
           pr_then (on_cache (restore_locked ops ?oid Host)) (\<lambda>existing.
           Ret (if existing \<noteq> data then Inl (Integrity ''store payload differs from the existing object'') else Inr ())))"
  have check: "run ?check = st_then (with_tc (\<lambda>c. entry_compat_id c ?oid)) (\<lambda>stored.
          if stored \<noteq> compat_id k
          then Pair (Inl (Compatibility ''store conflicts with an existing incompatible object''))
          else
            st_then (on_tc (restore ops ?oid Host)) (\<lambda>existing.
            if existing \<noteq> data
            then Pair (Inl (Integrity ''store payload differs from the existing object''))
            else Pair (Inr ())))"
    by (intro run_steps) (auto intro!: run_steps simp: run_atom')
  obtain r s' where r: "on_tc (register ops namespace key generation k data) s = (r, s')" by (rule prod.exhaust)
  then have "run (on_cache (register_locked ops namespace key generation k data)) s = (r, s')" by (simp add: run_cacheI run_register)
  then show "run (store_local_calls ops namespace key generation k data) s = store_local ops namespace key generation k data s"
    by (simp add: store_local_calls_def store_local_def Let_def r check split: sum.split error.split)
qed

lemma run_peer_store:
  "run (peer_store_calls ops net namespace key generation data crc cpt) = peer_store ops net namespace key generation data crc cpt"
  unfolding peer_store_calls_def peer_store_def
  by (auto intro!: run_steps run_store_local split: message.split bool.split)

lemma run_peer_fetch: "run (peer_fetch_calls ops obj cpt) = peer_fetch ops obj cpt"
  unfolding peer_fetch_calls_def peer_fetch_def
  by (intro run_steps) (auto intro!: run_steps simp: run_atom')

lemma run_register_dropped:
  "run (bind (on_cache (register_locked ops namespace key generation k data)) (\<lambda>r. Ret (case r of Inl (Panic m) \<Rightarrow> Inl (Panic m) | _ \<Rightarrow> Inr x))) =
     (\<lambda>s. case on_tc (register ops namespace key generation k data) s of (Inl (Panic m), s) \<Rightarrow> (Inl (Panic m), s) | (_, s) \<Rightarrow> (Inr x, s))"
  by (auto simp: fun_eq_iff run_cacheI run_register split: prod.splits sum.split error.split)

lemma run_peer_lookup:
  "run (peer_lookup_calls ops net namespace key generation cpt) = peer_lookup ops net namespace key generation cpt"
  unfolding peer_lookup_calls_def peer_lookup_def
  by (auto intro!: run_steps run_register_dropped simp: if_distrib option.case_distrib split: message.split bool.split option.split)

lemma run_handle: "run (handle_calls ops net msg) = handle_peer ops net msg"
  by (cases msg) (auto simp: run_peer_store run_peer_fetch run_peer_lookup run_Ret intro!: run_steps run_migrate)

section \<open>The process\<close>

text \<open>A connection of a node: the socket, and the handler of its current request, if there is one.\<close>

record ('b, 'w) node_conn =
  nc_conn :: connection
  nc_call :: "('b, 'w, message list) nprog option"

record ('b, 'w) node_proc =
  np_state :: "'b node \<times> 'w"
  np_conns :: "('b, 'w) node_conn list"

text \<open>The thread of a connection that is between two requests reads the next one.\<close>

definition node_receive :: "'b backend_ops \<Rightarrow> 'w net \<Rightarrow> connection \<Rightarrow> ('b, 'w) node_conn" where
  "node_receive ops net cn =
     (case read_frame (cn_in cn) of
        (Inr (Some (t, payload)), es) \<Rightarrow>
          (case msg_decode t payload of
             Inl e \<Rightarrow> \<lparr>nc_conn = \<lparr>cn_in = es, cn_wc = snd (write_to (ErrorMsg ''protocol'' (error_display e)) (cn_wc cn)),
                        cn_state = Closed (Inr ())\<rparr>, nc_call = None\<rparr>
           | Inr msg \<Rightarrow> \<lparr>nc_conn = cn\<lparr>cn_in := es\<rparr>, nc_call = Some (handle_calls ops net msg)\<rparr>)
      | (_, es) \<Rightarrow> \<lparr>nc_conn = cn\<lparr>cn_in := es, cn_state := Closed (Inr ())\<rparr>, nc_call = None\<rparr>)"

text \<open>When the handler has returned, the thread writes the responses; a panic ends it.\<close>

definition node_reply :: "message list result \<Rightarrow> connection \<Rightarrow> connection" where
  "node_reply r cn =
     (case r of
        Inl (Panic m) \<Rightarrow> cn\<lparr>cn_state := Closed (Inl (Panic m))\<rparr>
      | _ \<Rightarrow>
          let responses = (case r of Inl e \<Rightarrow> [ErrorMsg (kind e) (error_display e)] | Inr rs \<Rightarrow> rs);
              (w, wc) = fold_st write_to responses (cn_wc cn)
          in cn\<lparr>cn_wc := wc, cn_state := (case w of Inl e \<Rightarrow> Closed (Inl e) | Inr _ \<Rightarrow> Serving)\<rparr>)"

text \<open>A step of the thread of a connection.  The number counts the requests that it receives.\<close>

inductive conn_step ::
  "'b backend_ops \<Rightarrow> 'w net \<Rightarrow> nat \<Rightarrow> ('b node \<times> 'w) \<times> ('b, 'w) node_conn \<Rightarrow> ('b node \<times> 'w) \<times> ('b, 'w) node_conn \<Rightarrow> bool" for ops net where
  receive: "cn_state cn = Serving \<Longrightarrow> conn_step ops net 1 (s, \<lparr>nc_conn = cn, nc_call = None\<rparr>) (s, node_receive ops net cn)"
| act: "cn_state cn = Serving \<Longrightarrow> f s = (q, s') \<Longrightarrow>
    conn_step ops net 0 (s, \<lparr>nc_conn = cn, nc_call = Some (Act f)\<rparr>) (s', \<lparr>nc_conn = cn, nc_call = Some q\<rparr>)"
| reply: "cn_state cn = Serving \<Longrightarrow>
    conn_step ops net 0 (s, \<lparr>nc_conn = cn, nc_call = Some (Ret r)\<rparr>) (s, \<lparr>nc_conn = node_reply r cn, nc_call = None\<rparr>)"

text \<open>The accepting thread starts one for every connection.  The network may change at any time.\<close>

inductive node_step :: "'b backend_ops \<Rightarrow> 'w net \<Rightarrow> nat \<Rightarrow> ('b, 'w) node_proc \<Rightarrow> ('b, 'w) node_proc \<Rightarrow> bool" for ops net where
  accept: "node_step ops net 0 p (p\<lparr>np_conns := np_conns p @ [\<lparr>nc_conn = \<lparr>cn_in = es, cn_wc = wc, cn_state = Serving\<rparr>, nc_call = None\<rparr>]\<rparr>)"
| serve: "i < length (np_conns p) \<Longrightarrow> conn_step ops net k (np_state p, np_conns p ! i) (s, cn) \<Longrightarrow>
    node_step ops net k p (p\<lparr>np_state := s, np_conns := (np_conns p)[i := cn]\<rparr>)"
| network: "node_step ops net 0 p (p\<lparr>np_state := (fst (np_state p), w)\<rparr>)"

inductive node_run :: "'b backend_ops \<Rightarrow> 'w net \<Rightarrow> 'b node \<Rightarrow> nat \<Rightarrow> ('b, 'w) node_proc \<Rightarrow> bool" for ops net nd where
  start: "node_run ops net nd 0 \<lparr>np_state = (nd, w), np_conns = []\<rparr>"
| step: "node_run ops net nd n p \<Longrightarrow> node_step ops net k p q \<Longrightarrow> node_run ops net nd (n + k) q"

text \<open>A round of a connection that is not interrupted is the round of the sequential server.\<close>

lemma node_round:
  assumes "cn_state cn = Serving"
  shows "serve_turn (node_turn ops net) cn s =
    (case nc_call (node_receive ops net cn) of
       None \<Rightarrow> (nc_conn (node_receive ops net cn), s)
     | Some p \<Rightarrow> let (r, s) = run p s in (node_reply r (nc_conn (node_receive ops net cn)), s))"
proof -
  obtain r es where rd: "read_frame (cn_in cn) = (r, es)" by fastforce
  consider (none) "\<nexists>f. r = Inr (Some f)" | (bad) t p e where "r = Inr (Some (t, p))" "msg_decode t p = Inl e"
    | (msg) t p m where "r = Inr (Some (t, p))" "msg_decode t p = Inr m"
    by (metis old.sum.exhaust surj_pair)
  then show ?thesis
  proof cases
    case msg
    obtain out s' where h: "handle_peer ops net m s = (out, s')" by (rule prod.exhaust)
    let ?rs = "case out of Inl e \<Rightarrow> [ErrorMsg (kind e) (error_display e)] | Inr rs \<Rightarrow> rs"
    have panic: ?thesis if "out = Inl (Panic e)" for e
      by (simp add: serve_turn_def node_receive_def node_reply_def node_turn_def rd msg h run_handle that)
    have ok: ?thesis if "\<nexists>e. out = Inl (Panic e)"
    proof -
      have t: "node_turn ops net m s = (Inr ?rs, s')"
        using that h by (auto simp: node_turn_def split: sum.splits error.splits)
      have r: "node_reply out cn' = (let (w, wc) = fold_st write_to ?rs (cn_wc cn')
          in cn'\<lparr>cn_wc := wc, cn_state := (case w of Inl e \<Rightarrow> Closed (Inl e) | Inr _ \<Rightarrow> Serving)\<rparr>)" for cn'
        using that by (cases out; cases "projl out") (simp_all add: node_reply_def)
      show ?thesis
        using rd msg by (cases cn) (simp add: serve_turn_def node_receive_def h run_handle t r case_prod_beta)
    qed
    from panic ok show ?thesis by blast
  qed (auto simp: serve_turn_def node_receive_def rd split: sum.splits option.splits)
qed

section \<open>The cache of a node under any interleaving\<close>

context cache_invariant
begin

text \<open>The invariant of the cache, and that nothing else of the node changes.\<close>

definition node_inv :: "'b node \<Rightarrow> nat \<Rightarrow> 'b node \<times> 'w \<Rightarrow> bool" where
  "node_inv nd n s \<longleftrightarrow> P n (nd_tc (fst s)) \<and> fst s = nd\<lparr>nd_tc := nd_tc (fst s)\<rparr>"

lemma tame_on_cache:
  fixes p :: "('b cache, 'x) prog"
  shows "tame P k p \<Longrightarrow> tame (node_inv nd) k (on_cache p :: ('b node \<times> 'w, 'x) prog)"
proof (induction rule: tame.induct)
  case (act k f)
  show ?case
    unfolding on_cache.simps
  proof (rule tame.act)
    fix n s s' and q :: "('b node \<times> 'w, 'x) prog"
    assume *: "node_inv nd n s" "n + k * BMAX \<le> LIMIT"
      "(let (q, c) = map_prod on_cache id (f (nd_tc (fst s))) in (q, (fst s)\<lparr>nd_tc := c\<rparr>, snd s)) = (q, s')"
    obtain p c where f: "f (nd_tc (fst s)) = (p, c)" by fastforce
    have s': "q = on_cache p" "s' = ((fst s)\<lparr>nd_tc := c\<rparr>, snd s)" using *(3) f by simp_all
    have "P n (nd_tc (fst s))" using *(1) by (simp add: node_inv_def)
    from act.IH [OF this *(2) f] obtain j where j: "j \<le> k" "P (n + j * BMAX) c" "tame (node_inv nd) (k - j) q"
      unfolding s'(1) by blast
    have "(fst s)\<lparr>nd_tc := c\<rparr> = nd\<lparr>nd_tc := c\<rparr>"
      by (rule only_cache_trans [OF _ refl]) (use *(1) in \<open>unfold node_inv_def, blast\<close>)
    then show "\<exists>j \<le> k. node_inv nd (n + j * BMAX) s' \<and> tame (node_inv nd) (k - j) q"
      by (intro exI [of _ j]) (use j s' in \<open>auto simp: node_inv_def\<close>)
  qed
qed simp

lemma tame_call: "tame (node_inv nd) 0 (call f)" "tame (node_inv nd) 0 (atom (with_tc g))"
  by (auto simp: call_def on_net_def with_tc_def node_inv_def intro!: tame_atom split: prod.splits)

lemma tame_ask: "(\<And>n. tame (node_inv nd) k (g n)) \<Longrightarrow> tame (node_inv nd) k (ask g)"
  unfolding ask_def by (rule tame.act) (auto intro!: exI [of _ 0])

lemma tame_exchange: "tame (node_inv nd) 0 (exchange net addr req closed)"
  unfolding exchange_def by (intro tame_then0 tame_call)

lemma tame_then_restore:
  "(\<And>x. tame (node_inv nd) k (g x)) \<Longrightarrow> tame (node_inv nd) (Suc k) (pr_then (on_cache (restore_locked ops oid t)) g)"
  by (rule tame_then1 [OF tame_on_cache [OF tame_restore]])

lemma tame_peers:
  "tame (node_inv nd) 0 (coordinator_calls net req)" "tame (node_inv nd) 0 (fetch_calls net owner_addr obj cpt)"
  "tame (node_inv nd) 0 (store_calls net peer_addr namespace key generation cpt data)"
  unfolding coordinator_calls_def fetch_calls_def store_calls_def by (intro tame_exchange tame_then0 tame.ret)+

lemmas tame_steps = tame_Ret_then tame_then_restore tame_then0 tame_call tame_peers tame_ask tame.ret

lemma tame_migrate: "tame (node_inv nd) 1 (migrate_calls ops net obj new_owner new_owner_addr fence)"
  unfolding migrate_calls_def One_nat_def by (auto intro!: tame_steps split: message.split)

lemma tame_store_local:
  assumes "rust_key k"
  shows "tame (node_inv nd) 2 (store_local_calls ops namespace key generation k data)"
  unfolding store_local_calls_def numeral_2_eq_2
  by (rule tame_bind1 [OF tame_on_cache [OF tame_register [OF assms]]])
     (auto simp: Let_def intro!: tame_steps split: sum.split error.split)

lemma tame_peer_store: "tame (node_inv nd) 2 (peer_store_calls ops net namespace key generation data crc cpt)"
proof -
  have "tame (node_inv nd) 2 (pr_then (store_local_calls ops namespace key generation k data) (\<lambda>_.
        pr_then (coordinator_calls net (Lookup namespace key generation cpt)) (\<lambda>lk.
        pr_then (case lk of
            LookupResult False _ _ _ \<Rightarrow> ask (\<lambda>n.
              pr_then (coordinator_calls net (Create namespace key generation (of_nat (length data)) cpt (nd_id n)))
                (\<lambda>_. Ret (Inr ())))
          | _ \<Rightarrow> Ret (Inr ())) (\<lambda>_.
        Ret (Inr [StoreAck (oid_to_hex (object_id (address_new namespace key generation)))])))))"
    if "compat_decode cpt = Inr k" for k
    by (rule tame_then_last [OF tame_store_local [OF decode_rust_key [OF that]]])
       (auto intro!: tame_steps split: message.split bool.split)
  then show ?thesis unfolding peer_store_calls_def by (auto intro!: tame_Ret_then)
qed

lemma tame_register_then:
  "compat_decode cpt = Inr k \<Longrightarrow>
     tame (node_inv nd) (Suc 0) (bind (on_cache (register_locked ops namespace key generation k data)) (\<lambda>r. Ret (h r)))"
  by (rule tame_bind1 [OF tame_on_cache [OF tame_register [OF decode_rust_key]]]) simp_all

lemma tame_peer_lookup: "tame (node_inv nd) 1 (peer_lookup_calls ops net namespace key generation cpt)"
  unfolding peer_lookup_calls_def One_nat_def
  by (auto intro!: tame_steps tame_register_then split: message.split bool.split option.split)

lemma tame_handle: "tame (node_inv nd) 2 (handle_calls ops net msg)"
proof (cases msg)
  case (Fetch obj cpt)
  show ?thesis by (auto simp: Fetch peer_fetch_calls_def numeral_2_eq_2 intro!: tame_steps)
next
  case (Lookup namespace key generation cpt)
  show ?thesis by (auto simp: Lookup intro: tame_mono [OF tame_peer_lookup])
next
  case (Migrate obj new_owner new_owner_addr fence)
  have "tame (node_inv nd) 1 (pr_then (migrate_calls ops net obj new_owner new_owner_addr fence) (\<lambda>_. Ret (Inr [MigrateAck obj new_owner fence])))"
    by (rule tame_then_last [OF tame_migrate]) simp
  then show ?thesis by (auto simp: Migrate intro: tame_mono)
qed (simp_all add: tame_peer_store)

text \<open>The budget of every handler that is running.\<close>

definition budgeted :: "'b node \<Rightarrow> nat \<Rightarrow> ('b, 'w) node_proc \<Rightarrow> bool" where
  "budgeted nd n p \<longleftrightarrow> (\<exists>j ks. node_inv nd (j * BMAX) (np_state p) \<and> j + sum_list ks \<le> n \<and>
     list_all2 (\<lambda>k cn. \<forall>q. nc_call cn = Some q \<longrightarrow> tame (node_inv nd) k q) ks (np_conns p))"

lemma budgeted_update:
  assumes "budgeted nd n p" "i < length (np_conns p)" "\<And>k q. nc_call cn = Some q \<Longrightarrow> tame (node_inv nd) (k + a) q"
  shows "budgeted nd (n + a) (p\<lparr>np_conns := (np_conns p)[i := cn]\<rparr>)"
proof -
  obtain j ks where j: "node_inv nd (j * BMAX) (np_state p)" "j + sum_list ks \<le> n"
    "list_all2 (\<lambda>k cn. \<forall>q. nc_call cn = Some q \<longrightarrow> tame (node_inv nd) k q) ks (np_conns p)"
    using assms(1) by (auto simp: budgeted_def)
  have i: "i < length ks" using j(3) assms(2) by (simp add: list_all2_lengthD)
  have "sum_list (ks[i := ks ! i + a]) = sum_list ks + a"
    using sum_list_update [OF i, of "ks ! i + a"] elem_le_sum_list [OF i] by simp
  then show ?thesis
    unfolding budgeted_def
    by (intro exI [of _ j] exI [of _ "ks[i := ks ! i + a]"]) (use j assms(3) in \<open>auto intro!: list_all2_update_cong\<close>)
qed

lemma budgeted_act:
  assumes "budgeted nd n p" "n * BMAX \<le> LIMIT" "i < length (np_conns p)" "np_conns p ! i = \<lparr>nc_conn = cn, nc_call = Some (Act f)\<rparr>"
    "f (np_state p) = (q, s)"
  shows "budgeted nd n (p\<lparr>np_state := s, np_conns := (np_conns p)[i := \<lparr>nc_conn = cn, nc_call = Some q\<rparr>]\<rparr>)"
proof -
  obtain j ks where j: "node_inv nd (j * BMAX) (np_state p)" "j + sum_list ks \<le> n"
    "list_all2 (\<lambda>k cn. \<forall>q. nc_call cn = Some q \<longrightarrow> tame (node_inv nd) k q) ks (np_conns p)"
    using assms(1) by (auto simp: budgeted_def)
  have i: "i < length ks" "tame (node_inv nd) (ks ! i) (Act f)" using j(3) assms(3,4) by (auto simp: list_all2_conv_all_nth)
  obtain m where "node_inv nd ((j + m) * BMAX) s" "tame (node_inv nd) (ks ! i - m) q" "j + m + sum_list (ks[i := ks ! i - m]) \<le> n"
    by (rule tame_spend [OF i(2,1) j(1) assms(5) j(2) assms(2)])
  then show ?thesis
    unfolding budgeted_def
    by (intro exI [of _ "j + m"] exI [of _ "ks[i := ks ! i - m]"]) (use j(3) in \<open>auto intro!: list_all2_update_cong\<close>)
qed

lemma budgeted_step:
  assumes "node_step ops net k p q" "budgeted nd n p" "(n + 2 * k) * BMAX \<le> LIMIT"
  shows "budgeted nd (n + 2 * k) q"
  using assms
proof (cases rule: node_step.cases)
  case (accept es wc)
  obtain j ks where j: "node_inv nd (j * BMAX) (np_state p)" "j + sum_list ks \<le> n"
    "list_all2 (\<lambda>k cn. \<forall>q. nc_call cn = Some q \<longrightarrow> tame (node_inv nd) k q) ks (np_conns p)"
    using assms(2) by (auto simp: budgeted_def)
  then show ?thesis
    unfolding budgeted_def accept
    by (intro exI [of _ j] exI [of _ "ks @ [0]"]) (auto intro: list_all2_appendI)
next
  case (serve i s cn)
  from serve(3) show ?thesis
  proof (cases rule: conn_step.cases)
    case (receive cn1)
    have "tame (node_inv nd) (j + 2) x" if "nc_call (node_receive ops net cn1) = Some x" for j x
      using that by (auto simp: node_receive_def intro!: tame_mono [OF tame_handle] split: prod.splits sum.splits option.splits)
    then show ?thesis using budgeted_update [OF assms(2) serve(2), of "node_receive ops net cn1" 2] receive serve(1) by simp
  next
    case (act cn1 f x)
    then show ?thesis using budgeted_act [OF assms(2) _ serve(2), of cn1 f x s] assms(3) serve(1) by simp
  next
    case (reply cn1 r)
    then show ?thesis using budgeted_update [OF assms(2) serve(2), of "\<lparr>nc_conn = node_reply r cn1, nc_call = None\<rparr>" 0] serve(1) by simp
  qed
next
  case (network w)
  then show ?thesis using assms(2) by (simp add: budgeted_def node_inv_def)
qed

lemma node_always:
  assumes "node_run ops net nd n p" "P 0 (nd_tc nd)" "2 * n * BMAX \<le> LIMIT"
  shows "node_inv nd (2 * n * BMAX) (np_state p)"
proof -
  have "budgeted nd (2 * n) p"
    using assms
  proof (induction rule: node_run.induct)
    case (start w)
    then show ?case by (auto simp: budgeted_def node_inv_def intro!: exI [of _ 0] exI [of _ "[]"])
  next
    case (step n p k q)
    have "2 * n * BMAX \<le> LIMIT" using step.prems(2) by (simp add: algebra_simps)
    with step.IH step.prems(1) have "budgeted nd (2 * n) p" by simp
    from budgeted_step [OF step.hyps(2) this] step.prems(2) show ?case by (simp add: algebra_simps)
  qed
  then obtain j ks where j: "node_inv nd (j * BMAX) (np_state p)" "j + sum_list ks \<le> 2 * n" by (auto simp: budgeted_def)
  have "j * BMAX \<le> 2 * n * BMAX" using j(2) by (intro mult_le_mono1) simp
  with j(1) show ?thesis unfolding node_inv_def by (blast intro: mono)
qed

end

text \<open>The invariants of the cache hold at every moment of a node process.\<close>

lemma node_run_sound:
  assumes "node_run ops net nd n p" "opens ops (nd_tc nd)" "2 * n * BMAX \<le> LIMIT"
  shows "sound (2 * n * BMAX) (nd_tc (fst (np_state p))) \<and> fst (np_state p) = nd\<lparr>nd_tc := nd_tc (fst (np_state p))\<rparr>"
proof -
  have "sound 0 (nd_tc nd)" using opens_sound [OF assms(2)] .
  then have "acct.node_inv nd (2 * n * BMAX) (np_state p)" "refs.node_inv nd (2 * n * BMAX) (np_state p)"
      "desc.node_inv nd (2 * n * BMAX) (np_state p)"
    using acct.node_always [OF assms(1) _ assms(3)] refs.node_always [OF assms(1) _ assms(3)] desc.node_always [OF assms(1) _ assms(3)]
    by (simp_all add: sound_def)
  then show ?thesis by (simp add: acct.node_inv_def refs.node_inv_def desc.node_inv_def sound_def)
qed

end
