(* ===== verification/Spec2Isabelle.thy ===== *)
theory Spec2Isabelle
  imports Cluster Cuda Process Cli_Correct Disk_Safety Node_Threads "HOL-Library.Char_ord"
begin

text \<open>
  A verification library for Tensor Cache, a cache of tensor-shaped objects in Rust: the core crate
  \<^verbatim>\<open>crates/tensorcache\<close>, the command line and server processes \<^verbatim>\<open>crates/tensorcache-cli\<close> and the CUDA backend
  \<^verbatim>\<open>crates/tensorcache-cuda\<close>.  File names below are under the \<^verbatim>\<open>src\<close> directory of these crates.

  \<^bold>\<open>The program.\<close>  An object is a payload with an address (namespace, key, generation), whose SHA-256 digest is the
  object id, and a compatibility key (element type, shape, layout, model and so on), whose digest gates every reuse.  The
  runtime keeps an entry per object with copies in host memory, on devices and on disk.  Payloads are cut into blocks
  named by their digest; host memory is a reference-counted arena of blocks, the disk holds one file per block and one
  manifest per object.  Byte budgets per tier, an admission policy and an eviction policy decide what stays.  Nodes serve
  their caches to each other over a framed protocol, and a coordinator decides which node owns an object, with fences
  that grow with every change of owner.

  \<^bold>\<open>Theories, in the order of the code.\<close>
  \<^item> \<open>Prelude\<close>: machine integers at their width (unchecked addition and subtraction wrap, as in the release profile), the
    result monad with and without a state that survives errors, slices, decimal rendering.  \<open>Errors\<close>: \<^verbatim>\<open>error.rs\<close>; a
    panic is one more error value, so that its absence is a statement.
  \<^item> \<open>Sha256\<close> (\<^verbatim>\<open>hash.rs\<close>), \<open>Crc32c\<close> (\<^verbatim>\<open>crc.rs\<close>): the streaming hasher with its buffer and the table-driven CRC, proved
    equal to one-shot references through the locale \<open>streaming_digest\<close>.
  \<^item> \<open>Wire\<close> (\<^verbatim>\<open>wire.rs\<close>): writer and reader.  The locale \<open>codec\<close> states the round trip and that encodings are canonical
    and prefix-free; it is interpreted for every encoded type of the program, up to manifests, messages and snapshots.
  \<^item> \<open>Dtype\<close>, \<open>Geometry\<close>, \<open>Compat\<close>, \<open>Ident\<close>, \<open>Tiers\<close> (with \<^verbatim>\<open>residency.rs\<close>): descriptions of objects.
  \<^item> \<open>Planner\<close> (\<^verbatim>\<open>cost.rs\<close>, \<^verbatim>\<open>planner.rs\<close>), \<open>Accounting\<close>, \<open>Admission\<close>, \<open>Eviction\<close>: the policies.  The budget operations
    refine a ledger of natural numbers on every budget (locale \<open>ledger_op\<close>); those that keep used and reserved bytes within
    the capacity have the stronger contract \<open>safe_ledger_op\<close>.
  \<^item> \<open>Storage\<close> (\<^verbatim>\<open>storage.rs\<close>): blocks; the arena refines a multiset of block identities (locale \<open>block_store\<close>);
    \<open>covers\<close> says that a block list is a partition, which validation decides up to wrap-around.
  \<^item> \<open>Backend\<close> (\<^verbatim>\<open>backend.rs\<close>, \<^verbatim>\<open>backend_cpu.rs\<close>): the trait is a record of methods with the contract
    \<open>device_backend\<close>; \<open>Cuda\<close> gives the CUDA backend the same contract for every driver that keeps \<open>driver_ok\<close>,
    and to a registry that holds both kinds (\<open>either_ops\<close>).
  \<^item> \<open>Persistence\<close> (\<^verbatim>\<open>persistence.rs\<close>): a file system in which every call may fail and a failing write leaves a prefix.
  \<^item> \<open>Runtime\<close> (\<^verbatim>\<open>runtime.rs\<close>): the record \<open>cache\<close> is what the mutex guards, and each public method is one state
    transformer.  \<open>Cache_Steps\<close> reduces an invariant of all methods to the primitive changes of the state (locales
    \<open>cache_steps\<close> and \<open>cache_invariant\<close>); \<open>Cache_Safety\<close> uses it for budgets and host blocks; \<open>Cache_Correct\<close> has the
    invariants of reachable caches and what the methods return; \<open>Durability\<close> has what a restart finds.  \<open>Disk_Counts\<close>
    relates the counts of block files to the references of the entries, and \<open>Disk_Safety\<close> has the invariant of a cache
    together with its directory, over the life of the directory (\<open>disk_history\<close>): empty at first, then used by any number of processes one after
    the other, with CPU backends and one block size, by any commands on objects with valid strings, with failing file
    operations.  \<open>Threads\<close> cuts
    the methods into the stretches in which they hold the mutex (programs of atomic actions), shows that uninterrupted
    programs are the methods, and that every \<open>cache_invariant\<close> survives any interleaving of them.
  \<^item> \<open>Authority\<close>, \<open>Protocol\<close>, \<open>Coordinator\<close>: leases and epochs, messages and frames over a byte stream that may be cut
    and interrupted anywhere, and the coordinator's handler, restart and snapshot with the step relation \<open>coord_step\<close>.
  \<^item> \<open>Node\<close> (\<^verbatim>\<open>node.rs\<close>): the peer handler and the client side, over a network that may do anything.  \<open>Server\<close>
    (\<^verbatim>\<open>server.rs\<close>): the loops of one connection.  \<open>Cluster\<close>: nodes and coordinator together, through the contract
    \<open>request_net\<close> of a network that delivers and answers at once; \<open>ack_lost\<close> is the network that loses acknowledgements.  \<open>Process\<close>: how the processes start, with and without the CUDA
    feature, and the coordinator with all its connections at once as the step relation \<open>proc_step\<close>.  \<open>Node_Threads\<close>: a
    node with all its connections at once (\<open>node_step\<close>), whose handlers interleave at every critical section and at every
    call on the network.
  \<^item> \<open>Cli\<close> (\<^verbatim>\<open>args.rs\<close>, \<^verbatim>\<open>commands.rs\<close>, \<^verbatim>\<open>main.rs\<close>): arguments, commands, exit codes and printed lines.  \<open>Cli_Correct\<close>:
    commands in sequence, each a process of its own.

  \<^bold>\<open>What is proved here.\<close>  For a cache at any moment, shared by any number of threads: the byte counters stay within
  the configured capacities, blocks in use are never freed, entries are well formed, reads are verified, lookups respect the
  compatibility gate, registered payloads are read back, demotion never loses the last copy, durable objects survive memory
  pressure, deletion is exact and outlives a restart, verification is exact, device copies read back.  For a cache and its
  directory: the blocks of persistent copies stay intact whatever file operation fails, and objects with a valid layout
  are back after a restart.  For the distributed part: a node keeps the cache invariants however its connections
  interleave, and serves verified bytes only; a server over bytes is its message handler; interleaved connections of the
  coordinator are served as if one after the other and come to an end; for every outcome of a snapshot write, what a restart
  finds; fencing over any run; what a migration leaves when its acknowledgement arrives and when it is lost.  For the
  formats: round trips, canonicity, rejection of corrupt and cut input.  For the policies: exactness, optimality and
  independence of iteration order.  For the command line: what create reports as created, restore gives back in another
  process.

  \<^bold>\<open>Bounds and arguments.\<close>  A command adds at most \<open>BMAX\<close> (the code's limit of blocks per tensor) references, and
  reference counts have 64 bits: theorems on shared caches ask that the number of calls times \<open>BMAX\<close> stays below
  \<open>LIMIT\<close>, about a trillion calls.  Fences have 64 bits, so fencing is stated for fewer than \<open>2 ^ 64\<close> steps.  Nothing
  runs on fuel except the nesting of requests in \<open>Cluster\<close>, where one level is enough for a migration.  Loops end by a
  measure on what is left of the input.  Clock readings, boot identities, the iteration order of hash maps, directory
  listings, outcomes of system calls and of writes, and the elapsed times of the benchmark are arguments of the model and
  arbitrary in the theorems unless a hypothesis says otherwise.  Payloads are shorter than \<open>2 ^ 63\<close> bytes, which is the
  limit of a Rust allocation.  Where a theorem needs that SHA-256 separates the blocks at hand, it says so.

  \<^bold>\<open>Idealisations.\<close>  Reads from a stream and calls on the network always answer, if only with an error: the sockets of the
  program have no time-outs, and a thread that waits for ever is not represented, so the termination of the coordinator's
  connections is about the input that arrives.  The cluster handles a request when it is written.  The reload step of
  \<open>coord_step\<close> takes the snapshot of the latest state; what happens when the snapshot could not be written is stated turn by
  turn.  A test for existence of a file tells the truth, whereas \<^verbatim>\<open>Path::exists\<close> answers false when the system call fails.  The
  capacity theorem is about the counters: the places where the code loses track of bytes (a repeated or shared new
  block, recovery, removal and failure of persistent copies, device copies, which are never charged) make the true
  number of bytes differ from them.

  \<^bold>\<open>Concurrency.\<close>  The invariants and verified reads hold under interleaving.  The theorems on what one method or
  one request does (registration, lookup, demotion, deletion, fetch, migration) start from any moment of a shared cache
  and take that method or request without interruption.  They do not extend to interrupted methods as they stand:
  \<open>register_race\<close> shows that when two registrations of one object have both found it absent and both get room, the later
  one replaces the object of the earlier.  The histories of \<open>Disk_Safety\<close> are histories of whole commands.

  \<^bold>\<open>Not modelled.\<close>  The floating point field \<open>pressure\<close> of an eviction candidate, which nothing reads; binding of sockets
  and spawning of threads beyond their effect; accessors,
  conversions and \<^verbatim>\<open>Display\<close> instances that only project a field; module declarations and re-exports; tests, examples and
  benchmark programs.
\<close>

section \<open>Sample data\<close>

text \<open>One small object, used by the concrete instances of the properties below: three bytes, one block.\<close>

abbreviation sample_key :: compat_key where
  "sample_key \<equiv> compat_default\<lparr>ck_dtype := U8, ck_shape := Shape [3]\<rparr>"

abbreviation sample_oid :: object_id where
  "sample_oid \<equiv> object_id (address_new ''ns'' ''k'' 0)"

abbreviation sample_block :: block_ref where
  "sample_block \<equiv> \<lparr>br_content_hash = hash [1, 2, 3], br_offset = 0, br_len = 3, br_crc = crc32c [1, 2, 3]\<rparr>"

abbreviation sample_meta :: persist_meta where
  "sample_meta \<equiv> \<lparr>pe_object_id = oid_to_hex sample_oid, pe_namespace = ''ns'', pe_key = ''k'', pe_generation = 0,
     pe_compat = sample_key, pe_byte_len = 3, pe_numel = 3, pe_created_ns = 0, pe_blocks = [sample_block]\<rparr>"

abbreviation empty_store :: store where
  "empty_store \<equiv> \<lparr>st_files = Map.empty, st_faults = [], st_pid = 1\<rparr>"

lemma chunk_one_block: "chunk [1, 2, 3] 4 = Inr [sample_block]"
proof -
  have "chunk_loop [1, 2, 3] 4 3 = Inr []" by (simp add: chunk_loop.simps)
  then show ?thesis
    by (simp add: chunk_def chunk_loop.simps [of _ _ 0] div_ceil_def MAX_BLOCKS_PER_TENSOR_def slice_def)
qed

lemma sample_strings: "rust_str ''ns''" "rust_str ''k''" "rust_str ''n1''" "rust_str ''n2''" "rust_str ''a1''"
  by (rule rust_str_ascii; simp add: ascii_def)+

lemma sample_key_valid: "valid_key sample_key"
  by (simp add: valid_key_def rust_key_def compat_default_def wf_shape_def MAX_RANK_def MAX_DIM_def)

lemma sample_byte_len: "shape_byte_len (ck_shape sample_key) (byte_size (ck_dtype sample_key)) = Inr 3" "numel (Shape [3]) = Inr 3"
  by (simp_all add: shape_byte_len_def numel_def checked_mul_def max_w_def)

lemma sample_meta_ok: "meta_ok sample_meta"
proof -
  have v: "validate_block_list [sample_block] 3 = Inr ()" using chunk_valid [OF chunk_one_block] by simp
  have "length (compat_encode sample_key) < 2 ^ 64"
    by (simp add: compat_encode_def compat_default_def w_u8_def w_bool_def enc_shape_def w_u64_def)
  then show ?thesis
    using v sample_byte_len sample_key_valid sample_strings rust_str_object_id [of "''ns''" "''k''" 0]
    by (simp add: meta_ok_def body_ok_def fits_def block_ok_def MAX_BLOCKS_PER_TENSOR_def coord_object_id_def)
qed

lemma put_block_sample:
  assumes "st_faults st = []" "st_files st (BlocksDir, to_hex (hash data)) = None"
  shows "\<exists>st'. put_block data st = (Inr (hash data), st') \<and> st_faults st' = [] \<and>
    st_files st' = (st_files st)(tmp_path (BlocksDir, to_hex (hash data)) st := None, (BlocksDir, to_hex (hash data)) \<mapsto> data)"
  using atomic_write_ok [OF assms(1), of "(BlocksDir, to_hex (hash data))" data] assms(2)
  by (auto simp: put_block_def block_path_ok fs_exists_def Let_def)

section \<open>A sample cache\<close>

text \<open>A cache with blocks of four bytes, one hundred bytes of host memory and an empty persistent directory;
  then the same cache with the sample object registered, and persisted.\<close>

definition sample_config :: runtime_config where
  "sample_config = config_default\<lparr>rc_block_size := 4, rc_host_capacity := 100, rc_persistent_path := Some ''d'',
     rc_persistent_capacity := 100, rc_admission := admission_default\<lparr>ap_min_reuse_value_ns := 0, ap_value_per_byte_ns := 0\<rparr>\<rparr>"

definition sample_cache :: "cpu_backend cache" where
  "sample_cache = \<lparr>tc_entries = Map.empty, tc_host = arena_new, tc_persistent_refs = Map.empty, tc_storage_used = 0,
     tc_accel_used = 0, tc_accounting = initial_accounting cpu_ops sample_config [], tc_object_count = 0,
     tc_backends = [cpu_new 0 100], tc_config = sample_config, tc_persistent = Some empty_store, tc_clock = (\<lambda>_. 0), tc_ticks = 0,
     tc_iter = (\<lambda>m. filter (\<lambda>k. m k \<noteq> None) [oid_to_hex sample_oid])\<rparr>"

lemma sample_cache_open:
  "with_backends cpu_ops cpu_new sample_config [] empty_store [] [] [] (\<lambda>_. 0)
     (\<lambda>m. filter (\<lambda>k. m k \<noteq> None) [oid_to_hex sample_oid]) = Inr sample_cache"
  by (simp add: with_backends_def sample_config_def store_open_def cleanup_incomplete_def recover_def sample_cache_def registry_register_def)

lemma sample_reachable: "reachable cpu_ops 0 sample_cache"
  using reachable.opened [OF sample_cache_open] by simp

definition sample_entry :: entry where
  "sample_entry = \<lparr>en_address = address_new ''ns'' ''k'' 0, en_compat = sample_key, en_compat_id = compat_id sample_key,
     en_byte_len = 3, en_numel = 3, en_blocks = [sample_block], en_placements = [PHost [sample_block]], en_created_ns = 0,
     en_last_use_ns = 0, en_reuse_count = 0, en_durable = False, en_flags = move_flags_default\<rparr>"

definition sample_registered :: "cpu_backend cache" where
  "sample_registered = sample_cache\<lparr>tc_entries := [oid_to_hex sample_oid \<mapsto> sample_entry],
     tc_host := \<lparr>ar_blocks = [hash [1, 2, 3] \<mapsto> [1, 2, 3]], ar_refs = [hash [1, 2, 3] \<mapsto> 1], ar_bytes = 3\<rparr>,
     tc_accounting := (tc_accounting sample_cache)\<lparr>ac_host := \<lparr>bu_capacity = 100, bu_used = 3, bu_reserved = 0\<rparr>\<rparr>,
     tc_object_count := 1, tc_ticks := 3\<rparr>"

lemma sample_host_budget: "ac_host (tc_accounting sample_cache) = \<lparr>bu_capacity = 100, bu_used = 0, bu_reserved = 0\<rparr>"
  by (simp add: sample_cache_def initial_accounting_def sample_config_def set_tier_capacity_def accounting_new_def
      budget_default_def set_capacity_def)

lemma sample_acquire:
  "acquire_host 3 [1, 2, 3] [sample_block] sample_cache = (Inr [sample_block], sample_cache\<lparr>
     tc_host := \<lparr>ar_blocks = [hash [1, 2, 3] \<mapsto> [1, 2, 3]], ar_refs = [hash [1, 2, 3] \<mapsto> 1], ar_bytes = 3\<rparr>,
     tc_accounting := (tc_accounting sample_cache)\<lparr>ac_host := \<lparr>bu_capacity = 100, bu_used = 3, bu_reserved = 0\<rparr>\<rparr>\<rparr>)"
proof -
  have "budget_reserve 3 (ac_host (tc_accounting sample_cache)) = (Inr (), \<lparr>bu_capacity = 100, bu_used = 0, bu_reserved = 3\<rparr>)"
    by (simp add: sample_host_budget budget_reserve_def saturating_add_def checked_add_def)
  moreover have "budget_commit 3 \<lparr>bu_capacity = 100, bu_used = 0, bu_reserved = 3\<rparr> = (Inr (), \<lparr>bu_capacity = 100, bu_used = 3, bu_reserved = 0\<rparr>)"
    by (simp add: budget_commit_def add_used_def checked_add_def saturating_add_def)
  moreover have "tc_host sample_cache = arena_new" by (simp add: sample_cache_def)
  ultimately show ?thesis
    by (simp add: acquire_host_def on_accounting_def acct_reserve_def commit_reserve_def on_tier_def st_then_def
        slice_def acquire_at_def acquire_def arena_new_def Let_def)
qed

lemma sample_admitted:
  "is_admit (evaluate_ignoring_capacity (rc_admission (tc_config sample_cache))
     (admission_candidate_of (tc_config sample_cache) sample_oid sample_key 3) (tc_accounting sample_cache))"
  by (simp add: sample_cache_def evaluate_ignoring_capacity_def admission_candidate_of_def sample_config_def admission_default_def
      required_value_def Let_def clamp_u64_def saturating_mul_def checked_mul_def)

lemma sample_register:
  "register cpu_ops ''ns'' ''k'' 0 sample_key [1, 2, 3] sample_cache = (Inr sample_oid, sample_registered)"
proof -
  have new: "new_host_bytes [sample_block] sample_cache = 3"
    by (simp add: new_host_bytes_def arena_contains_def sample_cache_def arena_new_def)
  have room: "make_room cpu_ops 3 sample_cache = (Inr (), sample_cache)"
    by (simp add: make_room_def host_free_def acct_free_def budget_free_def sample_host_budget saturating_sub_def saturating_add_def checked_add_def)
  have ch: "chunk [1, 2, 3] (rc_block_size (tc_config sample_cache)) = Inr [sample_block]"
    using chunk_one_block by (simp add: sample_cache_def sample_config_def)
  have v: "validate_block_list [sample_block] 3 = Inr ()" using chunk_valid [OF chunk_one_block] by simp
  have f: "tc_entries sample_cache (oid_to_hex sample_oid) = None" "tc_clock sample_cache = (\<lambda>_. 0)" "tc_ticks sample_cache = 0"
    by (simp_all add: sample_cache_def)
  let ?c = "insert_entry sample_oid sample_entry (sample_cache\<lparr>
     tc_host := \<lparr>ar_blocks = [hash [1, 2, 3] \<mapsto> [1, 2, 3]], ar_refs = [hash [1, 2, 3] \<mapsto> 1], ar_bytes = 3\<rparr>,
     tc_accounting := (tc_accounting sample_cache)\<lparr>ac_host := \<lparr>bu_capacity = 100, bu_used = 3, bu_reserved = 0\<rparr>\<rparr>,
     tc_ticks := Suc (Suc 0)\<rparr>)"
  have ins: "?c\<lparr>tc_ticks := 3\<rparr> = sample_registered"
    by (simp add: insert_entry_def sample_registered_def sample_cache_def)
  have enf: "enforce_capacity cpu_ops ?c = (Inr (), ?c\<lparr>tc_ticks := 3\<rparr>)"
    by (simp add: enforce_capacity_def evict_by_def insert_entry_def sample_cache_def Let_def sample_entry_def has_tier_def
        acct_used_def acct_capacity_def eviction_order_def)
  show ?thesis
    by (simp add: register_def Let_def sample_byte_len sample_byte_len(1) [simplified] ch v f sample_admitted new room sample_acquire now_ns_def
        st_then_def [of now_ns] sample_entry_def [symmetric] enf ins)
qed

lemma sample_registered_reachable: "reachable cpu_ops 1 sample_registered"
  using reachable.command [OF sample_reachable, of "CRegister ''ns'' ''k'' 0 sample_key [1, 2, 3]"] sample_register sample_key_valid
  by (simp add: valid_key_def)

lemma sample_registered_fields [simp]:
  "tc_entries sample_registered = [oid_to_hex sample_oid \<mapsto> sample_entry]"
  "tc_persistent sample_registered = Some empty_store" "tc_config sample_registered = sample_config"
  "tc_persistent_refs sample_registered = Map.empty"
  "tc_host sample_registered = \<lparr>ar_blocks = [hash [1, 2, 3] \<mapsto> [1, 2, 3]], ar_refs = [hash [1, 2, 3] \<mapsto> 1], ar_bytes = 3\<rparr>"
  "tc_backends sample_registered = [cpu_new 0 100]"
  by (simp_all add: sample_registered_def sample_cache_def)

lemma sample_within: "1 * BMAX \<le> LIMIT" "0 * BMAX \<le> LIMIT" "Suc 0 * BMAX \<le> LIMIT"
  by (simp_all add: BMAX_def LIMIT_def)

lemma sample_shared: "shared cpu_ops 0 sample_cache"
  by (rule reachable_shared [OF sample_reachable])

lemma sample_registered_shared: "shared cpu_ops 1 sample_registered"
  by (rule reachable_shared [OF sample_registered_reachable])

text \<open>Persisting the sample object into the empty directory writes one block file and the manifest.\<close>

definition sample_durable :: entry where
  "sample_durable = sample_entry\<lparr>en_placements := [PHost [sample_block], PPersistent], en_durable := True\<rparr>"

definition sample_persisted :: "cpu_backend cache" where
  "sample_persisted = snd (persist cpu_ops sample_oid sample_registered)"

lemma sample_read: "materialize_payload cpu_ops sample_oid sample_registered = (Inr [1, 2, 3], sample_registered)"
  by (rule materialize_host [where e = sample_entry and bs = 4])
     (simp_all add: sample_entry_def placement_tiers_def chunk_one_block arena_get_def pieces.simps)

lemma sample_storage_budget: "ac_storage (tc_accounting sample_registered) = \<lparr>bu_capacity = 100, bu_used = 0, bu_reserved = 0\<rparr>"
  by (simp add: sample_registered_def sample_cache_def initial_accounting_def sample_config_def set_tier_capacity_def
      accounting_new_def budget_default_def set_capacity_def)

definition quiet_disk :: "cpu_backend cache \<Rightarrow> bool" where
  "quiet_disk c \<longleftrightarrow> (\<exists>st. tc_persistent c = Some st \<and> st_faults st = [] \<and>
     (\<forall>name x. st_files st (ManifestsDir, name) = Some x \<longrightarrow> name = oid_to_hex sample_oid @ ''.manifest'') \<and> block_data st \<subseteq> {[1, 2, 3]})"

lemma sample_add_persistent:
  "\<exists>c'. add_placement cpu_ops sample_oid Persistent [1, 2, 3] sample_registered = (Inr (), c') \<and>
     tc_entries c' = [oid_to_hex sample_oid \<mapsto> sample_entry\<lparr>en_placements := [PHost [sample_block], PPersistent]\<rparr>] \<and>
     quiet_disk c' \<and> tc_host c' = tc_host sample_registered \<and>
     ac_host (tc_accounting c') = \<lparr>bu_capacity = 100, bu_used = 3, bu_reserved = 0\<rparr>"
proof -
  let ?b1 = "\<lparr>bu_capacity = 100, bu_used = 0, bu_reserved = 3\<rparr>" and ?b2 = "\<lparr>bu_capacity = 100, bu_used = 3, bu_reserved = 0\<rparr>"
  have b: "budget_reserve 3 (ac_storage (tc_accounting sample_registered)) = (Inr (), ?b1)" "budget_commit 3 ?b1 = (Inr (), ?b2)"
    by (simp_all add: sample_storage_budget budget_reserve_def budget_commit_def add_used_def saturating_add_def checked_add_def)
  obtain st1 where put: "put_block [1, 2, 3] empty_store = (Inr (hash [1, 2, 3]), st1)" "st_faults st1 = []"
    "st_files st1 = (st_files empty_store)(tmp_path (BlocksDir, to_hex (hash [1, 2, 3])) empty_store := None, (BlocksDir, to_hex (hash [1, 2, 3])) \<mapsto> [1, 2, 3])"
    using put_block_sample [of empty_store "[1, 2, 3]"] by auto
  have man: "\<exists>st2. write_manifest m st1 = (Inr (), st2) \<and> st_faults st2 = []" if "pe_object_id m = oid_to_hex sample_oid" for m
    using that atomic_write_ok [OF put(2), of "(ManifestsDir, oid_to_hex sample_oid @ ''.manifest'')" "encode_manifest m"]
    by (auto simp: write_manifest_def manifest_path_ok)
  have free: "new_storage_bytes [sample_block] sample_registered = 3" "3 \<le> acct_free KPersistent (tc_accounting sample_registered)"
    by (simp_all add: new_storage_bytes_def acct_free_def budget_free_def sample_storage_budget saturating_sub_def saturating_add_def checked_add_def)
  have ch: "chunk [1, 2, 3] (rc_block_size sample_config) = Inr [sample_block]" "validate_block_list [sample_block] 3 = Inr ()"
    using chunk_one_block chunk_valid [OF chunk_one_block] by (simp_all add: sample_config_def)
  let ?a = "tc_accounting sample_registered"
  let ?c = "sample_registered\<lparr>tc_persistent_refs := [hash [1, 2, 3] \<mapsto> 1],
    tc_storage_used := tc_storage_used sample_registered + 3, tc_accounting := ?a\<lparr>ac_storage := ?b2\<rparr>\<rparr>"
  let ?m = "\<lparr>pe_object_id = oid_to_hex sample_oid, pe_namespace = ''ns'', pe_key = ''k'', pe_generation = 0,
     pe_compat = sample_key, pe_byte_len = 3, pe_numel = 3, pe_created_ns = 0, pe_blocks = [sample_block]\<rparr>"
  obtain st2 where w: "write_manifest ?m st1 = (Inr (), st2)" "st_faults st2 = []" using man [of ?m] by auto
  have only: "name = oid_to_hex sample_oid @ ''.manifest''" if "st_files st2 (ManifestsDir, name) = Some x" for name x
    using that write_manifest_files [OF w(1), of sample_oid] put_block_manifests [OF put(1), of name] by auto
  have data: "block_data st2 \<subseteq> {[1, 2, 3]}"
    using write_manifest_files [OF w(1), of sample_oid] put(3) by (auto simp: block_data_def split: if_splits)
  have "add_placement cpu_ops sample_oid Persistent [1, 2, 3] sample_registered =
      (Inr (), push_placement sample_oid PPersistent (?c\<lparr>tc_persistent := Some st2\<rparr>))"
    using b put(1,2) free ch w(1) sample_byte_len(2)
    by (simp add: add_placement_def get_meta_def sample_entry_def add_persistent_def Let_def st_then_def on_accounting_def
        acct_reserve_def commit_reserve_def on_tier_def slice_def on_store_def address_new_def not_less)
  then show ?thesis
    using w(2) only data by (simp add: push_placement_def upd_entry_def sample_entry_def quiet_disk_def sample_registered_def) blast
qed

lemma sample_persist: "persist cpu_ops sample_oid sample_registered = (Inr (), sample_persisted)"
  "tc_entries sample_persisted = [oid_to_hex sample_oid \<mapsto> sample_durable]" "quiet_disk sample_persisted"
  "tc_host sample_persisted = tc_host sample_registered"
  "ac_host (tc_accounting sample_persisted) = \<lparr>bu_capacity = 100, bu_used = 3, bu_reserved = 0\<rparr>"
proof -
  obtain c' where a: "add_placement cpu_ops sample_oid Persistent [1, 2, 3] sample_registered = (Inr (), c')"
    "tc_entries c' = [oid_to_hex sample_oid \<mapsto> sample_entry\<lparr>en_placements := [PHost [sample_block], PPersistent]\<rparr>]"
    "quiet_disk c'" "tc_host c' = tc_host sample_registered"
    "ac_host (tc_accounting c') = \<lparr>bu_capacity = 100, bu_used = 3, bu_reserved = 0\<rparr>" using sample_add_persistent by blast
  have h: "entry_has_tier sample_registered sample_oid Persistent = Inr False"
    by (simp add: entry_has_tier_def get_meta_def has_tier_def sample_entry_def)
  have p: "persist cpu_ops sample_oid sample_registered = (Inr (), upd_entry sample_oid (\<lambda>e. e\<lparr>en_durable := True\<rparr>) c')"
    by (simp add: persist_def h sample_read a(1) st_then_def)
  then show "persist cpu_ops sample_oid sample_registered = (Inr (), sample_persisted)"
    "tc_entries sample_persisted = [oid_to_hex sample_oid \<mapsto> sample_durable]" "quiet_disk sample_persisted"
    "tc_host sample_persisted = tc_host sample_registered"
    "ac_host (tc_accounting sample_persisted) = \<lparr>bu_capacity = 100, bu_used = 3, bu_reserved = 0\<rparr>"
    using a(2-) by (simp_all add: sample_persisted_def upd_entry_def sample_durable_def quiet_disk_def)
qed

lemma sample_persisted_reachable: "reachable cpu_ops 2 sample_persisted"
  using reachable.command [OF sample_registered_reachable, of "CPersist sample_oid"] sample_persist(1) by (simp add: numeral_2_eq_2)

lemma sample_history: "disk_history 4 2 sample_persisted"
proof -
  have "disk_history 4 0 sample_cache" using disk_history.opened [OF sample_cache_open] by (simp add: sample_config_def)
  moreover have "storable ''ns'' ''k'' sample_key [1, 2, 3]"
    using sample_key_valid sample_strings
    by (simp add: storable_def valid_key_def fits_def compat_encode_def compat_default_def w_u8_def w_bool_def enc_shape_def w_u64_def)
  ultimately have "disk_history 4 1 sample_registered"
    using disk_history.command [of 4 0 sample_cache "CRegister ''ns'' ''k'' 0 sample_key [1, 2, 3]"] sample_register by simp
  from disk_history.command [OF this, of "CPersist sample_oid"] show ?thesis using sample_persist(1) by (simp add: numeral_2_eq_2)
qed

lemma sample_persisted_shared: "shared cpu_ops 2 sample_persisted"
  by (rule reachable_shared [OF sample_persisted_reachable])

section \<open>The cache\<close>

text \<open>C1.  The byte counters, at every moment of a cache on which any number of threads call methods, interleaved wherever a
  method lets go of the mutex: in the host tier and in the persistent tier the counters of used and of reserved bytes
  together stay within the configured capacity, for any capacity, and the counters of the accelerator tier stay at
  zero, since no method charges them.  This bounds what the cache has accounted for; where the accounting itself loses
  track of bytes is listed among the findings.\<close>

theorem capacity_respected:
  assumes "shared ops n c" "n * BMAX \<le> LIMIT"
  shows "unat (acct_used KHost (tc_accounting c)) + unat (acct_reserved KHost (tc_accounting c)) \<le> unat (rc_host_capacity (tc_config c)) \<and>
    unat (acct_used KPersistent (tc_accounting c)) + unat (acct_reserved KPersistent (tc_accounting c))
      \<le> unat (rc_persistent_capacity (tc_config c)) \<and>
    acct_used KAccelerator (tc_accounting c) = 0 \<and> acct_reserved KAccelerator (tc_accounting c) = 0"
proof -
  have "budgets_for (tc_config c) (tc_accounting c)" using shared_sound [OF assms] by (simp add: sound_def budgets_ok_def)
  then show ?thesis
    unfolding budgets_for_def accounting_inv_def budget_inv_def acct_used_def acct_reserved_def budget_of.simps by metis
qed

theorem capacity_respected_witness:
  "unat (acct_used KHost (tc_accounting sample_registered)) + unat (acct_reserved KHost (tc_accounting sample_registered)) \<le> 100 \<and>
     acct_used KHost (tc_accounting sample_registered) = 3"
  using capacity_respected [OF sample_registered_shared sample_within(1)]
  by (simp add: sample_config_def) (simp add: sample_registered_def acct_used_def)

text \<open>C2.  At every moment of a shared cache, every block that some entry holds in host memory is in the arena with bytes
  of that digest: reference counting never frees a block in use, however the threads interleave.\<close>

theorem resident_blocks_readable:
  assumes "shared ops n c" "n * BMAX \<le> LIMIT" "tc_entries c key = Some e" "PHost refs \<in> set (en_placements e)" "b \<in> set refs"
  shows "\<exists>data. arena_get (tc_host c) (br_content_hash b) = Inr data \<and> hash data = br_content_hash b"
  using shared_sound [OF assms(1,2)] by (intro refs_ok_readable [of "n * BMAX", OF _ assms(3-5)]) (simp add: sound_def)

theorem resident_blocks_readable_witness:
  "\<exists>data. arena_get (tc_host sample_registered) (br_content_hash sample_block) = Inr data \<and> hash data = br_content_hash sample_block"
  by (rule resident_blocks_readable [OF sample_registered_shared sample_within(1), of _ sample_entry "[sample_block]"])
     (simp_all add: sample_entry_def)

text \<open>C3.  At every moment of a shared cache, every entry is well formed, also those recovered from disk: it is stored under
  the rendering of an object id, the strings of its compatibility key are valid and the identity next to it is the one of
  that key, its size and its element count are those of its shape and element type, and its block list has passed
  validation.  Validation computes the end of a block modulo 2 to the 64: the list is a partition of the object into
  consecutive nonempty blocks exactly if no block end wraps, and an object that can be read from host memory or from disk
  has such a list.\<close>

theorem entries_well_formed:
  assumes "shared ops n c" "n * BMAX \<le> LIMIT" "tc_entries c key = Some e"
  shows "(\<exists>oid. key = oid_to_hex oid) \<and> rust_key (en_compat e) \<and> en_compat_id e = compat_id (en_compat e) \<and>
    shape_byte_len (ck_shape (en_compat e)) (byte_size (ck_dtype (en_compat e))) = Inr (en_byte_len e) \<and>
    numel (ck_shape (en_compat e)) = Inr (en_numel e) \<and> validate_block_list (en_blocks e) (en_byte_len e) = Inr () \<and>
    (covers 0 (en_blocks e) (unat (en_byte_len e)) \<longleftrightarrow> (\<forall>b \<in> set (en_blocks e). unwrapped b)) \<and>
    (\<forall>oid t bytes c'. key = oid_to_hex oid \<and> \<not> is_accelerator t \<and> materialize_from ops oid t c = (Inr bytes, c') \<longrightarrow>
      covers 0 (en_blocks e) (unat (en_byte_len e)))"
proof -
  have s: "described e" "key \<in> range oid_to_hex" "arena_inv (tc_host c)"
    using shared_sound [OF assms(1,2)] assms(3) by (auto simp: sound_def entries_ok_def refs_ok_def)
  have "covers 0 (en_blocks e) (unat (en_byte_len e))"
    if "key = oid_to_hex oid" "\<not> is_accelerator t" "materialize_from ops oid t c = (Inr bytes, c')" for oid t bytes c'
    using materialize_from_verified [OF s(3) _ that(2,3)] assms(3) that(1) by simp
  moreover have "covers 0 (en_blocks e) (unat (en_byte_len e)) \<longleftrightarrow> (\<forall>b \<in> set (en_blocks e). unwrapped b)"
    using validate_partition s(1) by (auto simp: described_def)
  ultimately show ?thesis using s(1,2) unfolding described_def by blast
qed

theorem entries_well_formed_witness:
  "rust_key sample_key \<and> numel (Shape [3]) = Inr 3 \<and> covers 0 [sample_block] 3"
  using entries_well_formed [OF sample_registered_shared sample_within(1), of "oid_to_hex sample_oid" sample_entry]
  by (simp add: sample_entry_def unwrapped_def)

text \<open>C4.  A lookup has exactly three outcomes.  The object is unknown, or it is there with another
  compatibility identity: both are errors that change nothing.  Or it is a hit, and then the entry was stored
  with the very key asked for unless the encodings of the two keys are a SHA-256 collision; a hit reports the
  size and the preferred tier of the entry and changes the use statistics of that entry and nothing else of
  the entries.\<close>

theorem lookup_gate:
  assumes "shared ops n c" "n * BMAX \<le> LIMIT" "rust_key k" "oid = object_id (address_new namespace key generation)"
    "lookup namespace key generation k c = (r, c')"
  shows "tc_entries c (oid_to_hex oid) = None \<and> r = Inl (NotFound (''object '' @ oid_to_hex oid)) \<and> c' = c \<or>
    (\<exists>e m. tc_entries c (oid_to_hex oid) = Some e \<and> en_compat e \<noteq> k \<and> r = Inl (Compatibility m) \<and> c' = c) \<or>
    (\<exists>e res u t. tc_entries c (oid_to_hex oid) = Some e \<and> r = Inr res \<and>
      (en_compat e = k \<or> compat_encode (en_compat e) \<noteq> compat_encode k \<and> hash (compat_encode (en_compat e)) = hash (compat_encode k)) \<and>
      lr_object_id res = oid \<and> lr_bytes res = en_byte_len e \<and> lr_source_tier res = preferred_tier e \<and>
      tc_entries c' = (tc_entries c)(oid_to_hex oid \<mapsto> e\<lparr>en_reuse_count := u, en_last_use_ns := t\<rparr>))"
  using assms(4,5)
proof (cases rule: lookup_cases)
  case (incompatible e m)
  have "en_compat_id e = compat_id (en_compat e)"
    using shared_sound [OF assms(1,2)] incompatible(1) by (auto simp: sound_def entries_ok_def described_def)
  with incompatible show ?thesis by auto
next
  case (hit e res)
  have d: "rust_key (en_compat e)" "compat_id (en_compat e) = compat_id k"
    using shared_sound [OF assms(1,2)] hit(1,2) by (auto simp: sound_def entries_ok_def described_def)
  then have "en_compat e = k \<or> compat_encode (en_compat e) \<noteq> compat_encode k \<and> hash (compat_encode (en_compat e)) = hash (compat_encode k)"
    using compat_encode_inject [OF d(1) assms(3)] by (auto simp: compat_id_def)
  moreover have "\<exists>u t. tc_entries c' = (tc_entries c)(oid_to_hex oid \<mapsto> e\<lparr>en_reuse_count := u, en_last_use_ns := t\<rparr>)"
    using hit(1) by (auto simp: hit(7) upd_entry_def)
  ultimately show ?thesis using hit(1,3-6) by blast
qed simp

theorem lookup_gate_witness:
  "\<exists>res u t. fst (lookup ''ns'' ''k'' 0 sample_key sample_registered) = Inr res \<and> lr_bytes res = 3 \<and>
     tc_entries (snd (lookup ''ns'' ''k'' 0 sample_key sample_registered)) =
       [oid_to_hex sample_oid \<mapsto> sample_entry\<lparr>en_reuse_count := u, en_last_use_ns := t\<rparr>]"
proof -
  have k: "rust_key sample_key" using sample_key_valid by (simp add: valid_key_def)
  have e: "en_compat sample_entry = sample_key" "en_byte_len sample_entry = 3" by (simp_all add: sample_entry_def)
  obtain r c' where l: "lookup ''ns'' ''k'' 0 sample_key sample_registered = (r, c')" by fastforce
  from lookup_gate [OF sample_registered_shared sample_within(1) k refl l] e show ?thesis
    unfolding l by auto
qed

text \<open>C5.  A new, correctly described object that the admission policy accepts and that fits into free host
  memory is registered, and reading it back at once gives the registered payload, provided SHA-256 separates
  the blocks involved.\<close>

theorem register_read_back:
  assumes c: "shared ops n c" "Suc n * BMAX \<le> LIMIT"
    and oid: "oid = object_id (address_new namespace key generation)" "tc_entries c (oid_to_hex oid) = None"
    and geo: "shape_byte_len (ck_shape k) (byte_size (ck_dtype k)) = Inr (of_nat (length payload))" "length payload < 2 ^ 63"
    and ch: "chunk payload (rc_block_size (tc_config c)) = Inr blocks" "new_host_bytes blocks c \<le> host_free c"
    and ad: "is_admit (evaluate_ignoring_capacity (rc_admission (tc_config c))
      (admission_candidate_of (tc_config c) oid k (of_nat (length payload))) (tc_accounting c))"
    and inj: "inj_on hash (set (pieces (unat (rc_block_size (tc_config c))) payload) \<union> ran (ar_blocks (tc_host c)))"
  shows "\<exists>c'. register ops namespace key generation k payload c = (Inr oid, c') \<and> materialize_payload ops oid c' = (Inr payload, c')"
proof -
  have s: "budgets_ok c" "refs_ok (n * BMAX) c" "n * BMAX + BMAX \<le> LIMIT"
    using shared_sound [OF c(1)] c(2) by (simp_all add: sound_def)
  from register_total [OF s oid geo ch ad] obtain c' where
    r: "register ops namespace key generation k payload c = (Inr oid, c')" by blast
  then show ?thesis using register_materialize [OF r s geo(2) inj] by blast
qed

theorem register_read_back_witness:
  "\<exists>c'. register cpu_ops ''ns'' ''k'' 0 sample_key [1, 2, 3] sample_cache = (Inr sample_oid, c') \<and>
     materialize_payload cpu_ops sample_oid c' = (Inr [1, 2, 3], c')"
proof (rule register_read_back [OF sample_shared sample_within(3) refl])
  show "chunk [1, 2, 3] (rc_block_size (tc_config sample_cache)) = Inr [sample_block]"
    using chunk_one_block by (simp add: sample_cache_def sample_config_def)
  show "new_host_bytes [sample_block] sample_cache \<le> host_free sample_cache"
    by (simp add: new_host_bytes_def arena_contains_def sample_cache_def arena_new_def)
       (simp add: sample_host_budget [unfolded sample_cache_def, simplified] host_free_def acct_free_def budget_free_def
         saturating_sub_def saturating_add_def checked_add_def)
  show "inj_on hash (set (pieces (unat (rc_block_size (tc_config sample_cache))) [1, 2, 3]) \<union> ran (ar_blocks (tc_host sample_cache)))"
    by (simp add: sample_cache_def sample_config_def arena_new_def pieces.simps)
qed (use sample_byte_len sample_admitted in \<open>simp_all add: sample_cache_def\<close>)

text \<open>C6.  Whatever a read without an accelerator copy returns, from host memory or from disk, has the size of the
  entry and consists of blocks with the digests, lengths and CRCs the entry lists: corrupt or missing data is an
  error and never a payload.\<close>

theorem reads_verified:
  assumes "shared ops n c" "n * BMAX \<le> LIMIT" "tc_entries c (oid_to_hex oid) = Some e"
    "has_tier e Host \<or> first_device (en_placements e) = None" "materialize_payload ops oid c = (Inr bytes, c')"
  shows "length bytes = unat (en_byte_len e) \<and> verified (en_blocks e) bytes"
  using shared_sound [OF assms(1,2)] materialize_payload_verified [OF _ assms(3-5)] by (simp add: sound_def refs_ok_def)

theorem reads_verified_witness: "verified [sample_block] [1, 2, 3]"
  using reads_verified [OF sample_registered_shared sample_within(1) _ _ sample_read, of sample_entry]
  by (simp add: sample_entry_def has_tier_def)

text \<open>C7.  The life of a persistent directory: it is empty at first, and then any number of processes use it one after the other,
  with CPU backends and one block size, each running any commands on objects whose strings and sizes are possible in
  Rust, while any file operation may fail.  A persistent copy is never damaged: every block it lists has a file with the right digest, also
  when objects share blocks and some of them are deleted, and if the layout of the object is valid for its shape, its
  manifest is on disk and describes it.  (An object with an invalid layout is accepted too, and its manifest cannot be
  decoded: see the findings.)\<close>

theorem durable_objects_intact:
  assumes "disk_history bs n c" "n * BMAX \<le> LIMIT" "tc_entries c (oid_to_hex oid) = Some e" "has_tier e Persistent"
  shows "(\<forall>st. tc_persistent c = Some st \<longrightarrow> (\<forall>b \<in> set (en_blocks e). file_ok st (br_content_hash b))) \<and>
    (valid_key (en_compat e) \<longrightarrow> (\<exists>st m. tc_persistent c = Some st \<and>
      st_files st (ManifestsDir, oid_to_hex oid @ ''.manifest'') = Some (encode_manifest m) \<and> describes m e))"
  using durable_intact [OF disk_history_inv [OF assms(1,2)] assms(3,4)] by blast

theorem durable_objects_intact_witness:
  "\<exists>st m. tc_persistent sample_persisted = Some st \<and> file_ok st (hash [1, 2, 3]) \<and>
     st_files st (ManifestsDir, oid_to_hex sample_oid @ ''.manifest'') = Some (encode_manifest m) \<and> pe_compat m = sample_key"
proof -
  have "2 * BMAX \<le> LIMIT" by (simp add: BMAX_def LIMIT_def)
  from durable_objects_intact [OF sample_history this, of sample_oid sample_durable] sample_key_valid show ?thesis
    by (auto simp: sample_persist(2) sample_durable_def sample_entry_def has_tier_def describes_def)
qed

text \<open>C8.  Restart after a crash.  In a history as above, take an object with a persistent copy whose layout is valid for its
  shape, and a payload that cuts into the blocks of the object.  A new process that opens the directory as it was left,
  with any backends and block size, and whose file operations work, comes up, has the object with its address and
  compatibility key, and reads exactly that payload, provided SHA-256 separates the blocks involved.\<close>

theorem crash_recovery:
  assumes "disk_history bs n c" "n * BMAX \<le> LIMIT" "tc_entries c (oid_to_hex oid) = Some e" "has_tier e Persistent"
    "valid_key (en_compat e)"
    "tc_persistent c = Some st" "payload_of bs e payload" "inj_on hash (set (pieces (unat bs) payload) \<union> block_data st)"
    "rc_block_size cfg \<noteq> 0" "rc_persistent_path cfg \<noteq> None" "oid_to_hex oid @ ''.manifest'' \<in> set names"
  shows "\<exists>d e'. with_backends ops cpu cfg extra (st\<lparr>st_faults := [], st_pid := pid\<rparr>) blocks manifests names clock iter = Inr d \<and>
    materialize_payload ops oid d = (Inr payload, d) \<and> tc_entries d (oid_to_hex oid) = Some e' \<and>
    en_compat e' = en_compat e \<and> en_address e' = en_address e \<and> en_durable e'"
  by (rule crash_recovers [OF disk_history_inv [OF assms(1,2)] assms(3-)]) blast

theorem crash_recovery_witness:
  "\<exists>st d. tc_persistent sample_persisted = Some st \<and>
     with_backends cpu_ops cpu_new sample_config [] (st\<lparr>st_faults := [], st_pid := 7\<rparr>) [] [] [oid_to_hex sample_oid @ ''.manifest''] (\<lambda>_. 0) (\<lambda>_. []) = Inr d \<and>
     materialize_payload cpu_ops sample_oid d = (Inr [1, 2, 3], d)"
proof -
  obtain st where st: "tc_persistent sample_persisted = Some st" "block_data st \<subseteq> {[1, 2, 3]}"
    using sample_persist(3) by (auto simp: quiet_disk_def)
  have "\<exists>d e'. with_backends cpu_ops cpu_new sample_config [] (st\<lparr>st_faults := [], st_pid := 7\<rparr>) [] [] [oid_to_hex sample_oid @ ''.manifest'']
      (\<lambda>_. 0) (\<lambda>_. []) = Inr d \<and> materialize_payload cpu_ops sample_oid d = (Inr [1, 2, 3], d) \<and>
      tc_entries d (oid_to_hex sample_oid) = Some e' \<and> en_compat e' = en_compat sample_durable \<and>
      en_address e' = en_address sample_durable \<and> en_durable e'"
  proof (rule crash_recovery [OF sample_history])
    show "2 * BMAX \<le> LIMIT" by (simp add: BMAX_def LIMIT_def)
    show "payload_of 4 sample_durable [1, 2, 3]"
      using chunk_one_block by (simp add: payload_of_def sample_durable_def sample_entry_def)
    show "inj_on hash (set (pieces (unat (4 :: u64)) [1, 2, 3]) \<union> block_data st)"
      by (rule inj_on_subset [of _ "{[1, 2, 3]}"]) (use st(2) in \<open>simp_all add: pieces.simps\<close>)
    show "valid_key (en_compat sample_durable)" using sample_key_valid by (simp add: sample_durable_def sample_entry_def)
  qed (simp_all add: st(1) sample_persist(2) sample_durable_def has_tier_def sample_config_def)
  with st(1) show ?thesis by blast
qed

text \<open>C9.  Demoting an object, whether it succeeds or fails at any step, never leaves it without a copy: its source
  copy or the copy in the next lower tier is there, and after success the lower one is.\<close>

theorem demote_never_loses:
  assumes "demote ops oid src c = (r, c')" "tc_entries c (oid_to_hex oid) = Some e" "has_tier e src" "next_lower src = Inr target"
  shows "\<exists>e'. tc_entries c' (oid_to_hex oid) = Some e' \<and> (has_tier e' src \<or> has_tier e' target) \<and> (r = Inr () \<longrightarrow> has_tier e' target)"
  by (rule demote_keeps [OF assms])

theorem demote_never_loses_witness:
  "\<exists>e'. tc_entries (snd (demote cpu_ops sample_oid Host sample_persisted)) (oid_to_hex sample_oid) = Some e' \<and>
     (has_tier e' Host \<or> has_tier e' Persistent)"
  using demote_never_loses [of cpu_ops sample_oid Host sample_persisted "fst (demote cpu_ops sample_oid Host sample_persisted)"
      "snd (demote cpu_ops sample_oid Host sample_persisted)" sample_durable Persistent]
  by (auto simp: sample_persist(2) sample_durable_def has_tier_def)

text \<open>C10.  A successful deletion removes the entry of the object and touches no other entry, and it is durable: on a
  disk without faults, where no foreign manifest file carries the same object id, no file is added, and a new process
  that recovers the directory does not find the object.\<close>

theorem delete_exact:
  assumes "delete ops oid c = (Inr (), c')"
  shows "tc_entries c' = (tc_entries c)(oid_to_hex oid := None) \<and>
    (\<forall>st. tc_persistent c = Some st \<and> wf_oid oid \<and> st_faults st = [] \<and>
        (\<forall>name m. st_files st (ManifestsDir, name) = Some (encode_manifest m) \<and> oid_from_hex (pe_object_id m) = Inr oid \<longrightarrow>
          name = oid_to_hex oid @ ''.manifest'') \<longrightarrow>
      (\<exists>st'. tc_persistent c' = Some st' \<and> st_files st' \<subseteq>\<^sub>m st_files st \<and>
        (\<forall>d names. tc_entries d (oid_to_hex oid) = None \<and> tc_persistent d = Some st' \<longrightarrow>
          tc_entries (snd (recover names d)) (oid_to_hex oid) = None)))"
proof (intro conjI allI impI delete_entries [OF assms], elim conjE)
  fix st assume st: "tc_persistent c = Some st" "wf_oid oid" "st_faults st = []"
    and unique: "\<forall>name m. st_files st (ManifestsDir, name) = Some (encode_manifest m) \<and> oid_from_hex (pe_object_id m) = Inr oid \<longrightarrow>
      name = oid_to_hex oid @ ''.manifest''"
  from assms st(2,1,3) obtain st' where st': "tc_persistent c' = Some st'" "st_files st' \<subseteq>\<^sub>m st_files st" by (rule delete_shrinks)
  have "tc_entries (snd (recover names d)) (oid_to_hex oid) = None"
    if "tc_entries d (oid_to_hex oid) = None" "tc_persistent d = Some st'" for d names
    by (rule delete_restart [OF assms st(2,1,3) _ that(1)]) (use unique that st' in \<open>auto simp: prod_eq_iff\<close>)
  with st' show "\<exists>st'. tc_persistent c' = Some st' \<and> st_files st' \<subseteq>\<^sub>m st_files st \<and>
        (\<forall>d names. tc_entries d (oid_to_hex oid) = None \<and> tc_persistent d = Some st' \<longrightarrow>
          tc_entries (snd (recover names d)) (oid_to_hex oid) = None)" by blast
qed

theorem delete_exact_witness:
  "\<exists>c' st'. delete cpu_ops sample_oid sample_persisted = (Inr (), c') \<and> tc_entries c' = Map.empty \<and> tc_persistent c' = Some st' \<and>
     tc_entries (snd (recover [oid_to_hex sample_oid @ ''.manifest''] (sample_cache\<lparr>tc_persistent := Some st'\<rparr>))) (oid_to_hex sample_oid) = None"
proof -
  have "\<exists>c'. delete cpu_ops sample_oid sample_persisted = (Inr (), c')"
    by (simp add: delete_def get_meta_def sample_persist(2,4,5) sample_durable_def placement_tiers_def remove_placement_def upd_entry_def
        release_def on_accounting_def sub_bytes_def on_tier_def sub_used_def remove_at_def Let_def st_then_def)
  then obtain c' where d: "delete cpu_ops sample_oid sample_persisted = (Inr (), c')" by blast
  obtain st where st: "tc_persistent sample_persisted = Some st" "st_faults st = []"
    "\<forall>name x. st_files st (ManifestsDir, name) = Some x \<longrightarrow> name = oid_to_hex sample_oid @ ''.manifest''"
    using sample_persist(3) by (auto simp: quiet_disk_def)
  have "tc_entries c' = Map.empty \<and> (\<exists>st'. tc_persistent c' = Some st' \<and>
      (\<forall>(d :: cpu_backend cache) names. tc_entries d (oid_to_hex sample_oid) = None \<and> tc_persistent d = Some st' \<longrightarrow>
        tc_entries (snd (recover names d)) (oid_to_hex sample_oid) = None))"
    using delete_exact [OF d] st by (auto simp: sample_persist(2))
  then obtain st' where e: "tc_entries c' = Map.empty" "tc_persistent c' = Some st'" and r: "\<And>(d :: cpu_backend cache) names.
      tc_entries d (oid_to_hex sample_oid) = None \<Longrightarrow> tc_persistent d = Some st' \<Longrightarrow>
        tc_entries (snd (recover names d)) (oid_to_hex sample_oid) = None" by blast
  have "tc_entries (snd (recover [oid_to_hex sample_oid @ ''.manifest''] (sample_cache\<lparr>tc_persistent := Some st'\<rparr>))) (oid_to_hex sample_oid) = None"
    by (rule r) (simp_all add: sample_cache_def)
  with d e show ?thesis by blast
qed

text \<open>C11.  Memory pressure never touches a durable object: registering any other object, with all the eviction it may
  trigger, leaves the entry of a durable object as it was.\<close>

theorem durable_objects_survive:
  assumes "shared ops n c" "n * BMAX \<le> LIMIT" "rust_key k" "tc_entries c key = Some e" "en_durable e"
  shows "tc_entries (snd (register ops namespace name generation k payload c)) key = Some e"
  using shared_sound [OF assms(1,2)] by (intro register_durable [OF _ assms(3-5)]) (simp add: sound_def)

theorem durable_objects_survive_witness:
  "tc_entries (snd (register cpu_ops ''ns'' ''k'' 1 compat_default [1] sample_persisted)) (oid_to_hex sample_oid) = Some sample_durable"
proof (rule durable_objects_survive [OF sample_persisted_shared])
  show "rust_key compat_default" by (simp add: rust_key_def compat_default_def wf_shape_def)
qed (simp_all add: sample_persist(2) sample_durable_def BMAX_def LIMIT_def)

text \<open>C12.  A payload copied to an accelerator tier of the CPU backend reads back from that tier unchanged.\<close>

theorem accelerator_roundtrip:
  assumes "registry_get cpu_ops i (tc_backends c) = Some b" "cpu_inv b" "tc_entries c (oid_to_hex oid) = Some e"
    "\<not> has_tier e (Accelerator i)" "en_byte_len e = of_nat (length bytes)" "length bytes < 2 ^ 63"
    "add_placement cpu_ops oid (Accelerator i) bytes c = (Inr (), c')"
  shows "materialize_from cpu_ops oid (Accelerator i) c' = (Inr bytes, c')"
  by (rule cpu.accelerator_copy [OF assms])

theorem accelerator_roundtrip_witness:
  "\<exists>c'. add_placement cpu_ops sample_oid (Accelerator (backend_cpu 0)) [1, 2, 3] sample_registered = (Inr (), c') \<and>
     materialize_from cpu_ops sample_oid (Accelerator (backend_cpu 0)) c' = (Inr [1, 2, 3], c')"
proof -
  have "\<exists>c'. add_placement cpu_ops sample_oid (Accelerator (backend_cpu 0)) [1, 2, 3] sample_registered = (Inr (), c')"
    by (simp add: add_placement_def get_meta_def sample_entry_def add_accelerator_def backend_def cpu_ops_def cpu_new_def
        cpu_allocate_def checked_add_def vec_zeroed_def cpu_to_device_def copy_from_slice_def Let_def)
  then obtain c' where c': "add_placement cpu_ops sample_oid (Accelerator (backend_cpu 0)) [1, 2, 3] sample_registered = (Inr (), c')"
    by blast
  have "materialize_from cpu_ops sample_oid (Accelerator (backend_cpu 0)) c' = (Inr [1, 2, 3], c')"
    by (rule accelerator_roundtrip [OF _ _ _ _ _ _ c', of "cpu_new 0 100" sample_entry])
       (simp_all add: cpu_ops_def cpu_new_def cpu_inv_def sample_entry_def has_tier_def)
  with c' show ?thesis by blast
qed

text \<open>C13.  When the disk answers, verification of an object succeeds exactly if the payload has the recorded length and
  every placement of the object, read on its own, gives that same payload; it changes nothing, and its report counts
  all placements.\<close>

theorem verify_exact:
  assumes "quiet c" "tc_entries c (oid_to_hex oid) = Some e"
  shows "verify ops oid c = (Inr rep, c') \<longleftrightarrow> c' = c \<and> (\<exists>bytes. materialize_payload ops oid c = (Inr bytes, c) \<and>
    of_nat (length bytes) = en_byte_len e \<and> (\<forall>t \<in> set (placement_tiers e). materialize_from ops oid t c = (Inr bytes, c)) \<and>
    rep = \<lparr>ir_object_id = oid_to_hex oid, ir_checked_placements = of_nat (length (placement_tiers e)),
      ir_verified_bytes = en_byte_len e, ir_clean = True\<rparr>)"
  by (rule verify_iff [OF assms])

theorem verify_exact_witness:
  "verify cpu_ops sample_oid sample_registered =
     (Inr \<lparr>ir_object_id = oid_to_hex sample_oid, ir_checked_placements = 1, ir_verified_bytes = 3, ir_clean = True\<rparr>, sample_registered)"
proof -
  have "materialize_from cpu_ops sample_oid Host sample_registered = (Inr [1, 2, 3], sample_registered)"
    using sample_read by (simp add: materialize_from_def materialize_payload_def get_meta_def sample_entry_def placement_tiers_def)
  then show ?thesis
    using sample_read by (subst verify_exact [of _ _ sample_entry]) (simp_all add: quiet_def sample_entry_def placement_tiers_def)
qed
section \<open>Device memory\<close>

text \<open>C14.  In a cache with CPU and CUDA backends side by side, as a node with the CUDA feature has it, and with any CUDA
  runtime library that keeps its documented promises on live allocations, a payload copied to an accelerator tier reads
  back from that tier unchanged.\<close>

theorem cuda_roundtrip:
  assumes "driver_ok api live" "registry_get (node_ops api) i (tc_backends c) = Some b" "node_backend_inv b"
    "tc_entries c (oid_to_hex oid) = Some e" "\<not> has_tier e (Accelerator i)" "en_byte_len e = of_nat (length bytes)"
    "length bytes < 2 ^ 63" "add_placement (node_ops api) oid (Accelerator i) bytes c = (Inr (), c')"
  shows "materialize_from (node_ops api) oid (Accelerator i) c' = (Inr bytes, c')"
  by (rule device_backend.accelerator_copy [OF node_contract [OF assms(1)] assms(2-)])

text \<open>A device with a flat memory and a bump allocator keeps the promises.\<close>

definition flat_write :: "u64 \<Rightarrow> u8 list \<Rightarrow> (u64 \<Rightarrow> u8) \<Rightarrow> u64 \<Rightarrow> u8" where
  "flat_write p bs m a = (if unat (a - p) < length bs then bs ! unat (a - p) else m a)"

definition flat_api :: "(u64 \<times> (u64 \<Rightarrow> u8)) cuda_api" where
  "flat_api = \<lparr>get_device_count = (\<lambda>d. ((0, 1), d)), set_device = (\<lambda>_ d. (0, d)),
     cuda_malloc = (\<lambda>n (next, m). if unat next + unat n < 2 ^ 63 then ((0, next), (next + n, m)) else ((2, 0), (next, m))),
     memcpy_h2d = (\<lambda>p bs (next, m). (0, (next, flat_write p bs m))),
     memcpy_d2h = (\<lambda>p n (next, m). (0, map (\<lambda>i. m (p + of_nat i)) [0..<unat n])),
     free_ptr = (\<lambda>p d. (0, d)),
     memset_ptr = (\<lambda>p v n (next, m). (0, (next, flat_write p (replicate (unat n) (of_int v)) m))),
     get_error_string = (\<lambda>_. Some ''out of memory'')\<rparr>"

definition flat_live :: "u64 \<times> (u64 \<Rightarrow> u8) \<Rightarrow> u64 \<Rightarrow> u8 list \<Rightarrow> bool" where
  "flat_live d p xs \<longleftrightarrow> length xs < 2 ^ 63 \<and> (\<forall>i < length xs. snd d (p + of_nat i) = xs ! i)"

lemma flat_write_live:
  assumes "flat_live (next, m) p xs" "unat offset + length bs \<le> length xs"
  shows "flat_live (next', flat_write (p + offset) bs m) p (take (unat offset) xs @ bs @ drop (unat offset + length bs) xs)"
proof -
  have len: "length xs < 2 ^ 63" and at: "\<And>i. i < length xs \<Longrightarrow> m (p + of_nat i) = xs ! i"
    using assms(1) by (simp_all add: flat_live_def)
  have "flat_write (p + offset) bs m (p + of_nat i) = (take (unat offset) xs @ bs @ drop (unat offset + length bs) xs) ! i" if "i < length xs" for i
  proof -
    have i: "unat (of_nat i :: u64) = i" using that len by (simp add: word_nat)
    have d: "p + of_nat i - (p + offset) = of_nat i - offset" by simp
    show ?thesis
    proof (cases "unat offset \<le> i")
      case True
      then have "unat (of_nat i - offset) = i - unat offset" using i by (simp add: unat_sub_fits word_le_nat_alt)
      then show ?thesis using True at [OF that] assms(2) that by (auto simp: flat_write_def d nth_append min_def)
    next
      case False
      then have "(of_nat i :: u64) < offset" using i by (simp add: word_less_nat_alt)
      then have "unat (of_nat i - offset) = 2 ^ 64 - (unat offset - i)"
        using i False by (simp add: unat_sub_if_size size_word_def)
      then have "\<not> unat (of_nat i - offset) < length bs" using False assms(2) len by simp
      then show ?thesis using False at [OF that] assms(2) by (simp add: flat_write_def d nth_append)
    qed
  qed
  then show ?thesis using len assms(2) by (simp add: flat_live_def)
qed

lemma flat_driver: "driver_ok flat_api flat_live"
  unfolding driver_ok_def
proof (intro conjI allI impI)
  show "\<exists>xs. length xs = unat n \<and> flat_live d' p xs" if "cuda_malloc flat_api n d = ((0, p), d')" "p \<noteq> 0" for n d p d'
    using that by (intro exI [of _ "map (\<lambda>i. snd d' (p + of_nat i)) [0..<unat n]"])
      (auto simp: flat_api_def flat_live_def split: prod.splits if_splits)
  show "\<exists>d'. memcpy_h2d flat_api (p + offset) bs d = (0, d') \<and> flat_live d' p (take (unat offset) xs @ bs @ drop (unat offset + length bs) xs)"
    if "flat_live d p xs" "unat offset + length bs \<le> length xs" for d p xs offset bs
    using that flat_write_live [of "fst d" "snd d" p xs offset bs] by (cases d) (simp add: flat_api_def)
  show "memcpy_d2h flat_api (p + offset) n d = (0, take (unat n) (drop (unat offset) xs))"
    if "flat_live d p xs" "unat offset + unat n \<le> length xs" for d p xs offset n
  proof -
    have "snd d (p + offset + of_nat i) = xs ! (unat offset + i)" if "i < unat n" for i
      using \<open>flat_live d p xs\<close> \<open>unat offset + unat n \<le> length xs\<close> that
      by (auto simp: flat_live_def dest!: spec [of _ "unat offset + i"] simp: add.assoc)
    then show ?thesis using that(2) by (cases d) (auto simp: flat_api_def intro!: nth_equalityI)
  qed
  show "\<exists>d'. memset_ptr flat_api p (uint v) n d = (0, d') \<and> flat_live d' p (replicate (unat n) v @ drop (unat n) xs)"
    if "flat_live d p xs" "unat n \<le> length xs" for d p xs v n
    using that flat_write_live [of "fst d" "snd d" p xs 0 "replicate (unat n) v"] by (cases d) (simp add: flat_api_def)
  show "\<exists>d'. free_ptr flat_api p d = (0, d')" if "flat_live d p xs" for d p xs
    by (simp add: flat_api_def)
qed

definition sample_cuda :: "(cpu_backend + (u64 \<times> (u64 \<Rightarrow> u8)) cuda_backend) cache" where
  "sample_cuda = \<lparr>tc_entries = [oid_to_hex sample_oid \<mapsto> sample_entry], tc_host = arena_new, tc_persistent_refs = Map.empty,
     tc_storage_used = 0, tc_accel_used = 0, tc_accounting = accounting_new, tc_object_count = 1,
     tc_backends = [Inl (cpu_new 0 100), Inr \<lparr>cu_id = backend_cuda 0, cu_capacity = 100, cu_allocated = 0, cu_device = (4096, \<lambda>_. 0)\<rparr>],
     tc_config = sample_config, tc_persistent = None, tc_clock = (\<lambda>_. 0), tc_ticks = 0, tc_iter = (\<lambda>_. [])\<rparr>"

theorem cuda_roundtrip_witness:
  "\<exists>c'. add_placement (node_ops flat_api) sample_oid (Accelerator (backend_cuda 0)) [1, 2, 3] sample_cuda = (Inr (), c') \<and>
     materialize_from (node_ops flat_api) sample_oid (Accelerator (backend_cuda 0)) c' = (Inr [1, 2, 3], c')"
proof -
  have "\<exists>c'. add_placement (node_ops flat_api) sample_oid (Accelerator (backend_cuda 0)) [1, 2, 3] sample_cuda = (Inr (), c')"
    by (simp add: add_placement_def get_meta_def sample_cuda_def sample_entry_def add_accelerator_def backend_def either_ops_def
        cpu_ops_def cuda_ops_def cpu_new_def backend_cpu_def backend_cuda_def put_backend_def cuda_allocate_def checked_add_def flat_api_def cuda_to_device_def copy_to_def dev_ptr_def Let_def)
  then obtain c' where c': "add_placement (node_ops flat_api) sample_oid (Accelerator (backend_cuda 0)) [1, 2, 3] sample_cuda = (Inr (), c')"
    by blast
  have "materialize_from (node_ops flat_api) sample_oid (Accelerator (backend_cuda 0)) c' = (Inr [1, 2, 3], c')"
    by (rule cuda_roundtrip [OF flat_driver _ _ _ _ _ _ c', of "tc_backends sample_cuda ! 1" sample_entry])
       (simp_all add: sample_cuda_def either_ops_def cpu_ops_def cuda_ops_def cpu_new_def backend_cpu_def backend_cuda_def node_backend_inv_def
         cuda_inv_def sample_entry_def has_tier_def)
  with c' show ?thesis by blast
qed
section \<open>Nodes and servers\<close>

text \<open>C15.  A node process serves any number of connections at once, whose handlers interleave wherever they let go of the
  cache's mutex or wait for the network, and the network may do anything.  At every moment the byte counters of its cache
  are within the capacities and its resident blocks are readable, and its identity is unchanged.\<close>

theorem node_cache_invariants:
  assumes "node_run ops net nd n p" "opens ops (nd_tc nd)" "2 * n * BMAX \<le> LIMIT" "np_state p = (nd', w)"
  shows "nd' = nd\<lparr>nd_tc := nd_tc nd'\<rparr> \<and>
    unat (acct_used k (tc_accounting (nd_tc nd'))) + unat (acct_reserved k (tc_accounting (nd_tc nd')))
      \<le> unat (acct_capacity k (tc_accounting (nd_tc nd'))) \<and>
    (\<forall>key e refs b. tc_entries (nd_tc nd') key = Some e \<longrightarrow> PHost refs \<in> set (en_placements e) \<longrightarrow> b \<in> set refs \<longrightarrow>
      (\<exists>data. arena_get (tc_host (nd_tc nd')) (br_content_hash b) = Inr data \<and> hash data = br_content_hash b))"
proof -
  have s: "sound (2 * n * BMAX) (nd_tc nd')" "nd' = nd\<lparr>nd_tc := nd_tc nd'\<rparr>"
    using node_run_sound [OF assms(1-3)] assms(4) by simp_all
  then have b: "budgets_ok (nd_tc nd')" and r: "refs_ok (2 * n * BMAX) (nd_tc nd')" by (simp_all add: sound_def)
  show ?thesis using s(2) budgets_ok_bound [OF b] refs_ok_readable [OF r] by blast
qed

text \<open>The sample cluster: node \<open>n1\<close> owns the sample object, node \<open>n2\<close> at address \<open>a2\<close> is empty, and the coordinator at
  \<open>a1\<close> knows the owner.\<close>

definition sample_node :: "cpu_backend node" where
  "sample_node = \<lparr>nd_id = ''n1'', nd_addr = ''a0'', nd_coordinator_addr = ''a1'', nd_tc = sample_registered, nd_lease_ns = 5\<rparr>"

definition sample_server :: server where
  "sample_server = \<lparr>sv_coord = snd (handle 0 (Create ''ns'' ''k'' 0 3 [] ''n1'') (coord_new (BootId ''n1'') 5)),
     sv_clock = (\<lambda>_. 0), sv_ticks = 0, sv_iter = (\<lambda>c. filter (\<lambda>k. co_objects c k \<noteq> None) [oid_to_hex sample_oid]),
     sv_snapshot = None, sv_saves = []\<rparr>"

definition sample_cluster :: "cpu_backend cluster" where
  "sample_cluster = \<lparr>cl_coord_addr = ''a1'', cl_server = sample_server, cl_snap = True,
     cl_peers = [''a2'' \<mapsto> sample_node\<lparr>nd_id := ''n2'', nd_addr := ''a2'', nd_tc := sample_cache\<rparr>]\<rparr>"

definition sample_world :: "cpu_backend world" where
  "sample_world = \<lparr>wd_cluster = sample_cluster, wd_conns = Map.empty, wd_next = 0\<rparr>"

lemma sample_opens: "opens cpu_ops sample_cache"
  unfolding opens_def using sample_cache_open by blast

theorem node_cache_invariants_witness:
  "\<exists>p. node_run cpu_ops (net_of (answer cpu_ops 1)) (sample_node\<lparr>nd_tc := sample_cache\<rparr>) 1 p \<and> np_conns p \<noteq> [] \<and>
     unat (acct_used KHost (tc_accounting (nd_tc (fst (np_state p))))) \<le> unat (acct_capacity KHost (tc_accounting (nd_tc (fst (np_state p)))))"
proof -
  let ?nd = "sample_node\<lparr>nd_tc := sample_cache\<rparr>" and ?net = "net_of (answer cpu_ops 1) :: cpu_backend world net"
  let ?cn = "\<lparr>cn_in = [Chunk (msg_encode_frame (Fetch [] []))], cn_wc = fresh, cn_state = Serving\<rparr>"
  let ?p = "\<lparr>np_state = (?nd, sample_world), np_conns = [\<lparr>nc_conn = ?cn, nc_call = None\<rparr>]\<rparr> :: (cpu_backend, cpu_backend world) node_proc"
  have "node_run cpu_ops ?net ?nd (0 + 0) ?p"
    using node_run.step [OF node_run.start node_step.accept [of cpu_ops ?net "\<lparr>np_state = (?nd, sample_world), np_conns = []\<rparr>" "cn_in ?cn" fresh]]
    by simp
  from node_run.step [OF this node_step.serve [of 0 ?p _ _ 1 _ "node_receive cpu_ops ?net ?cn"]] conn_step.receive [of ?cn cpu_ops ?net "np_state ?p"]
  have run: "node_run cpu_ops ?net ?nd 1 (?p\<lparr>np_conns := [node_receive cpu_ops ?net ?cn]\<rparr>)" by simp
  have "2 * 1 * BMAX \<le> LIMIT" by (simp add: BMAX_def LIMIT_def)
  from node_cache_invariants [OF run _ this, of ?nd sample_world KHost] sample_opens run show ?thesis
    by (intro exI [of _ "?p\<lparr>np_conns := [node_receive cpu_ops ?net ?cn]\<rparr>"]) simp
qed




text \<open>C17.  A server over bytes is the message handler: on any stream that carries the frames of a list of messages,
  however the network cuts it, the coordinator process makes exactly the turns of those messages in order and writes
  exactly the frames of the responses.\<close>

theorem server_refines_handler:
  assumes "clean es" "stream_bytes es = wire ms" "\<forall>m \<in> set ms. sendable m" "wc_faults wc = []"
    "turns (coordinator_turn snap) ms sv = (Inr rs, sv')"
  shows "serve_coordinator_connection snap es wc sv = (Inr (), wc\<lparr>wc_out := wc_out wc @ wire rs\<rparr>, sv')"
  unfolding serve_coordinator_connection_def by (rule serve_loop_turns [OF assms])

lemma sendable_heartbeat: "sendable (Heartbeat ''n1'' 1)"
  by (simp add: sendable_def sample_strings wire_lengths MAX_FRAME_def)

theorem server_refines_handler_witness:
  "serve_coordinator_connection False [Chunk (take 7 (msg_encode_frame (Heartbeat ''n1'' 1))), Interrupted,
       Chunk (drop 7 (msg_encode_frame (Heartbeat ''n1'' 1)))] fresh sample_server =
     (Inr (), fresh, sample_server\<lparr>sv_ticks := 1\<rparr>)"
proof -
  have ne: "take 7 (msg_encode_frame (Heartbeat ''n1'' 1)) \<noteq> []" "drop 7 (msg_encode_frame (Heartbeat ''n1'' 1)) \<noteq> []"
    by (simp_all add: msg_encode_frame_def encode_frame_header frame_header_nonempty del: msg_encode.simps)
  have "turns (coordinator_turn False) [Heartbeat ''n1'' 1] sample_server = (Inr [], sample_server\<lparr>sv_ticks := 1\<rparr>)"
    by (simp add: coordinator_turn_def sample_server_def st_then_def)
  from server_refines_handler [OF _ _ _ _ this, of "[Chunk (take 7 (msg_encode_frame (Heartbeat ''n1'' 1))), Interrupted,
       Chunk (drop 7 (msg_encode_frame (Heartbeat ''n1'' 1)))]" fresh] ne sendable_heartbeat
  show ?thesis by (simp add: event_ok_def event_bytes_def fresh_def del: msg_encode.simps)
qed

text \<open>C18.  What a restart of the coordinator finds after one turn, for every outcome of the snapshot write, which comes before
  any response is written; the hash map is iterated once over each object.  The responses and the state do not depend on the outcome (its error is dropped).  After a
  complete write a new process comes up with every owner and every fence of the state the responses speak of, in the next
  epoch; a file that was cut short anywhere is refused and no process comes up; and after a write that failed outright the
  file is the one of before, so that the answers are ahead of the snapshot.\<close>

theorem snapshot_outcomes:
  assumes "coord_run n (coord_new boot0 lease0) (sv_coord sv)" "coordinator_turn True msg sv = (r, sv')" "msg_ok msg"
    "distinct (sv_iter sv (sv_coord sv'))" "set (sv_iter sv (sv_coord sv')) = dom (co_objects (sv_coord sv'))"
    "fits (sv_iter sv (sv_coord sv'))"
  shows "fst (coordinator_turn True msg (sv\<lparr>sv_saves := fs\<rparr>)) = r \<and>
    sv_coord (snd (coordinator_turn True msg (sv\<lparr>sv_saves := fs\<rparr>))) = sv_coord sv' \<and>
    (case next_save sv of
       Saved \<Rightarrow> \<exists>file c'. sv_snapshot sv' = Some file \<and> start_coordinator lease True (Some (Inr file)) boot boot' = Inr c' \<and>
         co_epoch c' = epoch_next (co_epoch (sv_coord sv')) \<and>
         (\<forall>oid. map_option os_owner (co_objects c' oid) = map_option os_owner (co_objects (sv_coord sv') oid) \<and>
           map_option os_fence (co_objects c' oid) = map_option os_fence (co_objects (sv_coord sv') oid))
     | SaveCut k \<Rightarrow> k < length (save_state (sv_iter sv (sv_coord sv')) (sv_coord sv')) \<longrightarrow>
         (\<exists>file e. sv_snapshot sv' = Some file \<and> start_coordinator lease True (Some (Inr file)) boot boot' = Inl e)
     | SaveFailed \<Rightarrow> sv_snapshot sv' = sv_snapshot sv)"
proof -
  note saved = coordinator_turn_saved [OF assms(2) coord_run_inv [OF assms(1) coord_new_inv] assms(3-), where boot = boot' and ?c0.0 = "coord_new boot lease"]
    and snap = coordinator_turn_snapshot(2) [OF assms(2)]
  show ?thesis
  proof (cases "next_save sv")
    case Saved
    from saved(1) [OF this] Saved show ?thesis
      using coordinator_turn_blind [of msg fs sv] by (auto simp: assms(2) start_coordinator_def option.map_comp o_def)
  next
    case (SaveCut k)
    have "\<exists>file e. sv_snapshot sv' = Some file \<and> start_coordinator lease True (Some (Inr file)) boot boot' = Inl e"
      if "k < length (save_state (sv_iter sv (sv_coord sv')) (sv_coord sv'))"
      using saved(2) [OF SaveCut that] by (auto simp: start_coordinator_def)
    with SaveCut show ?thesis using coordinator_turn_blind [of msg fs sv] by (simp add: assms(2))
  next
    case SaveFailed
    with snap show ?thesis using coordinator_turn_blind [of msg fs sv] by (simp add: assms(2))
  qed
qed

theorem snapshot_outcomes_witness:
  "\<exists>file c'. sv_snapshot (snd (coordinator_turn True (Create ''ns'' ''k'' 0 3 [] ''n1'') (sample_server\<lparr>sv_coord := coord_new (BootId ''n1'') 5\<rparr>))) = Some file \<and>
     start_coordinator 5 True (Some (Inr file)) (BootId ''n2'') (BootId ''n3'') = Inr c' \<and>
     map_option os_owner (co_objects c' (oid_to_hex sample_oid)) = Some ''n1''"
proof -
  let ?sv = "sample_server\<lparr>sv_coord := coord_new (BootId ''n1'') 5\<rparr>" and ?m = "Create ''ns'' ''k'' 0 3 [] ''n1''"
  obtain rs sv' where t: "coordinator_turn True ?m ?sv = (Inr rs, sv')" by (auto simp: coordinator_turn_def Let_def coord_new_def)
  have c: "co_objects (sv_coord sv') = [oid_to_hex sample_oid \<mapsto> \<lparr>os_owner = ''n1'', os_fence = 0, os_epoch = Epoch 1\<rparr>]"
    using t by (auto simp: coordinator_turn_def Let_def coord_new_def coord_object_id_def)
  have i: "sv_iter ?sv (sv_coord sv') = [oid_to_hex sample_oid]" by (simp add: sample_server_def c)
  have ok: "msg_ok ?m" "coord_run 0 (coord_new (BootId ''n1'') 5) (sv_coord ?sv)" "next_save ?sv = Saved"
    using sample_strings coord_run.none by (simp_all add: fits_def sample_server_def next_save_def)
  have it: "distinct (sv_iter ?sv (sv_coord sv'))" "set (sv_iter ?sv (sv_coord sv')) = dom (co_objects (sv_coord sv'))"
    "fits (sv_iter ?sv (sv_coord sv'))" unfolding i by (simp_all add: c fits_def)
  from snapshot_outcomes [OF ok(2) t ok(1) it, of "[]" 5 "BootId ''n2''" "BootId ''n3''", unfolded ok(3)] obtain fl c' where
    "sv_snapshot sv' = Some fl" "start_coordinator 5 True (Some (Inr fl)) (BootId ''n2'') (BootId ''n3'') = Inr c'"
    "map_option os_owner (co_objects c' (oid_to_hex sample_oid)) = map_option os_owner (co_objects (sv_coord sv') (oid_to_hex sample_oid))"
    by auto
  then show ?thesis by (auto simp: t c)
qed


section \<open>The persistent store\<close>

text \<open>C20.  Manifests: encoding and decoding are inverse, and whatever decodes is exactly the encoding of a manifest whose key is
  valid, whose sizes agree with its shape and whose block list passes validation; every other byte string is an
  error.  The block list of such a manifest is a partition of the object into consecutive nonempty blocks exactly if no
  block end wraps at 2 to the 64.\<close>

theorem manifest_codec:
  "(decode_manifest data = Inr m \<longleftrightarrow> meta_ok m \<and> data = encode_manifest m) \<and>
   (decode_manifest data = Inr m \<longrightarrow> valid_key (pe_compat m) \<and>
      shape_byte_len (ck_shape (pe_compat m)) (byte_size (ck_dtype (pe_compat m))) = Inr (pe_byte_len m) \<and>
      (covers 0 (pe_blocks m) (unat (pe_byte_len m)) \<longleftrightarrow> (\<forall>b \<in> set (pe_blocks m). unwrapped b)))"
proof -
  have iff: "decode_manifest data = Inr m \<longleftrightarrow> meta_ok m \<and> data = encode_manifest m"
    using decode_encode_manifest decode_manifest_sound by blast
  moreover have "valid_key (pe_compat m) \<and> shape_byte_len (ck_shape (pe_compat m)) (byte_size (ck_dtype (pe_compat m))) = Inr (pe_byte_len m) \<and>
      (covers 0 (pe_blocks m) (unat (pe_byte_len m)) \<longleftrightarrow> (\<forall>b \<in> set (pe_blocks m). unwrapped b))" if "meta_ok m"
    using that validate_partition by (auto simp: meta_ok_def body_ok_def)
  ultimately show ?thesis by blast
qed

theorem manifest_codec_witness:
  "decode_manifest (encode_manifest sample_meta) = Inr sample_meta \<and> covers 0 [sample_block] 3"
  using manifest_codec [of "encode_manifest sample_meta" sample_meta] sample_meta_ok by (simp add: unwrapped_def)

text \<open>C21.  Whatever system call of the atomic write fails, no other file changes; on success the file has
  exactly the new bytes and no temporary file is left; on failure the file has its old content or is gone,
  never a mixture.\<close>

theorem atomic_write_all_or_nothing:
  assumes "atomic_write path bytes st = (r, st')"
  shows "(\<forall>q. q \<noteq> path \<longrightarrow> q \<noteq> tmp_path path st \<longrightarrow> st_files st' q = st_files st q) \<and>
    (r = Inr () \<longrightarrow> st_files st' path = Some bytes \<and> st_files st' (tmp_path path st) = None) \<and>
    (r \<noteq> Inr () \<longrightarrow> st_files st' path = st_files st path \<or> st_files st' path = None)"
  using assms by (rule atomic_write_outcome)

theorem atomic_write_all_or_nothing_witness:
  "\<exists>st'. atomic_write (ManifestsDir, ''m'') [1] (empty_store\<lparr>st_faults := [None, Some (Fault ''disk full'' 0)]\<rparr>) = (Inl (Io ''disk full''), st') \<and>
     st_files st' (ManifestsDir, ''m'') = None"
proof -
  obtain r st' where w: "atomic_write (ManifestsDir, ''m'') [1] (empty_store\<lparr>st_faults := [None, Some (Fault ''disk full'' 0)]\<rparr>) = (r, st')"
    by fastforce
  then have r: "r = Inl (Io ''disk full'')"
    by (simp add: atomic_write_def fs_create_def fs_write_all_def io_call_def next_fault_def)
  from atomic_write_all_or_nothing [OF w] w r show ?thesis by simp
qed

text \<open>C22.  Recovery of the manifest directory changes no file and returns only manifests that are on disk intact, whatever file
  operation fails; when none fails, it returns every one of them.\<close>

theorem recovery_exact:
  "st_files (snd (store_recover names st)) = st_files st \<and>
   (m \<in> set (fst (store_recover names st)) \<longrightarrow> meta_ok m \<and> (\<exists>name \<in> set names.
      path_extension name = Some ''manifest'' \<and> st_files st (ManifestsDir, name) = Some (encode_manifest m))) \<and>
   (st_faults st = [] \<and> meta_ok m \<and> (\<exists>name \<in> set names.
      path_extension name = Some ''manifest'' \<and> st_files st (ManifestsDir, name) = Some (encode_manifest m)) \<longrightarrow>
    m \<in> set (fst (store_recover names st)))"
  using store_recover_sound [of names st "fst (store_recover names st)" "snd (store_recover names st)"] store_recover_complete [of st]
  by auto

theorem recovery_exact_witness:
  "sample_meta \<in> set (fst (store_recover [''x.tmp'', ''o.manifest'']
     (empty_store\<lparr>st_files := [(ManifestsDir, ''o.manifest'') \<mapsto> encode_manifest sample_meta]\<rparr>)))"
proof -
  have "path_extension ''o.manifest'' = Some ''manifest''" by (simp add: path_extension_def Let_def)
  then show ?thesis using recovery_exact [of "[''x.tmp'', ''o.manifest'']" "empty_store\<lparr>st_files := [(ManifestsDir, ''o.manifest'') \<mapsto> encode_manifest sample_meta]\<rparr>" sample_meta]
    by (simp add: sample_meta_ok)
qed

section \<open>Blocks\<close>

text \<open>C23.  Block lists.  Among lists in which no block end wraps at 2 to the 64, validation accepts exactly the partitions of the
  given size into consecutive nonempty blocks, up to the allowed number of blocks; lists that wrap can be accepted too,
  but reassembly succeeds on partitions only.  Cutting a payload gives a partition of it, and reassembling that, from
  any source that has the pieces under their digests, gives the payload back.\<close>

theorem blocks_partition:
  "(validate_block_list bs m = Inr () \<and> (\<forall>b \<in> set bs. unwrapped b) \<longleftrightarrow>
      of_nat (length bs) \<le> MAX_BLOCKS_PER_TENSOR \<and> covers 0 bs (unat m)) \<and>
   (reconstruct bs m get = Inr out \<longrightarrow> covers 0 bs (unat m)) \<and>
   (chunk bytes n = Inr bs \<and> length bytes < 2 ^ 63 \<and> (\<forall>p \<in> set (pieces (unat n) bytes). get (hash p) = Inr p) \<longrightarrow>
      covers 0 bs (length bytes) \<and> reconstruct bs (of_nat (length bytes)) get = Inr bytes)"
proof (intro conjI impI validate_covers)
  show "covers 0 bs (unat m)" if "reconstruct bs m get = Inr out" using that by (rule reconstruct_covers)
next
  assume "chunk bytes n = Inr bs \<and> length bytes < 2 ^ 63 \<and> (\<forall>p \<in> set (pieces (unat n) bytes). get (hash p) = Inr p)"
  then have l: "length bytes < 2 ^ 63" and r: "reconstruct bs (of_nat (length bytes)) get = Inr bytes" by (auto intro: reconstruct_chunk)
  then show "reconstruct bs (of_nat (length bytes)) get = Inr bytes" by blast
  from reconstruct_covers [OF r] l show "covers 0 bs (length bytes)" by (simp add: word_nat)
qed

theorem blocks_partition_witness:
  "covers 0 [sample_block] 3 \<and> reconstruct [sample_block] 3 (\<lambda>_. Inr [1, 2, 3]) = Inr [1, 2, 3] \<and> validate_block_list [sample_block] 3 = Inr ()"
  using blocks_partition [of "[sample_block]" 3 "\<lambda>_. Inr [1, 2, 3]" "[1, 2, 3]" "[1, 2, 3]" 4] chunk_one_block
  by (simp add: pieces.simps) (simp add: unwrapped_def MAX_BLOCKS_PER_TENSOR_def)

text \<open>C24.  The reference-counted arena refines a multiset of block identities: acquiring blocks and then
  releasing their identities gives back the same multiset, and every acquired block can be fetched in
  between.\<close>

theorem arena_acquire_release:
  assumes "arena_inv a" "size (arena_abs a) + length ps < 2 ^ 64" "b \<in> set ps"
  shows "arena_inv (fold arena_acq ps a) \<and> arena_abs (fold arena_acq ps a) = arena_abs a + mset (map hash ps) \<and>
    arena_abs (fold arena_rel (map hash ps) (fold arena_acq ps a)) = arena_abs a \<and>
    (\<exists>p. arena_get (fold arena_acq ps a) (hash b) = Inr p \<and> hash p = hash b)"
proof -
  have le: "size (arena_abs a) + length ps \<le> 2 ^ 64 - 1" using assms(2) by simp
  show ?thesis
    using arena.acq_all_abs [OF assms(1) le] arena.acq_rel_all [OF assms(1) le]
      arena.acquired_readable [OF assms(1) le assms(3)] by (auto simp: arena_get_def)
qed

theorem arena_acquire_release_witness:
  "arena_abs (fold arena_rel [hash [1], hash [1]] (fold arena_acq [[1], [1]] arena_new)) = {#}"
  using arena_acquire_release [of arena_new "[[1], [1]]" "[1]"] by simp

section \<open>Backends\<close>

section \<open>Protocol\<close>

text \<open>C25.  Message bodies: decoding accepts exactly the encodings of well-formed messages of the tagged
  type and returns the message.\<close>

theorem message_codec:
  "msg_decode t bs = Inr m \<longleftrightarrow> msg_ok m \<and> msg_type_of m = t \<and> bs = msg_encode m"
  using msg_decode_encode msg_decode_sound by blast

text \<open>C26.  A message framed by one peer is read by the other as the same message, however the bytes are
  split into reads and interrupted, and the reader stops exactly at the end of the frame.\<close>

theorem frame_roundtrip:
  assumes "msg_ok m" "length (msg_encode m) \<le> unat MAX_FRAME" "clean es" "stream_bytes es = msg_encode_frame m @ rest"
  shows "\<exists>es' payload. read_frame es = (Inr (Some (msg_type_of m, payload)), es') \<and>
    msg_decode (msg_type_of m) payload = Inr m \<and> clean es' \<and> stream_bytes es' = rest"
  using read_frame_written [OF assms(3) _ assms(2), of "msg_type_of m" rest] assms(1,4) msg_decode_encode
  by (auto simp: msg_encode_frame_def)

theorem frame_roundtrip_witness:
  "\<exists>es' payload. read_frame [Chunk (take 7 (msg_encode_frame (Heartbeat ''n1'' 1))), Interrupted,
       Chunk (drop 7 (msg_encode_frame (Heartbeat ''n1'' 1)))] = (Inr (Some (THeartbeat, payload)), es') \<and>
     msg_decode THeartbeat payload = Inr (Heartbeat ''n1'' 1)"
proof -
  have l: "length (msg_encode (Heartbeat ''n1'' 1)) = 18" by (simp add: w_str_def w_bytes_def w_u64_def)
  have ne: "take 7 (msg_encode_frame (Heartbeat ''n1'' 1)) \<noteq> []" "drop 7 (msg_encode_frame (Heartbeat ''n1'' 1)) \<noteq> []"
    by (simp_all add: msg_encode_frame_def encode_frame_header frame_header_nonempty del: msg_encode.simps)
  show ?thesis
    using frame_roundtrip [of "Heartbeat ''n1'' 1" "[Chunk (take 7 (msg_encode_frame (Heartbeat ''n1'' 1))), Interrupted,
       Chunk (drop 7 (msg_encode_frame (Heartbeat ''n1'' 1)))]" "[]"] l ne
    by (auto simp: event_ok_def event_bytes_def sample_strings MAX_FRAME_def simp del: msg_encode.simps)
qed

text \<open>C27.  A frame with one altered payload byte is refused.\<close>

theorem frame_corruption_detected:
  assumes "clean es" "stream_bytes es = (encode_frame (msg_tag t) payload)[16 + i := b] @ rest"
    "length payload \<le> unat MAX_FRAME" "i < length payload" "b \<noteq> payload ! i"
  shows "\<exists>es'. read_frame es = (Inl (Protocol ''frame CRC mismatch''), es')"
  using assms by (rule read_frame_corrupt)

theorem frame_corruption_detected_witness:
  "\<exists>es'. read_frame [Chunk ((encode_frame (msg_tag TStoreAck) [1, 2, 3])[16 + 1 := 9])] = (Inl (Protocol ''frame CRC mismatch''), es')"
  by (rule frame_corruption_detected [where t = TStoreAck and payload = "[1, 2, 3]" and i = 1 and b = 9 and rest = "[]"])
     (simp_all add: event_ok_def event_bytes_def MAX_FRAME_def encode_frame_header frame_header_nonempty)

text \<open>C28.  A connection that closes inside a frame is an error and not an end of stream.\<close>

theorem frame_truncation_detected:
  assumes "clean es" "stream_bytes es = take n (encode_frame (msg_tag t) payload)" "0 < n"
    "n < length (encode_frame (msg_tag t) payload)" "length payload \<le> unat MAX_FRAME"
  shows "\<exists>m es'. read_frame es = (Inl (Protocol m), es')"
  using assms by (rule read_frame_truncated)

theorem frame_truncation_detected_witness:
  "\<exists>m es'. read_frame [Chunk (take 5 (encode_frame (msg_tag TStoreAck) [1, 2, 3]))] = (Inl (Protocol m), es')"
  by (rule frame_truncation_detected [where n = 5 and payload = "[1, 2, 3]" and t = TStoreAck])
     (simp_all add: event_ok_def event_bytes_def MAX_FRAME_def encode_frame_header frame_header_nonempty)

section \<open>The coordinator\<close>

text \<open>C29.  Fencing: over any sequence of messages, restarts and reloads of the snapshot of the latest state, an object once
  created keeps an owner, its fence never decreases, and it changes owner only together with a larger fence.\<close>

theorem coordinator_fencing:
  assumes "coord_run m (coord_new boot lease) c" "coord_run n c c'" "m + n < 2 ^ 64" "co_objects c oid = Some st"
  shows "\<exists>st'. co_objects c' oid = Some st' \<and> os_fence st \<le> os_fence st' \<and>
    (os_fence st' = os_fence st \<longrightarrow> os_owner st' = os_owner st)"
proof -
  have inv: "coord_inv c" by (rule coord_run_inv [OF assms(1) coord_new_inv])
  have "fences_le (0 + m) c"
    by (rule coord_run_fences [OF assms(1) coord_new_inv]) (simp add: fences_le_def coord_new_def)
  with coord_run_fencing [OF assms(2) inv _ _ assms(4), of m] assms(3) show ?thesis by simp
qed

abbreviation sample_coord :: coordinator where
  "sample_coord \<equiv> snd (handle 0 (Create ''ns'' ''k'' 0 3 [] ''n1'') (coord_new (BootId ''n1'') 5))"

lemma sample_coord_run: "coord_run 1 (coord_new (BootId ''n1'') 5) sample_coord"
proof -
  have "coord_step (coord_new (BootId ''n1'') 5) sample_coord"
    by (rule coord_step.message [of "Create ''ns'' ''k'' 0 3 [] ''n1''" 0 _ "fst (handle 0 (Create ''ns'' ''k'' 0 3 [] ''n1'') (coord_new (BootId ''n1'') 5))"])
       (simp_all add: sample_strings fits_def)
  from coord_run.more [OF coord_run.none this] show ?thesis by simp
qed

theorem coordinator_fencing_witness:
  "\<exists>st'. co_objects (coord_restart (BootId ''n2'') sample_coord) (oid_to_hex sample_oid) = Some st' \<and> 0 \<le> os_fence st'"
proof -
  have run: "coord_run 1 sample_coord (coord_restart (BootId ''n2'') sample_coord)"
    using coord_run.more [OF coord_run.none coord_step.restart] by simp
  have "co_objects sample_coord (oid_to_hex sample_oid) = Some \<lparr>os_owner = ''n1'', os_fence = 0, os_epoch = Epoch 1\<rparr>"
    by (simp add: coord_new_def coord_object_id_def Let_def)
  from coordinator_fencing [OF sample_coord_run run _ this] show ?thesis by auto
qed

text \<open>C30.  The coordinator's handler, one message at a time: an error leaves the state as it was.  The record of an object changes
  only by a create message for that object, which installs the sender as owner at fence 0 if there is no record, or by the
  acknowledgement of the migration that is pending for it, with the new owner and the next fence that the pending
  migration names, which installs both.  The pending migration of an object changes only by a migrate message with a
  fence that is not stale, which announces the next fence, or by that acknowledgement, which ends it.\<close>

theorem coordinator_handler:
  assumes "coord_run n (coord_new boot lease) c" "handle now msg c = (r, c')"
  shows "((\<exists>e. r = Inl e) \<longrightarrow> c' = c) \<and>
    (co_objects c' oid = co_objects c oid \<or>
     (\<exists>namespace key generation len cpt node. msg = Create namespace key generation len cpt node \<and>
        oid = coord_object_id namespace key generation \<and> co_objects c oid = None \<and>
        co_objects c' oid = Some \<lparr>os_owner = node, os_fence = 0, os_epoch = co_epoch c\<rparr>) \<or>
     (\<exists>st new. msg = MigrateAck oid new (os_fence st + 1) \<and> co_objects c oid = Some st \<and>
        co_migrations c oid = Some \<lparr>pm_new_owner = new, pm_to_fence = os_fence st + 1\<rparr> \<and> r = Inr [] \<and>
        co_objects c' oid = Some (st\<lparr>os_owner := new, os_fence := os_fence st + 1, os_epoch := co_epoch c\<rparr>))) \<and>
    (co_migrations c' oid = co_migrations c oid \<or>
     (\<exists>st new addr fence. msg = Migrate oid new addr fence \<and> co_objects c oid = Some st \<and> os_fence st \<le> fence \<and>
        co_migrations c' oid = Some \<lparr>pm_new_owner = new, pm_to_fence = os_fence st + 1\<rparr>) \<or>
     (\<exists>new fence. msg = MigrateAck oid new fence \<and> co_migrations c oid = Some \<lparr>pm_new_owner = new, pm_to_fence = fence\<rparr> \<and>
        co_migrations c' oid = None))"
proof -
  have inv: "coord_inv c" by (rule coord_run_inv [OF assms(1) coord_new_inv])
  have "(\<exists>e. r = Inl e) \<longrightarrow> c' = c" using handle_error assms(2) by blast
  then show ?thesis by (intro conjI handle_object [OF inv assms(2)] handle_pending [OF inv assms(2)])
qed

theorem coordinator_handler_witness:
  "fst (handle 0 (LeaseRenew (oid_to_hex sample_oid) 7) sample_coord) \<noteq> Inr [] \<and>
     snd (handle 0 (LeaseRenew (oid_to_hex sample_oid) 7) sample_coord) = sample_coord"
proof -
  obtain r c' where h: "handle 0 (LeaseRenew (oid_to_hex sample_oid) 7) sample_coord = (r, c')" by fastforce
  moreover have "\<exists>e. r = Inl e" using h by (auto simp: coord_new_def coord_object_id_def Let_def)
  ultimately show ?thesis using coordinator_handler [OF sample_coord_run h] by auto
qed

text \<open>C31.  The coordinator under concurrent connections: however the threads of its connections interleave, there is one
  order of all requests such that the coordinator's state is the result of handling them one after the other, every
  connection's requests appear in that order as its stream carried them, and what was written on a connection is
  exactly the answers to its own requests (then at most one protocol error).  The state is reached by a run of the
  coordinator's state machine, so fencing holds under concurrency.\<close>

theorem connections_serialise:
  assumes "proc_run (coordinator_turn snap) ios \<lparr>pr_state = sv, pr_conns = []\<rparr> p" "coord_run n c (sv_coord sv)"
  shows "\<exists>tr. pr_state p = snd (serial (coordinator_turn snap) tr sv) \<and> length (pr_conns p) = length ios \<and>
    (\<forall>i < length ios. served (ios ! i) (requests i tr) (answers i (fst (serial (coordinator_turn snap) tr sv))) (pr_conns p ! i)) \<and>
    coord_run (n + length tr) c (sv_coord (pr_state p))"
proof -
  obtain tr where tr: "explained (coordinator_turn snap) sv ios tr p" using coord.run_explained [OF assms(1) refl] by blast
  then have "\<forall>(i, m) \<in> set tr. msg_ok m" by (auto simp: explained_def)
  from serial_coord_run [OF assms(2) this, of snap] tr show ?thesis unfolding explained_def by metis
qed

theorem connections_serialise_witness:
  "\<exists>es tr. sample_server\<lparr>sv_ticks := 1\<rparr> = snd (serial (coordinator_turn False) tr sample_server) \<and>
     served ([Chunk (msg_encode_frame (Heartbeat ''n1'' 1))], fresh) (requests 1 tr)
       (answers 1 (fst (serial (coordinator_turn False) tr sample_server))) \<lparr>cn_in = es, cn_wc = fresh, cn_state = Serving\<rparr>"
proof -
  let ?es = "[Chunk (msg_encode_frame (Heartbeat ''n1'' 1))]" and ?turn = "coordinator_turn False"
  let ?p1 = "\<lparr>pr_state = sample_server, pr_conns = [\<lparr>cn_in = [], cn_wc = fresh, cn_state = Serving\<rparr>]\<rparr>"
  let ?p2 = "\<lparr>pr_state = sample_server, pr_conns = [\<lparr>cn_in = [], cn_wc = fresh, cn_state = Serving\<rparr>,
    \<lparr>cn_in = ?es, cn_wc = fresh, cn_state = Serving\<rparr>]\<rparr>"
  have ne: "msg_encode_frame (Heartbeat ''n1'' 1) \<noteq> []"
    by (simp add: msg_encode_frame_def encode_frame_header frame_header_nonempty del: msg_encode.simps)
  have cl: "clean ?es" "stream_bytes ?es = msg_encode_frame (Heartbeat ''n1'' 1) @ []"
    using ne by (simp_all add: event_ok_def event_bytes_def del: msg_encode.simps)
  obtain es' where rd: "read_frame ?es = (Inr (Some (THeartbeat, msg_encode (Heartbeat ''n1'' 1))), es')" "clean es'" "stream_bytes es' = []"
    by (rule read_frame_sendable [OF cl sendable_heartbeat]) (simp del: msg_encode.simps)
  let ?p3 = "\<lparr>pr_state = sample_server\<lparr>sv_ticks := 1\<rparr>, pr_conns = [\<lparr>cn_in = [], cn_wc = fresh, cn_state = Serving\<rparr>,
    \<lparr>cn_in = es', cn_wc = fresh, cn_state = Serving\<rparr>]\<rparr>"
  have dec: "msg_decode THeartbeat (msg_encode (Heartbeat ''n1'' 1)) = Inr (Heartbeat ''n1'' 1)"
    using msg_decode_encode [of "Heartbeat ''n1'' 1"] sendable_heartbeat by (simp add: sendable_def del: msg_encode.simps)
  have t: "?turn (Heartbeat ''n1'' 1) sample_server = (Inr [], sample_server\<lparr>sv_ticks := 1\<rparr>)"
    by (simp add: coordinator_turn_def sample_server_def)
  have r1: "proc_run ?turn [([], fresh)] \<lparr>pr_state = sample_server, pr_conns = []\<rparr> ?p1"
    using proc_run.step [OF proc_run.start proc_step.accept [of ?turn "[]" fresh], of "\<lparr>pr_state = sample_server, pr_conns = []\<rparr>"] by (simp del: msg_encode.simps)
  have r2: "proc_run ?turn [([], fresh), (?es, fresh)] \<lparr>pr_state = sample_server, pr_conns = []\<rparr> ?p2"
    using proc_run.step [OF r1 proc_step.accept [of ?turn ?es fresh]] by (simp del: msg_encode.simps)
  have "serve_turn ?turn (pr_conns ?p2 ! 1) (pr_state ?p2) = (\<lparr>cn_in = es', cn_wc = fresh, cn_state = Serving\<rparr>, sample_server\<lparr>sv_ticks := 1\<rparr>)"
    using rd(1) dec t by (simp add: serve_turn_def del: msg_encode.simps)
  from proc_run.step [OF r2 proc_step.serve [OF _ _ this]]
  have r3: "proc_run ?turn [([], fresh), (?es, fresh)] \<lparr>pr_state = sample_server, pr_conns = []\<rparr> ?p3" by (simp del: msg_encode.simps)
  have run: "coord_run 1 (coord_new (BootId ''n1'') 5) (sv_coord sample_server)"
    using sample_coord_run by (simp add: sample_server_def)
  from connections_serialise [OF r3 run] show ?thesis by fastforce
qed

text \<open>C32.  Serving connections ends: with no new connection, the threads make at most as many rounds as there are bytes
  and events left in the streams (plus one per connection), and every such run can be continued until all connections
  are closed.\<close>

theorem connections_terminate:
  assumes "rounds (coordinator_turn snap) n p q"
  shows "n \<le> total_work p \<and> (\<exists>m r. rounds (coordinator_turn snap) m p r \<and> n \<le> m \<and> m \<le> total_work p \<and>
    (\<forall>cn \<in> set (pr_conns r). cn_state cn \<noteq> Serving))"
proof -
  obtain m r where r: "rounds (coordinator_turn snap) m p r" "n \<le> m" "\<forall>cn \<in> set (pr_conns r). cn_state cn \<noteq> Serving"
    using rounds_finish [OF assms] by blast
  with rounds_bound [OF assms] rounds_bound [OF r(1)] show ?thesis by (meson add_leD1)
qed

theorem connections_terminate_witness:
  "\<exists>m r. rounds (coordinator_turn False) m \<lparr>pr_state = sample_server, pr_conns = [\<lparr>cn_in = [IoError ''reset''], cn_wc = fresh, cn_state = Serving\<rparr>]\<rparr> r \<and>
     m \<le> 2 \<and> (\<forall>cn \<in> set (pr_conns r). cn_state cn \<noteq> Serving)"
  using connections_terminate [OF rounds.no_round [of "coordinator_turn False"
      "\<lparr>pr_state = sample_server, pr_conns = [\<lparr>cn_in = [IoError ''reset''], cn_wc = fresh, cn_state = Serving\<rparr>]\<rparr>"]]
  by (auto simp: work_def event_size_def numeral_2_eq_2)

section \<open>Identity and integrity of content\<close>

text \<open>C33.  The canonical encoding of a compatibility key, over which its identity is taken: the decoder accepts exactly the
  encodings of keys whose shape is within the limits and whose layout is valid for the shape, and gives back the key;
  every other byte string, also one with bytes left over, is an error.\<close>

theorem compat_codec: "compat_decode bs = Inr k \<longleftrightarrow> valid_key k \<and> bs = compat_encode k"
  using decode_encode decode_sound by blast

text \<open>C34.  The incremental SHA-256 (an internal block buffer filled by any split of the message into
  updates) computes the one-shot padded SHA-256 of the whole message, and the table-driven CRC-32C, continued over any
  split of the data, is the bit-serial CRC-32C of the whole data.\<close>

theorem digests_streaming:
  "sha_finalize (foldl sha_update sha_new chunks) = sha256_ref (concat chunks) \<and>
   foldl crc32c_continue 0 chunks = crc32c_ref (concat chunks)"
  using sha.out_chunks crc.out_chunks by blast

section \<open>Geometry\<close>

text \<open>C35.  The byte length of a shape is the product of its extents and the element size; it is
  reported exactly when no step of the checked multiplication overflows.\<close>

theorem byte_len_exact:
  "shape_byte_len s elem = Inr b \<longleftrightarrow>
     elem \<noteq> 0 \<and> elem \<le> max_w div 8 \<and> numel_fits s \<and> unat b = nat_prod (dims s) * unat elem"
  by (rule shape_byte_len_Inr_iff)

section \<open>Decisions\<close>

text \<open>C36.  The planner's choice is one of the feasible actions and no feasible action is cheaper (ties go
  to the action with the smaller priority number).\<close>

theorem planner_optimal:
  assumes "feasible cm bytes dest ps can a c"
  shows "feasible cm bytes dest ps can (pl_action (decide cm bytes dest ps can)) (pl_cost_ns (decide cm bytes dest ps can)) \<and>
    (pl_cost_ns (decide cm bytes dest ps can), action_priority (pl_action (decide cm bytes dest ps can)))
      \<le> (c, action_priority a)"
proof -
  have "ps \<noteq> [] \<or> can" using assms by (cases rule: feasible.cases) auto
  then show ?thesis using decide_feasible decide_least [OF assms] by blast
qed

theorem planner_optimal_witness:
  "(pl_cost_ns (decide cost_default 4096 Host [Persistent] True),
      action_priority (pl_action (decide cost_default 4096 Host [Persistent] True)))
     \<le> (reconstruct_cost_ns cost_default 4096, action_priority AReconstruct)"
  using planner_optimal [of cost_default 4096 Host "[Persistent]" True AReconstruct "reconstruct_cost_ns cost_default 4096"]
  by (simp add: feasible_iff)

text \<open>C37.  The eviction order depends only on which candidates there are, not on the iteration order of
  the map they come from, and is sorted by keep score.\<close>

theorem eviction_order_canonical:
  assumes "mset es = mset fs" "inj_on ev_object_id (set es)"
  shows "eviction_order policy es = eviction_order policy fs \<and> sorted (map (evict_key policy) (eviction_order policy es)) \<and>
    mset (eviction_order policy es) = mset es"
  using eviction_order_deterministic [OF assms] eviction_order_sorted eviction_order_perm by blast

abbreviation sample_evictable :: "string \<Rightarrow> u64 \<Rightarrow> evictable" where
  "sample_evictable key bytes \<equiv> \<lparr>ev_object_id = key, ev_bytes = bytes, ev_reuse_count = 1, ev_age_seconds = 2,
     ev_reconstruction_cost_ns = 100, ev_priority = 0, ev_durable = False\<rparr>"

theorem eviction_order_canonical_witness:
  "eviction_order eviction_default [sample_evictable ''a'' 10, sample_evictable ''b'' 20] =
     eviction_order eviction_default [sample_evictable ''b'' 20, sample_evictable ''a'' 10]"
  using eviction_order_canonical [of "[sample_evictable ''a'' 10, sample_evictable ''b'' 20]"
      "[sample_evictable ''b'' 20, sample_evictable ''a'' 10]" eviction_default]
  by (simp add: inj_on_def add_mset_commute)

section \<open>Byte budgets\<close>

text \<open>C38.  The five budget operations on 64-bit counters implement a ledger of natural numbers, on every budget: each accepts
  exactly what the ledger accepts and leaves the counters the ledger leaves, a refusal being an accounting error.  Where used
  and reserved bytes are within the capacity a refusal changes nothing; outside of it a commit that is refused loses its
  reservation.  A capacity of \<open>u64::MAX\<close> limits reservations only by the width of their counter.\<close>

theorem budget_refines_ledger:
  "(is_ok (fst (add_used n b)), ledger_of (snd (add_used n b))) = lg_add (unat n) (ledger_of b) \<and>
   (is_ok (fst (sub_used n b)), ledger_of (snd (sub_used n b))) = lg_sub (unat n) (ledger_of b) \<and>
   (is_ok (fst (budget_reserve n b)), ledger_of (snd (budget_reserve n b))) = lg_reserve (unat n) (ledger_of b) \<and>
   (is_ok (fst (budget_commit n b)), ledger_of (snd (budget_commit n b))) = lg_commit (unat n) (ledger_of b) \<and>
   (is_ok (fst (budget_cancel n b)), ledger_of (snd (budget_cancel n b))) = lg_cancel (unat n) (ledger_of b) \<and>
   (\<forall>f \<in> {add_used, sub_used, budget_reserve, budget_commit, budget_cancel}. \<forall>e b'. f n b = (Inl e, b') \<longrightarrow>
      (\<exists>m. e = AccountingErr m) \<and> (budget_inv b \<longrightarrow> b' = b))"
proof (intro conjI ballI allI impI add.refines sub.refines rsv.refines commit.refines cancel.refines)
  fix f e b' assume f: "f \<in> {add_used, sub_used, budget_reserve, budget_commit, budget_cancel}" "f n b = (Inl e, b')"
  then show "\<exists>m. e = AccountingErr m" using add.refuses sub.refuses rsv.refuses commit.refuses cancel.refuses by auto
  show "b' = b" if "budget_inv b"
    using f(1)
  proof (elim insertE emptyE)
    assume "f = budget_commit" then show ?thesis using commit_refused [OF that] f(2) by blast
  qed (use f(2) in \<open>auto simp: add_used_def sub_used_def budget_reserve_def budget_cancel_def split: option.splits if_splits\<close>)
qed

abbreviation sample_budget :: budget where
  "sample_budget \<equiv> \<lparr>bu_capacity = 100, bu_used = 30, bu_reserved = 20\<rparr>"

theorem budget_refines_ledger_witness:
  "ledger_of (snd (budget_reserve 50 sample_budget)) = \<lparr>lg_capacity = 100, lg_used = 30, lg_reserved = 70\<rparr> \<and>
     snd (budget_commit 50 sample_budget) = sample_budget"
proof -
  have i: "budget_inv sample_budget" by (simp add: budget_inv_def)
  obtain e b' where c: "budget_commit 50 sample_budget = (Inl e, b')" by (auto simp: budget_commit_def)
  from budget_refines_ledger [of 50 sample_budget] i c show ?thesis by (simp add: lg_reserve_def ledger_of_def)
qed



section \<open>The command line\<close>

text \<open>C40.  From one process to the next: on a directory that works and whose blocks and manifests are in order, a create
  command for a new object of matching shape and of at most one gibibyte, which fits into the host memory of both
  commands, exits with code 0 and prints the object's id; a restore command for that id, run later as a process of its
  own, exits with code 0 and writes exactly the bytes that were given to create, provided SHA-256 separates the blocks
  involved.\<close>

theorem create_then_restore:
  assumes args: "create_args (parse_flags args Map.empty) c path ns key gen k payload capacity"
      "restore_args (parse_flags args' Map.empty) path oid out capacity'"
    and room: "fits_store payload capacity" "fits_store payload capacity'"
    and obj: "oid = object_id (address_new ns key gen)"
      "shape_byte_len (ck_shape k) (byte_size (ck_dtype k)) = Inr (of_nat (length payload))"
      "valid_key k" "fits (compat_encode k)" "rust_address (address_new ns key gen)"
    and dir: "tidy (cv_disks c path)" "finite_store (cv_disks c path)" "st_faults (cv_disks c path) = []" "honest_list (cv_list c)"
      "st_files (cv_disks c path) (ManifestsDir, oid_to_hex oid @ ''.manifest'') = None" "cv_fail c out = None"
      "inj_on hash (set (pieces (unat DEFAULT_BLOCK_SIZE) payload) \<union> ran (st_files (cv_disks c path)))"
  shows "\<exists>c' c''. cli_main ev (''create'' # args) c = ((0, []), c') \<and> ''created object '' @ oid_to_hex oid \<in> set (cv_out c') \<and>
    cli_main ev (''restore'' # args') c' = ((0, []), c'') \<and> cv_files c'' = cv_files c' @ [(out, payload)]"
proof -
  let ?F = "parse_flags args Map.empty" and ?G = "parse_flags args' Map.empty"
  obtain c' where c': "cmd_create ?F c = (Inr (), c')" "st_faults (cv_disks c' path) = []" "cv_fail c' = cv_fail c"
    using create_total [OF args(1) room(1) obj(2,1) dir(1,3,5,7)] by blast
  have fl: "cv_fail c' out = None" using c'(3) dir(6) by simp
  from restore_created [OF c'(1) args(1) room obj(1,3-5) dir(1,2,4,7) args(2) c'(2) fl] obtain c'' where
    "''created object '' @ oid_to_hex oid \<in> set (cv_out c')" "cmd_restore ?G c' = (Inr (), c'')" "cv_files c'' = cv_files c' @ [(out, payload)]"
    by blast
  with c'(1) show ?thesis by (auto simp: cli_main_def parse_args_def dispatch_def)
qed

text \<open>A machine with empty directories, one input file and no network.\<close>

definition sample_cli :: "unit cli" where
  "sample_cli = \<lparr>cv_disks = (\<lambda>_. empty_store), cv_list = (\<lambda>d st. sorted_list_of_set {name. st_files st (d, name) \<noteq> None}),
     cv_input = (\<lambda>_. Inr [1, 2, 3]), cv_fail = (\<lambda>_. None), cv_files = [], cv_out = [], cv_clock = (\<lambda>_. 0),
     cv_iter = (\<lambda>_. []), cv_world = ()\<rparr>"

definition sample_env :: "unit cli_env" where
  "sample_env = \<lparr>ev_version = ''0.1.0'', ev_create_elapsed = 0, ev_lookup_elapsed = 0,
     ev_net = \<lparr>nt_connect = (\<lambda>_ w. (Inl ''down'', w)), nt_write = (\<lambda>_ _ w. (Inl ''down'', w)), nt_inbound = (\<lambda>_ _. []), nt_consume = (\<lambda>_ _ w. w)\<rparr>,
     ev_run_coordinator = (\<lambda>_. Pair (Inr ())), ev_run_node = (\<lambda>_. Pair (Inr ()))\<rparr>"

lemma sample_honest: "honest_list (cv_list sample_cli)"
proof -
  have "finite {name. st_files st (d, name) \<noteq> None}" if "finite_store st" for d st
  proof -
    have "{name. st_files st (d, name) \<noteq> None} = Pair d -` dom (st_files st)" by auto
    then show ?thesis using finite_vimageI [OF that, of "Pair d"] by (simp add: inj_on_def)
  qed
  then show ?thesis by (simp add: honest_list_def sample_cli_def)
qed

abbreviation sample_create :: "string list" where
  "sample_create \<equiv> [''--store'', ''d'', ''--namespace'', ''ns'', ''--key'', ''k'', ''--dtype'', ''u8'', ''--shape'', ''3'', ''--file'', ''f'']"

abbreviation sample_restore_args :: "string list" where
  "sample_restore_args \<equiv> [''--store'', ''d'', ''--object'', oid_to_hex sample_oid, ''--out'', ''o'']"

lemma sample_create_args: "create_args (parse_flags sample_create Map.empty) sample_cli ''d'' ''ns'' ''k'' 0 sample_key [1, 2, 3] DEFAULT_CAPACITY"
proof -
  have "parse_shape ''3'' = Inr (Shape [3])"
    by (simp add: parse_shape_def parse_u64_def to_digit_def checked_mul_def checked_add_def Shape_new_def MAX_RANK_def MAX_DIM_def)
  then show ?thesis
    by (simp add: create_args_def num_flag_def build_compat_def read_payload_def sample_cli_def parse_dtype_def parse_layout_def
        opt_set_def Let_def compat_default_def)
qed

theorem create_then_restore_witness:
  "\<exists>c' c''. cli_main sample_env (''create'' # sample_create) sample_cli = ((0, []), c') \<and>
     cli_main sample_env (''restore'' # sample_restore_args) c' = ((0, []), c'') \<and> cv_files c'' = cv_files c' @ [(''o'', [1, 2, 3])]"
proof -
  have "restore_args (parse_flags sample_restore_args Map.empty) ''d'' sample_oid ''o'' DEFAULT_CAPACITY"
    by (simp add: restore_args_def num_flag_def tier_flag_def parse_tier_def)
  moreover have "fits_store [1, 2, 3] DEFAULT_CAPACITY"
    by (simp add: fits_store_def DEFAULT_CAPACITY_def max_w_def max_def word_le_nat_alt)
  moreover have "tidy (cv_disks sample_cli ''d'')" by (simp add: tidy_def sample_cli_def)
  moreover have "fits (compat_encode sample_key)"
    by (simp add: fits_def compat_encode_def compat_default_def w_u8_def w_bool_def enc_shape_def w_u64_def)
  moreover have "inj_on hash (set (pieces (unat DEFAULT_BLOCK_SIZE) [1, 2, 3]) \<union> ran (st_files (cv_disks sample_cli ''d'')))"
    by (simp add: DEFAULT_BLOCK_SIZE_def pieces.simps sample_cli_def)
  moreover have "rust_address (address_new ''ns'' ''k'' 0)" using sample_strings by (simp add: rust_address_def address_new_def)
  ultimately show ?thesis
    using create_then_restore [OF sample_create_args _ _ _ refl, of sample_restore_args "''o''" DEFAULT_CAPACITY sample_env]
      sample_byte_len sample_key_valid sample_honest
    by (simp add: sample_cli_def) blast
qed

end
